(* ===== verification/Yui_Prelude.thy ===== *)
theory Yui_Prelude
  imports Main "HOL-Library.Multiset"
begin

text \<open>
  Shared vocabulary of the development: the enumerations of \<^verbatim>\<open>YTypes.h\<close>, the exceptions of
  \<^verbatim>\<open>YUIException.h\<close> as values of a sum type, C++ integer division, and the generic lemmas on
  lists, positions and sums that the component theories rely on.
\<close>

section \<open>Collections of rewrite rules\<close>

named_theorems yui_defs \<open>definitions of the accessors and small operations\<close>
named_theorems yui_views \<open>what an operation does to the observable views of a state\<close>

section \<open>Enumerations of YTypes.h\<close>

datatype YUIDimension = YD_HORIZ | YD_VERT

datatype YAlignmentType = YAlignUnchanged | YAlignBegin | YAlignEnd | YAlignCenter

datatype YDialogType = YMainDialog | YPopupDialog | YWizardDialog

datatype YButtonRole =
  YCustomButton | YOKButton | YApplyButton | YCancelButton | YHelpButton | YRelNotesButton
  | YMaxButtonRole

datatype YButtonOrder = YKDEButtonOrder | YGnomeButtonOrder

text \<open>The other dimension: the expression every two-dimensional container computes.\<close>

fun other_dim :: "YUIDimension \<Rightarrow> YUIDimension" where
  "other_dim YD_HORIZ = YD_VERT"
| "other_dim YD_VERT = YD_HORIZ"

lemma other_dim_involution [simp]: "other_dim (other_dim d) = d"
  by (cases d) simp_all

lemma other_dim_neq [simp]: "other_dim d \<noteq> d" "d \<noteq> other_dim d"
  by (cases d; simp)+

lemma all_dims: "(\<forall>d. P d) \<longleftrightarrow> P YD_HORIZ \<and> P YD_VERT"
  by (metis YUIDimension.exhaust)

section \<open>Exceptions as values\<close>

text \<open>
  One constructor per exception class of \<^verbatim>\<open>YUIException.h\<close> the modelled code throws, with the
  data the code puts into it. \<open>out_of_range\<close> stands for \<^verbatim>\<open>std::out_of_range\<close>, and
  \<open>undefined_behaviour\<close> for an operation the C++ standard gives no meaning (a null pointer is
  dereferenced, a vector is read past its end).
\<close>

datatype yui_exception =
    YUIException string
  | YUINullPointerException
  | YUIInvalidWidgetException
  | YUIWidgetNotFoundException string
  | YUINoDialogException
  | YUIDialogStackingOrderException
  | YUIUnknownPropertyException string
  | YUIPropertyTypeMismatchException string
  | YUISetReadOnlyPropertyException string
  | YUITooManyChildrenException
  | YUIInvalidChildException
  | YUIIndexOutOfRangeException int int int
  | YUIButtonRoleMismatchException string
  | out_of_range
  | undefined_behaviour string

type_synonym 'a result = "yui_exception + 'a"

abbreviation throw :: "yui_exception \<Rightarrow> 'a result" where
  "throw e \<equiv> Inl e"

abbreviation return :: "'a \<Rightarrow> 'a result" where
  "return x \<equiv> Inr x"

text \<open>Sequencing: an exception leaves the rest of the body unexecuted.\<close>

definition bind_result :: "'a result \<Rightarrow> ('a \<Rightarrow> 'b result) \<Rightarrow> 'b result" where
  "bind_result m f = (case m of Inl e \<Rightarrow> Inl e | Inr x \<Rightarrow> f x)"

lemma bind_result_simps [simp]:
  "bind_result (Inl e) f = Inl e" "bind_result (Inr x) f = f x"
  by (simp_all add: bind_result_def)

lemma bind_result_Inr_iff:
  "bind_result m f = Inr y \<longleftrightarrow> (\<exists>x. m = Inr x \<and> f x = Inr y)"
  by (cases m) auto

lemma bind_result_cong [fundef_cong]:
  "m = m' \<Longrightarrow> (\<And>x. m' = Inr x \<Longrightarrow> f x = f' x) \<Longrightarrow> bind_result m f = bind_result m' f'"
  by (cases m') auto

section \<open>Computations that may not return\<close>

text \<open>The value \<open>None\<close> stands for a loop or recursion that never ends.\<close>

type_synonym 'a run = "'a result option"

definition bind_run :: "'a run \<Rightarrow> ('a \<Rightarrow> 'b run) \<Rightarrow> 'b run" where
  "bind_run m f = (case m of None \<Rightarrow> None | Some (Inl e) \<Rightarrow> Some (Inl e) | Some (Inr x) \<Rightarrow> f x)"

lemma bind_run_simps [simp]:
  "bind_run None f = None" "bind_run (Some (Inl e)) f = Some (Inl e)" "bind_run (Some (Inr x)) f = f x"
  by (simp_all add: bind_run_def)

lemma bind_run_Inr_iff:
  "bind_run m f = Some (Inr y) \<longleftrightarrow> (\<exists>x. m = Some (Inr x) \<and> f x = Some (Inr y))"
  by (auto simp: bind_run_def split: option.splits sum.splits)

lemma bind_run_cong [fundef_cong]:
  "m = m' \<Longrightarrow> (\<And>x. m' = Some (Inr x) \<Longrightarrow> f x = f' x) \<Longrightarrow> bind_run m f = bind_run m' f'"
  by (auto simp: bind_run_def split: option.splits sum.splits)

section \<open>Index checks\<close>

text \<open>\<^verbatim>\<open>YUI_CHECK_INDEX( index, min, max )\<close>: both bounds are inclusive.\<close>

definition YUI_CHECK_INDEX :: "int \<Rightarrow> int \<Rightarrow> int \<Rightarrow> unit result" where
  "YUI_CHECK_INDEX i lo hi =
     (if i < lo \<or> i > hi then throw (YUIIndexOutOfRangeException i lo hi) else return ())"

lemma YUI_CHECK_INDEX_Inr [simp]: "YUI_CHECK_INDEX i lo hi = Inr u \<longleftrightarrow> lo \<le> i \<and> i \<le> hi"
  by (auto simp: YUI_CHECK_INDEX_def)

section \<open>Searching a list\<close>

lemma find_append:
  "List.find P (xs @ ys) = (case List.find P xs of Some x \<Rightarrow> Some x | None \<Rightarrow> List.find P ys)"
  by (induction xs) auto

section \<open>C++ integer division\<close>

text \<open>
  C++ truncates towards zero. Layout sizes are C++ \<^verbatim>\<open>int\<close>s; the models use unbounded integers,
  so they describe the code wherever no intermediate value leaves the range of \<^verbatim>\<open>int\<close>.
\<close>

definition c_div :: "int \<Rightarrow> int \<Rightarrow> int" where
  "c_div a b = sgn a * sgn b * (\<bar>a\<bar> div \<bar>b\<bar>)"

lemma c_div_nonneg_eq: "0 \<le> a \<Longrightarrow> 0 < b \<Longrightarrow> c_div a b = a div b"
  by (cases "a = 0") (simp_all add: c_div_def sgn_if)

lemma c_div_nonneg: "0 \<le> a \<Longrightarrow> 0 < b \<Longrightarrow> 0 \<le> c_div a b"
  by (simp add: c_div_nonneg_eq pos_imp_zdiv_nonneg_iff)

lemma c_div_mult_le: "0 \<le> a \<Longrightarrow> 0 < b \<Longrightarrow> c_div a b * b \<le> a"
  using pos_mod_sign[of b a] by (simp add: c_div_nonneg_eq minus_mod_eq_div_mult[symmetric])

lemma c_div_mult_gt: "0 \<le> a \<Longrightarrow> 0 < b \<Longrightarrow> a - b < c_div a b * b"
  using pos_mod_bound[of b a] by (simp add: c_div_nonneg_eq minus_mod_eq_div_mult[symmetric])

lemma c_div_le: "0 \<le> a \<Longrightarrow> 0 < b \<Longrightarrow> c_div a b \<le> a"
  by (cases "b = 1 \<or> a = 0") (use int_div_less_self[of a b] in \<open>auto simp: c_div_nonneg_eq\<close>)

section \<open>Lists of sizes and positions\<close>

text \<open>
  \<open>prefix_sums pos xs\<close> are the positions the layout code assigns when it advances a running
  position by each size in turn.
\<close>

fun prefix_sums :: "int \<Rightarrow> int list \<Rightarrow> int list" where
  "prefix_sums pos [] = []"
| "prefix_sums pos (x # xs) = pos # prefix_sums (pos + x) xs"

lemma length_prefix_sums [simp]: "length (prefix_sums pos xs) = length xs"
  by (induction xs arbitrary: pos) simp_all

lemma prefix_sums_nth:
  "i < length xs \<Longrightarrow> prefix_sums pos xs ! i = pos + sum_list (take i xs)"
proof (induction xs arbitrary: pos i)
  case Nil
  then show ?case by simp
next
  case (Cons x xs)
  then show ?case by (cases i) simp_all
qed

lemma sum_list_take_le:
  fixes xs :: "int list"
  assumes "\<forall>x\<in>set xs. 0 \<le> x"
  shows "sum_list (take i xs) \<le> sum_list xs"
proof -
  have "0 \<le> sum_list (drop i xs)"
    using assms by (intro sum_list_nonneg) (auto dest: in_set_dropD)
  then show ?thesis
    by (metis append_take_drop_id sum_list_append le_add_same_cancel1)
qed

lemma sum_list_take_mono:
  fixes xs :: "int list"
  assumes "\<forall>x\<in>set xs. 0 \<le> x" "i \<le> j"
  shows "sum_list (take i xs) \<le> sum_list (take j xs)"
proof -
  have "take i xs = take i (take j xs)"
    using assms(2) by simp
  moreover have "\<forall>x\<in>set (take j xs). 0 \<le> x"
    using assms(1) by (auto dest: in_set_takeD)
  ultimately show ?thesis
    by (metis sum_list_take_le)
qed

lemma sum_list_take_Suc:
  "i < length xs \<Longrightarrow> sum_list (take (Suc i) xs) = sum_list (take i xs) + (xs ! i :: int)"
  by (simp add: take_Suc_conv_app_nth)

end
