(* ===== verification/Yui_Shortcut.thy ===== *)
theory Yui_Shortcut
  imports Yui_Prelude
begin

text \<open>
  Keyboard shortcuts of one label, after \<^verbatim>\<open>YShortcut.cc\<close>: the scan for the marker \<open>&\<close> with
  its escape \<open>&&\<close>, the removal of markers, the classification of shortcut characters, and the
  \<^verbatim>\<open>YShortcut\<close> object with its caches. The index-based loops of the source are proved equal to
  structural reference functions, and the setter and getter of a shortcut form a round trip.
\<close>

section \<open>Shortcut characters\<close>

text \<open>\<^verbatim>\<open>YShortcut::shortcutMarker\<close> and \<^verbatim>\<open>YShortcut::None\<close>.\<close>

definition shortcutMarker :: char where
  "shortcutMarker = CHR ''&''"

definition NoShortcut :: char where
  "NoShortcut = CHR 0x00"

text \<open>The range tests of the source, on the code of the character.\<close>

definition in_range :: "char \<Rightarrow> char \<Rightarrow> char \<Rightarrow> bool" where
  "in_range lo hi c \<longleftrightarrow> (of_char lo :: nat) \<le> of_char c \<and> (of_char c :: nat) \<le> of_char hi"

definition isValid :: "char \<Rightarrow> bool" where
  "isValid c =
     (if in_range CHR ''a'' CHR ''z'' c then True
      else if in_range CHR ''A'' CHR ''Z'' c then True
      else if in_range CHR ''0'' CHR ''9'' c then True
      else False)"

definition normalized :: "char \<Rightarrow> char" where
  "normalized c =
     (if in_range CHR ''a'' CHR ''z'' c
      then char_of (of_char c - of_char CHR ''a'' + of_char CHR ''A'' :: nat)
      else if in_range CHR ''A'' CHR ''Z'' c then c
      else if in_range CHR ''0'' CHR ''9'' c then c
      else NoShortcut)"

text \<open>\<^verbatim>\<open>tolower\<close> and \<^verbatim>\<open>toupper\<close> of the C library in the C locale.\<close>

definition c_tolower :: "char \<Rightarrow> char" where
  "c_tolower c =
     (if in_range CHR ''A'' CHR ''Z'' c
      then char_of (of_char c + of_char CHR ''a'' - of_char CHR ''A'' :: nat) else c)"

definition c_toupper :: "char \<Rightarrow> char" where
  "c_toupper c =
     (if in_range CHR ''a'' CHR ''z'' c
      then char_of (of_char c - of_char CHR ''a'' + of_char CHR ''A'' :: nat) else c)"

lemma of_char_of_small [simp]: "n < 256 \<Longrightarrow> of_char (char_of (n::nat)) = n"
  by (simp add: of_char_of)

text \<open>Facts on single characters, through their codes.\<close>

lemma isValid_code:
  "isValid c \<longleftrightarrow> (let n = (of_char c :: nat) in
     (97 \<le> n \<and> n \<le> 122) \<or> (65 \<le> n \<and> n \<le> 90) \<or> (48 \<le> n \<and> n \<le> 57))"
  by (simp add: isValid_def in_range_def Let_def)

lemma normalized_code:
  "of_char (normalized c) = (let n = (of_char c :: nat) in
     if 97 \<le> n \<and> n \<le> 122 then n - 32
     else if (65 \<le> n \<and> n \<le> 90) \<or> (48 \<le> n \<and> n \<le> 57) then n else 0)"
  by (auto simp: normalized_def in_range_def Let_def NoShortcut_def of_char_of)

lemma NoShortcut_code [simp]: "of_char NoShortcut = (0::nat)"
  by (simp add: NoShortcut_def)

lemma char_eq_code: "c = d \<longleftrightarrow> (of_char c :: nat) = of_char d"
  by (simp add: of_char_eq_iff)

lemma isValid_normalized_iff [simp]: "isValid (normalized c) \<longleftrightarrow> isValid c"
  by (auto simp: isValid_code normalized_code Let_def)

lemma normalized_idem [simp]: "normalized (normalized c) = normalized c"
  by (auto simp: char_eq_code normalized_code Let_def)

lemma normalized_None_iff: "normalized c = NoShortcut \<longleftrightarrow> \<not> isValid c"
  by (auto simp: char_eq_code normalized_code isValid_code Let_def)

lemma not_isValid_NoShortcut [simp]: "\<not> isValid NoShortcut"
  by (simp add: isValid_code)

lemma not_isValid_marker [simp]: "\<not> isValid shortcutMarker"
  by (simp add: isValid_code shortcutMarker_def)

lemma normalized_NoShortcut [simp]: "normalized NoShortcut = NoShortcut"
  by (simp add: normalized_None_iff)

text \<open>
  The two spellings \<^verbatim>\<open>setShortcut\<close> searches for are exactly the characters that normalise to the
  wanted (normalised) shortcut.
\<close>

lemma lower_upper_normalized:
  assumes "isValid k" "normalized k = k"
  shows "c = c_tolower k \<or> c = c_toupper k \<longleftrightarrow> normalized c = k"
proof -
  let ?n = "of_char k :: nat" and ?m = "of_char c :: nat"
  have k: "(65 \<le> ?n \<and> ?n \<le> 90) \<or> (48 \<le> ?n \<and> ?n \<le> 57)"
    using assms by (auto simp: isValid_code char_eq_code normalized_code Let_def split: if_splits)
  have lo: "of_char (c_tolower k) = (if 65 \<le> ?n \<and> ?n \<le> 90 then ?n + 32 else ?n)"
    using k by (auto simp: c_tolower_def in_range_def of_char_of)
  have up: "of_char (c_toupper k) = ?n"
    using k by (auto simp: c_toupper_def in_range_def of_char_of)
  show ?thesis
    using k unfolding char_eq_code lo up normalized_code Let_def by auto
qed

section \<open>Finding the marker\<close>

text \<open>\<^verbatim>\<open>std::string::find( char, pos )\<close>; \<open>None\<close> is \<^verbatim>\<open>string::npos\<close>.\<close>

function str_find :: "char \<Rightarrow> string \<Rightarrow> nat \<Rightarrow> nat option" where
  "str_find c s pos =
     (if pos < length s then (if s ! pos = c then Some pos else str_find c s (Suc pos)) else None)"
  by pat_completeness auto
termination
  by (relation "measure (\<lambda>(c, s, pos). length s - pos)") auto

declare str_find.simps [simp del]

lemma str_find_bounds: "str_find c s pos = Some p \<Longrightarrow> pos \<le> p \<and> p < length s \<and> s ! p = c"
proof (induction c s pos rule: str_find.induct)
  case (1 c s pos)
  then show ?case
    by (subst (asm) (2) str_find.simps) (auto split: if_splits)
qed

text \<open>
  \<^verbatim>\<open>YShortcut::findShortcutPos\<close>: an escaped marker is skipped, a marker at the very end of the
  string does not count.
\<close>

function findShortcutPos :: "string \<Rightarrow> nat \<Rightarrow> nat option" where
  "findShortcutPos str pos =
     (case str_find shortcutMarker str pos of
        None \<Rightarrow> None
      | Some p \<Rightarrow>
          if p + 1 < length str then
            if str ! (p + 1) = shortcutMarker then findShortcutPos str (p + 2) else Some p
          else None)"
  by pat_completeness auto
termination
  by (relation "measure (\<lambda>(str, pos). length str - pos)") (auto dest!: str_find_bounds)

declare findShortcutPos.simps [simp del]

text \<open>\<^verbatim>\<open>YShortcut::findShortcut\<close>.\<close>

definition findShortcut :: "string \<Rightarrow> nat \<Rightarrow> char" where
  "findShortcut str pos =
     (case findShortcutPos str pos of None \<Rightarrow> NoShortcut | Some p \<Rightarrow> str ! (p + 1))"

lemma findShortcutPos_bounds:
  "findShortcutPos str pos = Some p \<Longrightarrow>
     pos \<le> p \<and> p + 1 < length str \<and> str ! p = shortcutMarker \<and> str ! (p + 1) \<noteq> shortcutMarker"
proof (induction str pos rule: findShortcutPos.induct)
  case (1 str pos)
  show ?case
    using 1 by (subst (asm) (2) findShortcutPos.simps)
      (fastforce split: option.splits if_splits dest: str_find_bounds)
qed

text \<open>
  \<^verbatim>\<open>YShortcut::cleanShortcutString( string )\<close>: erase every marker found, going on at the place of
  the erased one.
\<close>

definition str_erase1 :: "string \<Rightarrow> nat \<Rightarrow> string" where
  "str_erase1 s p = take p s @ drop (Suc p) s"

function cleanShortcutString_loop :: "string \<Rightarrow> nat \<Rightarrow> string" where
  "cleanShortcutString_loop s pos =
     (case findShortcutPos s pos of
        None \<Rightarrow> s
      | Some p \<Rightarrow> cleanShortcutString_loop (str_erase1 s p) p)"
  by pat_completeness auto
termination
  by (relation "measure (\<lambda>(s, pos). length s)")
    (auto dest!: findShortcutPos_bounds simp: str_erase1_def)

declare cleanShortcutString_loop.simps [simp del]

definition cleanShortcutString :: "string \<Rightarrow> string" where
  "cleanShortcutString s = cleanShortcutString_loop s 0"

section \<open>Reference functions\<close>

text \<open>
  The label language: a label is a sequence of tokens, each an ordinary character, an escaped
  marker \<open>&&\<close>, or a marker followed by the character it marks. The reference functions read a
  label token by token.
\<close>

fun marker_pos :: "string \<Rightarrow> nat option" where
  "marker_pos [] = None"
| "marker_pos [c] = None"
| "marker_pos (c # d # s) =
     (if c \<noteq> shortcutMarker then map_option Suc (marker_pos (d # s))
      else if d = shortcutMarker then map_option (\<lambda>n. n + 2) (marker_pos s)
      else Some 0)"

fun unmark :: "string \<Rightarrow> string" where
  "unmark [] = []"
| "unmark [c] = [c]"
| "unmark (c # d # s) =
     (if c \<noteq> shortcutMarker then c # unmark (d # s)
      else if d = shortcutMarker then c # d # unmark s
      else unmark (d # s))"

lemma str_find_append: "str_find c (pre @ t) (length pre + k) = map_option ((+) (length pre)) (str_find c t k)"
proof (induction c t k rule: str_find.induct)
  case (1 c t k)
  then show ?case
    by (subst str_find.simps, subst (2) str_find.simps) (simp add: nth_append)
qed

lemma str_find_0: "str_find c s 0 =
  (case s of [] \<Rightarrow> None | d # r \<Rightarrow> if d = c then Some 0 else map_option Suc (str_find c r 0))"
proof (cases s)
  case Nil
  then show ?thesis by (simp add: str_find.simps)
next
  case (Cons d r)
  have "str_find c (d # r) 1 = map_option Suc (str_find c r 0)"
    using str_find_append[of c "[d]" r 0] by (cases "str_find c r 0") auto
  then show ?thesis
    using Cons by (subst str_find.simps) simp
qed

lemma findShortcutPos_append:
  "findShortcutPos (pre @ t) (length pre + k) = map_option ((+) (length pre)) (findShortcutPos t k)"
proof (induction t k rule: findShortcutPos.induct)
  case (1 t k)
  show ?case
  proof (cases "str_find shortcutMarker t k")
    case None
    then show ?thesis
      by (subst findShortcutPos.simps, subst (2) findShortcutPos.simps) (simp add: str_find_append)
  next
    case (Some p)
    have nth: "(pre @ t) ! (length pre + p + 1) = t ! (p + 1)"
      by (metis add.assoc nth_append_length_plus)
    show ?thesis
      using 1[OF Some] Some nth
      by (subst findShortcutPos.simps, subst (2) findShortcutPos.simps)
        (simp add: str_find_append add.assoc)
  qed
qed

lemma findShortcutPos_shift:
  assumes "length pre = n"
  shows "findShortcutPos (pre @ t) n = map_option ((+) n) (findShortcutPos t 0)"
  using findShortcutPos_append[of pre t 0] assms by simp

lemma findShortcutPos_eq_marker_pos: "findShortcutPos s 0 = marker_pos s"
proof (induction s rule: marker_pos.induct)
  case 1
  then show ?case by (simp add: findShortcutPos.simps str_find_0)
next
  case (2 c)
  then show ?case by (simp add: findShortcutPos.simps str_find_0)
next
  case (3 c d s)
  show ?case
  proof (cases "c = shortcutMarker")
    case True
    have "findShortcutPos (c # d # s) (Suc (Suc 0)) = map_option (\<lambda>n. Suc (Suc n)) (findShortcutPos s 0)"
      using findShortcutPos_shift[of "[c, d]" "Suc (Suc 0)" s] by (cases "findShortcutPos s 0") auto
    moreover have "d = shortcutMarker \<Longrightarrow> findShortcutPos s 0 = marker_pos s"
      using 3(2) True by simp
    ultimately show ?thesis
      using True by (subst findShortcutPos.simps) (auto simp: str_find_0)
  next
    case False
    have "findShortcutPos (c # d # s) 0 = findShortcutPos (c # d # s) 1"
      using False by (subst findShortcutPos.simps, subst (2) findShortcutPos.simps)
        (subst (1) str_find.simps, simp)
    also have "\<dots> = map_option Suc (findShortcutPos (d # s) 0)"
      using findShortcutPos_shift[of "[c]" 1 "d # s"] by (cases "findShortcutPos (d # s) 0") auto
    finally show ?thesis
      using False 3(1) by simp
  qed
qed

lemma clean_loop_cong:
  "findShortcutPos s p = findShortcutPos s q \<Longrightarrow>
     cleanShortcutString_loop s p = cleanShortcutString_loop s q"
  by (subst (1 2) cleanShortcutString_loop.simps) simp

lemma findShortcutPos_skip1:
  assumes "c \<noteq> shortcutMarker"
  shows "findShortcutPos (pre @ c # t) (length pre) = findShortcutPos (pre @ c # t) (Suc (length pre))"
proof -
  have "str_find shortcutMarker (pre @ c # t) (length pre) =
        str_find shortcutMarker (pre @ c # t) (Suc (length pre))"
    using assms by (subst str_find.simps) simp
  then show ?thesis
    by (subst (1 2) findShortcutPos.simps) simp
qed

lemma findShortcutPos_skip2:
  "findShortcutPos (pre @ shortcutMarker # shortcutMarker # t) (length pre) =
   findShortcutPos (pre @ shortcutMarker # shortcutMarker # t) (Suc (Suc (length pre)))"
proof -
  have "str_find shortcutMarker (pre @ shortcutMarker # shortcutMarker # t) (length pre) = Some (length pre)"
    by (subst str_find.simps) simp
  moreover have "(pre @ shortcutMarker # shortcutMarker # t) ! Suc (length pre) = shortcutMarker"
    by (simp add: nth_append)
  ultimately show ?thesis
    by (subst findShortcutPos.simps) simp
qed

lemma clean_loop_append:
  "cleanShortcutString_loop (pre @ t) (length pre) = pre @ unmark t"
proof (induction t arbitrary: pre rule: unmark.induct)
  case 1
  then show ?case
    by (subst cleanShortcutString_loop.simps)
      (simp add: findShortcutPos_shift[of pre "length pre" "[]", simplified] findShortcutPos_eq_marker_pos)
next
  case (2 c)
  then show ?case
    by (subst cleanShortcutString_loop.simps) (simp add: findShortcutPos_shift findShortcutPos_eq_marker_pos)
next
  case (3 c d s)
  consider (plain) "c \<noteq> shortcutMarker" | (esc) "c = shortcutMarker" "d = shortcutMarker"
    | (mark) "c = shortcutMarker" "d \<noteq> shortcutMarker" by blast
  then show ?case
  proof cases
    case plain
    have "cleanShortcutString_loop (pre @ c # d # s) (length pre) =
          cleanShortcutString_loop ((pre @ [c]) @ d # s) (length (pre @ [c]))"
      by (simp, rule clean_loop_cong, rule findShortcutPos_skip1[OF plain])
    also have "\<dots> = (pre @ [c]) @ unmark (d # s)"
      by (rule 3(1)[OF plain])
    finally show ?thesis using plain by simp
  next
    case esc
    have "cleanShortcutString_loop (pre @ c # d # s) (length pre) =
          cleanShortcutString_loop ((pre @ [c, d]) @ s) (length (pre @ [c, d]))"
      unfolding esc by (simp, rule clean_loop_cong, rule findShortcutPos_skip2)
    also have "\<dots> = (pre @ [c, d]) @ unmark s"
      using 3(2)[of "pre @ [c, d]"] esc by blast
    finally show ?thesis using esc by simp
  next
    case mark
    have "findShortcutPos (pre @ c # d # s) (length pre) = Some (length pre)"
      using mark by (simp add: findShortcutPos_shift findShortcutPos_eq_marker_pos)
    then have "cleanShortcutString_loop (pre @ c # d # s) (length pre) =
          cleanShortcutString_loop (pre @ d # s) (length pre)"
      by (subst cleanShortcutString_loop.simps) (simp add: str_erase1_def)
    also have "\<dots> = pre @ unmark (d # s)"
      using 3(3)[of pre] mark by blast
    finally show ?thesis using mark by simp
  qed
qed

lemma cleanShortcutString_eq_unmark: "cleanShortcutString s = unmark s"
  using clean_loop_append[of "[]" s] by (simp add: cleanShortcutString_def)

section \<open>Properties of clean labels\<close>

lemma marker_pos_unmark: "marker_pos (unmark s) = None"
proof (induction s rule: unmark.induct)
  case (3 c d s)
  show ?case
  proof (cases "c = shortcutMarker")
    case False
    then show ?thesis
      using 3(1) by (cases "unmark (d # s)") auto
  next
    case True
    then show ?thesis
      using 3(2,3) by auto
  qed
qed simp_all

lemma unmark_id: "marker_pos s = None \<Longrightarrow> unmark s = s"
  by (induction s rule: unmark.induct) (auto split: if_splits)

lemma unmark_idem: "unmark (unmark s) = unmark s"
  by (rule unmark_id[OF marker_pos_unmark])

lemma set_unmark: "set (unmark s) \<subseteq> set s"
  by (induction s rule: unmark.induct) auto

lemma length_unmark: "length (unmark s) \<le> length s"
  by (induction s rule: unmark.induct) auto

text \<open>
  Inserting one marker before an ordinary character of a marker-free label: that marker is the
  one found, and removing the markers restores the label.
\<close>

lemma insert_marker:
  assumes "marker_pos s = None" "p < length s" "s ! p \<noteq> shortcutMarker"
  shows "marker_pos (take p s @ shortcutMarker # drop p s) = Some p
       \<and> unmark (take p s @ shortcutMarker # drop p s) = s"
  using assms
proof (induction s arbitrary: p rule: marker_pos.induct)
  case 1
  then show ?case by simp
next
  case (2 c)
  then show ?case by simp
next
  case (3 c d s)
  show ?case
  proof (cases "c = shortcutMarker")
    case False
    then have none: "marker_pos (d # s) = None" using 3(3) by simp
    show ?thesis
    proof (cases p)
      case 0
      then show ?thesis using False unmark_id[OF 3(3)] by simp
    next
      case (Suc q)
      with 3(4,5) have q: "q < length (d # s)" "(d # s) ! q \<noteq> shortcutMarker" by auto
      obtain e r where er: "take q (d # s) @ shortcutMarker # drop q (d # s) = e # r"
        by (cases "take q (d # s)") auto
      from 3(1)[OF False none q] have "marker_pos (e # r) = Some q" "unmark (e # r) = d # s"
        unfolding er by auto
      then show ?thesis
        using er False Suc by simp
    qed
  next
    case True
    then have d: "d = shortcutMarker" and none: "marker_pos s = None"
      using 3(3) by (auto split: if_splits)
    have p2: "2 \<le> p"
    proof (rule ccontr)
      assume "\<not> 2 \<le> p"
      then have "p = 0 \<or> p = 1" by arith
      then show False using 3(5) True d by auto
    qed
    then obtain q where q: "p = Suc (Suc q)"
      using le_Suc_ex[OF p2] by auto
    have c1: "\<not> c \<noteq> shortcutMarker" using True by simp
    have "q < length s" "s ! q \<noteq> shortcutMarker" using 3(4,5) q by auto
    from 3(2)[OF c1 d none this] show ?thesis
      using True d q by simp
  qed
qed

section \<open>Setting a marker in a label\<close>

text \<open>\<^verbatim>\<open>std::string::find_first_of\<close> over a set of characters, and \<^verbatim>\<open>std::string::insert\<close>.\<close>

fun find_first_of :: "string \<Rightarrow> char list \<Rightarrow> nat option" where
  "find_first_of [] cs = None"
| "find_first_of (c # s) cs = (if c \<in> set cs then Some 0 else map_option Suc (find_first_of s cs))"

definition str_insert_char :: "string \<Rightarrow> nat \<Rightarrow> char \<Rightarrow> string" where
  "str_insert_char s p c = take p s @ c # drop p s"

lemma find_first_of_Some:
  "find_first_of s cs = Some p \<Longrightarrow> p < length s \<and> s ! p \<in> set cs"
  by (induction s arbitrary: p) (auto split: if_splits)

lemma find_first_of_None: "find_first_of s cs = None \<longleftrightarrow> set s \<inter> set cs = {}"
  by (induction s) auto

text \<open>
  An object that owns a label with an optional marker: a widget with its shortcut property, an
  item with its label. The contract is that reading the label gives back what was written.
\<close>

locale label_owner =
  fixes getl :: "'a \<Rightarrow> string"
    and setl :: "string \<Rightarrow> 'a \<Rightarrow> 'a"
  assumes getl_setl: "getl (setl s x) = s"
begin

text \<open>
  Writing the cleaned label with one marker before position \<open>p\<close> makes the character at \<open>p\<close> the
  shortcut and keeps the cleaned label; writing the cleaned label alone leaves no shortcut.
\<close>

lemma getl_marked:
  assumes "p < length (unmark (getl x))" "isValid (unmark (getl x) ! p)"
  defines "y \<equiv> setl (str_insert_char (unmark (getl x)) p shortcutMarker) x"
  shows "findShortcut (getl y) 0 = unmark (getl x) ! p"
    and "unmark (getl y) = unmark (getl x)"
proof -
  let ?c = "unmark (getl x)"
  have "?c ! p \<noteq> shortcutMarker"
    using assms(2) by auto
  note ins = insert_marker[OF marker_pos_unmark assms(1) this]
  have nth: "(take p ?c @ shortcutMarker # drop p ?c) ! Suc p = ?c ! p"
    using assms(1) by (simp add: nth_append)
  show "unmark (getl y) = ?c"
    using ins by (simp add: y_def getl_setl str_insert_char_def)
  show "findShortcut (getl y) 0 = ?c ! p"
    using ins nth by (simp add: y_def getl_setl str_insert_char_def findShortcut_def
        findShortcutPos_eq_marker_pos)
qed

lemma getl_unmarked:
  fixes x
  defines "y \<equiv> setl (unmark (getl x)) x"
  shows "findShortcut (getl y) 0 = NoShortcut" and "unmark (getl y) = unmark (getl x)"
  by (simp_all add: y_def getl_setl findShortcut_def findShortcutPos_eq_marker_pos
      marker_pos_unmark unmark_idem)

end

section \<open>The YShortcut object\<close>

text \<open>
  The data members of \<^verbatim>\<open>YShortcut\<close> and \<^verbatim>\<open>YItemShortcut\<close>. \<open>sc_label\<close> is the string the shortcut is
  about: the widget's shortcut property, or the label of the item for a \<^verbatim>\<open>YItemShortcut\<close>; no two
  shortcuts of a dialog share one. \<open>sc_autoShortcut\<close> is the widget's \<^verbatim>\<open>autoShortcut()\<close> flag, and the
  integer caches hold \<open>-1\<close> when not initialised.
\<close>

record YShortcut =
  sc_target :: nat
  sc_label :: string
  sc_autoShortcut :: bool
  sc_isButton :: bool
  sc_isWizardButton :: bool
  sc_isMenuItem :: bool
  sc_shortcutString :: string
  sc_shortcutStringCached :: bool
  sc_cleanShortcutString :: string
  sc_preferred :: int
  sc_shortcut :: int
  sc_distinctShortcutChars :: int
  sc_conflict :: bool

text \<open>The constructors: nothing is cached yet.\<close>

definition new_YShortcut :: "nat \<Rightarrow> string \<Rightarrow> bool \<Rightarrow> bool \<Rightarrow> bool \<Rightarrow> bool \<Rightarrow> YShortcut" where
  "new_YShortcut target label auto button wizard menu =
     \<lparr>sc_target = target, sc_label = label, sc_autoShortcut = auto,
      sc_isButton = button, sc_isWizardButton = button \<and> wizard, sc_isMenuItem = menu,
      sc_shortcutString = [], sc_shortcutStringCached = False, sc_cleanShortcutString = [],
      sc_preferred = -1, sc_shortcut = -1, sc_distinctShortcutChars = -1, sc_conflict = False\<rparr>"

definition shortcutString :: "YShortcut \<Rightarrow> string \<times> YShortcut" where
  "shortcutString s =
     (if \<not> sc_shortcutStringCached s
      then (sc_label s, s\<lparr>sc_shortcutString := sc_label s, sc_shortcutStringCached := True\<rparr>)
      else (sc_shortcutString s, s))"

text \<open>The cleaned string is recomputed on every call: its cache flag is never set.\<close>

definition cleanString :: "YShortcut \<Rightarrow> string \<times> YShortcut" where
  "cleanString s =
     (let (str, s1) = shortcutString s; clean = cleanShortcutString str
      in (clean, s1\<lparr>sc_cleanShortcutString := clean\<rparr>))"

definition code_of :: "char \<Rightarrow> int" where
  "code_of c = int (of_char c)"

definition char_at_code :: "int \<Rightarrow> char" where
  "char_at_code n = char_of (nat n)"

definition preferred :: "YShortcut \<Rightarrow> char \<times> YShortcut" where
  "preferred s =
     (if sc_preferred s < 0
      then (let (str, s1) = shortcutString s; c = normalized (findShortcut str 0)
            in (c, s1\<lparr>sc_preferred := code_of c\<rparr>))
      else (char_at_code (sc_preferred s), s))"

definition shortcut :: "YShortcut \<Rightarrow> char \<times> YShortcut" where
  "shortcut s =
     (if sc_shortcut s < 0
      then (let (c, s1) = preferred s in (c, s1\<lparr>sc_shortcut := code_of c\<rparr>))
      else (char_at_code (sc_shortcut s), s))"

definition setShortcut :: "char \<Rightarrow> YShortcut \<Rightarrow> YShortcut" where
  "setShortcut newShortcut s =
     (let (str, s1) = cleanString s;
          store = (\<lambda>str'. s1\<lparr>sc_label := str', sc_shortcutStringCached := False,
                             sc_shortcut := code_of newShortcut\<rparr>)
      in if newShortcut \<noteq> NoShortcut
         then (case find_first_of str [c_tolower newShortcut, c_toupper newShortcut] of
                 None \<Rightarrow> s1
               | Some pos \<Rightarrow> store (str_insert_char str pos shortcutMarker))
         else store str)"

definition clearShortcut :: "YShortcut \<Rightarrow> YShortcut" where
  "clearShortcut s = setShortcut NoShortcut s"

definition setConflict :: "bool \<Rightarrow> YShortcut \<Rightarrow> YShortcut" where
  "setConflict b s = s\<lparr>sc_conflict := b\<rparr>"

text \<open>The \<open>contained\<close> array of \<^verbatim>\<open>distinctShortcutChars\<close>, and its count.\<close>

fun mark_contained :: "string \<Rightarrow> (nat \<Rightarrow> bool) \<Rightarrow> (nat \<Rightarrow> bool)" where
  "mark_contained [] a = a"
| "mark_contained (c # s) a = mark_contained s (if isValid c then a(of_char c := True) else a)"

definition count_contained :: "string \<Rightarrow> int" where
  "count_contained clean = int (length (filter (mark_contained clean (\<lambda>_. False)) [0..<256]))"

definition distinctShortcutChars :: "YShortcut \<Rightarrow> int \<times> YShortcut" where
  "distinctShortcutChars s =
     (if sc_distinctShortcutChars s < 0
      then (let (clean, s1) = cleanString s; n = count_contained clean
            in (n, s1\<lparr>sc_distinctShortcutChars := n\<rparr>))
      else (sc_distinctShortcutChars s, s))"

definition hasValidShortcutChar :: "YShortcut \<Rightarrow> bool \<times> YShortcut" where
  "hasValidShortcutChar s = (let (clean, s1) = cleanString s in (list_ex isValid clean, s1))"

section \<open>Cache transparency\<close>

text \<open>
  What the accessors return, as functions of the label alone. \<open>pref_view\<close> stays fixed once it has
  been asked for, as the code intends: it is the shortcut before any reassignment.
\<close>

definition label_shortcut :: "string \<Rightarrow> char" where
  "label_shortcut l = normalized (findShortcut l 0)"

definition pref_view :: "YShortcut \<Rightarrow> char" where
  "pref_view s =
     (if sc_preferred s < 0 then label_shortcut (sc_label s) else char_at_code (sc_preferred s))"

definition clean_view :: "YShortcut \<Rightarrow> string" where
  "clean_view s = unmark (sc_label s)"

definition shortcut_view :: "YShortcut \<Rightarrow> char" where
  "shortcut_view s = (if sc_shortcut s < 0 then pref_view s else char_at_code (sc_shortcut s))"

text \<open>The invariant of the object: every cache that is set holds what it caches.\<close>

definition sc_inv :: "YShortcut \<Rightarrow> bool" where
  "sc_inv s \<longleftrightarrow>
     (sc_shortcutStringCached s \<longrightarrow> sc_shortcutString s = sc_label s)
   \<and> (0 \<le> sc_distinctShortcutChars s \<longrightarrow>
        sc_distinctShortcutChars s = count_contained (unmark (sc_label s)))
   \<and> (normalized (pref_view s) = pref_view s)"

lemma char_at_code_of [simp]: "char_at_code (code_of c) = c"
  by (simp add: char_at_code_def code_of_def)

lemma code_of_nonneg [simp]: "0 \<le> code_of c" "\<not> code_of c < 0"
  by (simp_all add: code_of_def)

lemma label_shortcut_normalized [simp]: "normalized (label_shortcut l) = label_shortcut l"
  by (simp add: label_shortcut_def)

lemmas sc_views = pref_view_def clean_view_def shortcut_view_def sc_inv_def

lemmas sc_ops = shortcutString_def cleanString_def preferred_def shortcut_def
  distinctShortcutChars_def hasValidShortcutChar_def setConflict_def

text \<open>
  \<open>same_sc\<close>: the two states of the object differ in their caches only.
\<close>

definition same_sc :: "YShortcut \<Rightarrow> YShortcut \<Rightarrow> bool" where
  "same_sc s t \<longleftrightarrow> sc_target s = sc_target t \<and> sc_label s = sc_label t
     \<and> sc_autoShortcut s = sc_autoShortcut t \<and> sc_isButton s = sc_isButton t
     \<and> sc_isWizardButton s = sc_isWizardButton t \<and> sc_isMenuItem s = sc_isMenuItem t
     \<and> pref_view s = pref_view t \<and> shortcut_view s = shortcut_view t
     \<and> sc_conflict s = sc_conflict t"

lemma same_sc_refl [simp]: "same_sc s s"
  by (simp add: same_sc_def)

lemma same_sc_sym: "same_sc s t \<Longrightarrow> same_sc t s"
  by (simp add: same_sc_def)

lemma same_sc_trans [trans]: "same_sc s t \<Longrightarrow> same_sc t u \<Longrightarrow> same_sc s u"
  by (simp add: same_sc_def)

lemma new_YShortcut_inv: "sc_inv (new_YShortcut t l a b w m)"
  by (simp add: new_YShortcut_def sc_views)

text \<open>Writing a cache field leaves the views alone.\<close>

lemma cache_updates [simp]:
  "same_sc (s\<lparr>sc_shortcutString := l, sc_shortcutStringCached := b\<rparr>) s"
  "same_sc (s\<lparr>sc_cleanShortcutString := l\<rparr>) s"
  "same_sc (s\<lparr>sc_distinctShortcutChars := n\<rparr>) s"
  "same_sc (s\<lparr>sc_preferred := code_of (pref_view s)\<rparr>) s"
  "same_sc (s\<lparr>sc_shortcut := code_of (shortcut_view s)\<rparr>) s"
  by (simp_all add: same_sc_def pref_view_def shortcut_view_def)

lemma cache_updates_inv [simp]:
  "sc_inv s \<Longrightarrow> sc_inv (s\<lparr>sc_shortcutString := sc_label s, sc_shortcutStringCached := True\<rparr>)"
  "sc_inv (s\<lparr>sc_cleanShortcutString := l\<rparr>) = sc_inv s"
  "sc_inv s \<Longrightarrow> sc_inv (s\<lparr>sc_distinctShortcutChars := count_contained (clean_view s)\<rparr>)"
  "sc_inv s \<Longrightarrow> sc_inv (s\<lparr>sc_preferred := code_of (pref_view s)\<rparr>)"
  "sc_inv (s\<lparr>sc_shortcut := n\<rparr>) = sc_inv s"
  by (simp_all add: sc_inv_def pref_view_def clean_view_def split: if_split_asm)

lemma same_sc_views:
  assumes "same_sc s t"
  shows "sc_label s = sc_label t" "pref_view s = pref_view t" "clean_view s = clean_view t"
    "shortcut_view s = shortcut_view t" "sc_conflict s = sc_conflict t" "sc_target s = sc_target t"
    "sc_isButton s = sc_isButton t" "sc_isWizardButton s = sc_isWizardButton t"
    "sc_isMenuItem s = sc_isMenuItem t"
  using assms by (simp_all add: same_sc_def clean_view_def)

lemma shortcutString_ok:
  assumes "sc_inv s"
  shows "fst (shortcutString s) = sc_label s" "sc_inv (snd (shortcutString s))"
    "same_sc (snd (shortcutString s)) s"
proof -
  show "fst (shortcutString s) = sc_label s"
    using assms by (simp add: shortcutString_def sc_inv_def)
qed (simp_all add: shortcutString_def assms)

lemma cleanString_ok:
  assumes "sc_inv s"
  shows "fst (cleanString s) = clean_view s" "sc_inv (snd (cleanString s))"
    "same_sc (snd (cleanString s)) s"
  using shortcutString_ok[OF assms] same_sc_trans[OF cache_updates(2)]
  by (simp_all add: cleanString_def cleanShortcutString_eq_unmark clean_view_def split_beta Let_def)

lemma preferred_ok:
  assumes "sc_inv s"
  shows "fst (preferred s) = pref_view s" "sc_inv (snd (preferred s))"
    "same_sc (snd (preferred s)) s"
proof -
  let ?t = "snd (shortcutString s)"
  note ss = shortcutString_ok[OF assms]
  have p: "sc_preferred s < 0 \<Longrightarrow> normalized (findShortcut (sc_label s) 0) = pref_view ?t"
    using same_sc_views(2)[OF ss(3)] by (simp add: pref_view_def label_shortcut_def)
  show "fst (preferred s) = pref_view s"
    by (simp add: preferred_def split_beta Let_def ss(1)) (simp add: pref_view_def label_shortcut_def)
  show "sc_inv (snd (preferred s))"
    using ss assms p by (simp add: preferred_def split_beta Let_def)
  show "same_sc (snd (preferred s)) s"
    using ss(1) p same_sc_trans[OF cache_updates(4) ss(3)] by (simp add: preferred_def split_beta Let_def)
qed

lemma shortcut_ok:
  assumes "sc_inv s"
  shows "fst (shortcut s) = shortcut_view s" "sc_inv (snd (shortcut s))"
    "same_sc (snd (shortcut s)) s"
proof -
  let ?t = "snd (preferred s)"
  note pr = preferred_ok[OF assms]
  have p: "sc_shortcut s < 0 \<Longrightarrow> pref_view s = shortcut_view ?t"
    using same_sc_views(4)[OF pr(3)] by (simp add: shortcut_view_def)
  show "fst (shortcut s) = shortcut_view s"
    by (simp add: shortcut_def split_beta Let_def pr(1)) (simp add: shortcut_view_def)
  show "sc_inv (snd (shortcut s))"
    using pr assms by (simp add: shortcut_def split_beta Let_def)
  show "same_sc (snd (shortcut s)) s"
    using pr(1) p same_sc_trans[OF cache_updates(5) pr(3)] by (simp add: shortcut_def split_beta Let_def)
qed

lemma distinctShortcutChars_ok:
  assumes "sc_inv s"
  shows "fst (distinctShortcutChars s) = count_contained (clean_view s)"
    "sc_inv (snd (distinctShortcutChars s))" "same_sc (snd (distinctShortcutChars s)) s"
proof -
  note cs = cleanString_ok[OF assms]
  have c: "clean_view s = clean_view (snd (cleanString s))"
    using same_sc_views(3)[OF cs(3)] by simp
  show "fst (distinctShortcutChars s) = count_contained (clean_view s)"
    using assms by (simp add: distinctShortcutChars_def split_beta Let_def cs(1))
      (simp add: sc_inv_def clean_view_def)
  show "sc_inv (snd (distinctShortcutChars s))"
    using cs(2) assms by (simp add: distinctShortcutChars_def split_beta Let_def cs(1) c)
  show "same_sc (snd (distinctShortcutChars s)) s"
    using same_sc_trans[OF cache_updates(3) cs(3)] by (simp add: distinctShortcutChars_def split_beta Let_def)
qed

lemma hasValidShortcutChar_ok:
  assumes "sc_inv s"
  shows "fst (hasValidShortcutChar s) = list_ex isValid (clean_view s)"
    "sc_inv (snd (hasValidShortcutChar s))" "same_sc (snd (hasValidShortcutChar s)) s"
  using cleanString_ok[OF assms] by (simp_all add: hasValidShortcutChar_def split_beta Let_def)

lemma setConflict_ok [simp]:
  "sc_inv (setConflict b s) = sc_inv s" "sc_label (setConflict b s) = sc_label s"
  "pref_view (setConflict b s) = pref_view s" "clean_view (setConflict b s) = clean_view s"
  "shortcut_view (setConflict b s) = shortcut_view s" "sc_conflict (setConflict b s) = b"
  "sc_target (setConflict b s) = sc_target s"
  by (simp_all add: setConflict_def sc_views)

text \<open>The label of a shortcut is a label owner.\<close>

interpretation sc: label_owner sc_label "\<lambda>l s. s\<lparr>sc_label := l\<rparr>"
  by unfold_locales simp

lemma find_spelling:
  assumes "isValid k" "normalized k = k"
  shows "find_first_of str [c_tolower k, c_toupper k] = None \<longleftrightarrow> (\<forall>c\<in>set str. normalized c \<noteq> k)"
    and "find_first_of str [c_tolower k, c_toupper k] = Some p \<Longrightarrow>
      p < length str \<and> normalized (str ! p) = k"
proof -
  note spell = lower_upper_normalized[OF assms]
  show "find_first_of str [c_tolower k, c_toupper k] = None \<longleftrightarrow> (\<forall>c\<in>set str. normalized c \<noteq> k)"
    by (simp add: find_first_of_None disjoint_iff spell[symmetric] del: disj_not1) blast
  assume "find_first_of str [c_tolower k, c_toupper k] = Some p"
  from find_first_of_Some[OF this] show "p < length str \<and> normalized (str ! p) = k"
    using spell[of "str ! p"] by auto
qed

section \<open>Setting and clearing a shortcut\<close>

text \<open>The preferred shortcut has been asked for, so its value no longer follows the label.\<close>

definition pref_known :: "YShortcut \<Rightarrow> bool" where
  "pref_known s \<longleftrightarrow> 0 \<le> sc_preferred s"

lemma sc_preferred_ops [simp]:
  "sc_preferred (snd (shortcutString s)) = sc_preferred s"
  "sc_preferred (snd (cleanString s)) = sc_preferred s"
  "sc_preferred (snd (distinctShortcutChars s)) = sc_preferred s"
  "sc_preferred (snd (hasValidShortcutChar s)) = sc_preferred s"
  by (simp_all add: shortcutString_def cleanString_def distinctShortcutChars_def
      hasValidShortcutChar_def Let_def split_beta)

lemma pref_known_preferred [simp]: "pref_known (snd (preferred s))"
  by (simp add: preferred_def pref_known_def Let_def split_beta)

lemma pref_known_ops [simp]:
  "pref_known (snd (distinctShortcutChars s)) = pref_known s"
  "pref_known (snd (cleanString s)) = pref_known s"
  "pref_known (setConflict b s) = pref_known s"
  by (simp_all add: pref_known_def setConflict_def)

lemma pref_view_label_update:
  "pref_known s \<Longrightarrow> pref_view (s\<lparr>sc_label := l, sc_shortcutStringCached := b, sc_shortcut := n\<rparr>) = pref_view s"
  by (simp add: pref_known_def pref_view_def)

lemma relabel_inv:
  assumes "sc_inv s" "pref_known s" "unmark l = clean_view s"
  shows "sc_inv (s\<lparr>sc_label := l, sc_shortcutStringCached := False, sc_shortcut := n\<rparr>)"
  using assms by (simp add: sc_inv_def pref_known_def pref_view_def clean_view_def split: if_split_asm)

text \<open>What \<^verbatim>\<open>setShortcut\<close> promises when one of the spellings of the character is in the label.\<close>

lemma setShortcut_ok:
  assumes "sc_inv s" "pref_known s" "isValid k" "normalized k = k" "k \<in> normalized ` set (clean_view s)"
  shows "sc_inv (setShortcut k s)" "label_shortcut (sc_label (setShortcut k s)) = k"
    "clean_view (setShortcut k s) = clean_view s" "pref_view (setShortcut k s) = pref_view s"
    "shortcut_view (setShortcut k s) = k" "pref_known (setShortcut k s)"
    "sc_target (setShortcut k s) = sc_target s" "sc_conflict (setShortcut k s) = sc_conflict s"
proof -
  note cs = cleanString_ok[OF assms(1)]
  let ?t = "snd (cleanString s)" and ?c = "clean_view s"
  obtain p where p: "find_first_of ?c [c_tolower k, c_toupper k] = Some p"
    using find_spelling(1)[OF assms(3,4), of ?c] assms(5) by fastforce
  note pp = find_spelling(2)[OF assms(3,4) p]
  have k0: "k \<noteq> NoShortcut" using assms(3) by auto
  have val: "isValid (?c ! p)" using pp assms(3) by (metis isValid_normalized_iff)
  let ?l = "str_insert_char ?c p shortcutMarker"
  have set: "setShortcut k s = ?t\<lparr>sc_label := ?l, sc_shortcutStringCached := False, sc_shortcut := code_of k\<rparr>"
    using p k0 by (simp add: setShortcut_def split_beta Let_def cs(1))
  have lab: "unmark (sc_label s) = ?c" by (simp add: clean_view_def)
  have ml: "label_shortcut ?l = k" "unmark ?l = ?c"
    using sc.getl_marked[of p s] pp val lab by (simp_all add: label_shortcut_def)
  have vt: "clean_view ?t = ?c" "pref_view ?t = pref_view s" "sc_target ?t = sc_target s"
    "sc_conflict ?t = sc_conflict s"
    using same_sc_views[OF cs(3)] by simp_all
  have known: "pref_known ?t" using assms(2) by simp
  show "sc_inv (setShortcut k s)"
    unfolding set using cs(2) known ml(2) vt(1) by (intro relabel_inv) simp_all
  show "label_shortcut (sc_label (setShortcut k s)) = k"
    "clean_view (setShortcut k s) = clean_view s" "shortcut_view (setShortcut k s) = k"
    "sc_target (setShortcut k s) = sc_target s" "sc_conflict (setShortcut k s) = sc_conflict s"
    using ml vt by (simp_all add: set clean_view_def shortcut_view_def)
  show "pref_view (setShortcut k s) = pref_view s"
    unfolding set using pref_view_label_update[OF known] vt(2) by simp
  show "pref_known (setShortcut k s)"
    unfolding set using known by (simp add: pref_known_def)
qed

lemma clearShortcut_ok:
  assumes "sc_inv s" "pref_known s"
  shows "sc_inv (clearShortcut s)" "label_shortcut (sc_label (clearShortcut s)) = NoShortcut"
    "clean_view (clearShortcut s) = clean_view s" "pref_view (clearShortcut s) = pref_view s"
    "shortcut_view (clearShortcut s) = NoShortcut" "pref_known (clearShortcut s)"
    "sc_target (clearShortcut s) = sc_target s" "sc_conflict (clearShortcut s) = sc_conflict s"
proof -
  note cs = cleanString_ok[OF assms(1)]
  let ?t = "snd (cleanString s)" and ?c = "clean_view s"
  have set: "clearShortcut s = ?t\<lparr>sc_label := ?c, sc_shortcutStringCached := False,
      sc_shortcut := code_of NoShortcut\<rparr>"
    by (simp add: clearShortcut_def setShortcut_def split_beta Let_def cs(1))
  have ml: "label_shortcut ?c = NoShortcut" "unmark ?c = ?c"
    using sc.getl_unmarked[of s] by (simp_all add: label_shortcut_def clean_view_def)
  have vt: "clean_view ?t = ?c" "pref_view ?t = pref_view s" "sc_target ?t = sc_target s"
    "sc_conflict ?t = sc_conflict s"
    using same_sc_views[OF cs(3)] by simp_all
  have known: "pref_known ?t" using assms(2) by simp
  show "sc_inv (clearShortcut s)"
    unfolding set using cs(2) known ml(2) vt(1) by (intro relabel_inv) simp_all
  show "label_shortcut (sc_label (clearShortcut s)) = NoShortcut"
    "clean_view (clearShortcut s) = clean_view s" "shortcut_view (clearShortcut s) = NoShortcut"
    "sc_target (clearShortcut s) = sc_target s" "sc_conflict (clearShortcut s) = sc_conflict s"
    using ml vt by (simp_all add: set clean_view_def shortcut_view_def)
  show "pref_view (clearShortcut s) = pref_view s"
    unfolding set using pref_view_label_update[OF known] vt(2) by simp
  show "pref_known (clearShortcut s)"
    unfolding set using known by (simp add: pref_known_def)
qed

text \<open>\<open>count_contained\<close> counts the distinct valid characters of the string.\<close>

lemma mark_contained_iff:
  "mark_contained s a n \<longleftrightarrow> a n \<or> (\<exists>c\<in>set s. isValid c \<and> of_char c = n)"
  by (induction s arbitrary: a) auto

lemma count_contained_card:
  "count_contained s = int (card {c \<in> set s. isValid c})"
proof -
  let ?f = "\<lambda>c::char. of_char c :: nat" and ?V = "{c \<in> set s. isValid c}"
  have "{n \<in> set [0..<256]. mark_contained s (\<lambda>_. False) n} = ?f ` ?V"
    by (auto simp: mark_contained_iff isValid_code Let_def)
  moreover have "length (filter (mark_contained s (\<lambda>_. False)) [0..<256]) =
      card {n \<in> set [0..<256]. mark_contained s (\<lambda>_. False) n}"
    by (subst distinct_card[symmetric]) (simp_all del: set_upt add: set_filter)
  moreover have "inj_on ?f ?V"
    by (rule inj_onI) (simp add: of_char_eq_iff)
  ultimately show ?thesis
    by (simp add: count_contained_def card_image)
qed

section \<open>Properties of labels and shortcuts\<close>

text \<open>
  C22: The scanning loops of \<^verbatim>\<open>findShortcutPos\<close> and \<^verbatim>\<open>cleanShortcutString\<close> read a label token by
  token: the position found is that of the first marker that is neither escaped nor the last
  character, and cleaning removes exactly the markers, keeping every escaped \<open>&&\<close>. Cleaning
  once is enough, and a cleaned label has no shortcut.
\<close>

theorem cleanShortcutString_reference:
  "findShortcutPos s 0 = marker_pos s \<and> cleanShortcutString s = unmark s
   \<and> cleanShortcutString (cleanShortcutString s) = cleanShortcutString s
   \<and> findShortcut (cleanShortcutString s) 0 = NoShortcut"
  by (simp add: findShortcutPos_eq_marker_pos cleanShortcutString_eq_unmark unmark_idem
      findShortcut_def marker_pos_unmark)

text \<open>
  C23: Setting a shortcut that the label spells in either case makes it the shortcut of the label:
  reading the label gives it back, the object reports it, the preferred shortcut and the cleaned
  label stay, and the caches stay consistent.
\<close>

theorem setShortcut_round_trip:
  assumes "sc_inv s" "pref_known s" "isValid k" "normalized k = k"
    and "k \<in> normalized ` set (cleanShortcutString (sc_label s))"
  defines "t \<equiv> setShortcut k s"
  shows "normalized (findShortcut (sc_label t) 0) = k \<and> fst (shortcut t) = k
     \<and> fst (preferred t) = fst (preferred s)
     \<and> cleanShortcutString (sc_label t) = cleanShortcutString (sc_label s) \<and> sc_inv t"
proof -
  have "k \<in> normalized ` set (clean_view s)"
    using assms(5) by (simp add: clean_view_def cleanShortcutString_eq_unmark)
  note ok = setShortcut_ok[OF assms(1-4) this, folded t_def]
  show ?thesis
    using ok(1-5) shortcut_ok(1)[OF ok(1)] preferred_ok(1)[OF ok(1)] preferred_ok(1)[OF assms(1)]
    by (simp add: label_shortcut_def clean_view_def cleanShortcutString_eq_unmark)
qed

theorem setShortcut_round_trip_witness:
  "normalized (findShortcut (sc_label (setShortcut CHR ''P''
      (snd (preferred (new_YShortcut 7 ''&Open'' False True False False))))) 0) = CHR ''P''"
proof -
  let ?n = "new_YShortcut 7 ''&Open'' False True False False"
  note n = preferred_ok[OF new_YShortcut_inv[of 7 "''&Open''" False True False False]]
  have l: "sc_label (snd (preferred ?n)) = ''&Open''"
    using same_sc_views(1)[OF n(3)] by (simp add: new_YShortcut_def)
  have "CHR ''P'' \<in> normalized ` set (cleanShortcutString (sc_label (snd (preferred ?n))))"
    unfolding l by (simp add: cleanShortcutString_eq_unmark shortcutMarker_def)
      (simp add: char_eq_code normalized_code)
  moreover have "isValid CHR ''P''" "normalized CHR ''P'' = CHR ''P''"
    by (simp_all add: isValid_def normalized_def in_range_def)
  ultimately show ?thesis
    using setShortcut_round_trip[OF n(2) pref_known_preferred] by blast
qed

text \<open>
  \<^verbatim>\<open>distinctShortcutChars\<close> returns the number of different characters of the cleaned label that
  are valid shortcuts, telling upper from lower case, whether or not the value is cached, and
  reading it changes no other answer of the object.
\<close>

theorem distinctShortcutChars_counts:
  assumes "sc_inv s"
  defines "r \<equiv> distinctShortcutChars s"
  shows "fst r = int (card {c \<in> set (cleanShortcutString (sc_label s)). isValid c})
     \<and> distinctShortcutChars (snd r) = (fst r, snd r)
     \<and> fst (preferred (snd r)) = fst (preferred s) \<and> fst (shortcut (snd r)) = fst (shortcut s)"
proof -
  note d = distinctShortcutChars_ok[OF assms(1), folded r_def]
  have "0 \<le> sc_distinctShortcutChars (snd r) \<and> sc_distinctShortcutChars (snd r) = fst r"
    by (auto simp: r_def distinctShortcutChars_def split_beta Let_def count_contained_def)
  then have "distinctShortcutChars (snd r) = (fst r, snd r)"
    by (simp add: distinctShortcutChars_def)
  moreover have "fst r = int (card {c \<in> set (cleanShortcutString (sc_label s)). isValid c})"
    using d(1) by (simp add: count_contained_card clean_view_def cleanShortcutString_eq_unmark)
  ultimately show ?thesis
    using same_sc_views[OF d(3)] preferred_ok(1)[OF d(2)] preferred_ok(1)[OF assms(1)]
      shortcut_ok(1)[OF d(2)] shortcut_ok(1)[OF assms(1)] by simp
qed

theorem distinctShortcutChars_counts_witness:
  "fst (distinctShortcutChars (new_YShortcut 7 ''&Aa'' False True False False)) = 2"
proof -
  have "{c \<in> set (cleanShortcutString ''&Aa''). isValid c} = {CHR ''A'', CHR ''a''}"
    by (auto simp: cleanShortcutString_eq_unmark shortcutMarker_def isValid_def in_range_def)
  then show ?thesis
    using distinctShortcutChars_counts[OF new_YShortcut_inv[of 7 "''&Aa''" False True False False]]
    by (simp add: new_YShortcut_def)
qed

end
