(* ===== verification/Yui_Item.thy ===== *)
theory Yui_Item
  imports Yui_Prelude
begin

text \<open>
  Items of selection widgets, after \<^verbatim>\<open>YItem.h\<close>, \<^verbatim>\<open>YItem.cc\<close>, \<^verbatim>\<open>YTreeItem.cc\<close>, \<^verbatim>\<open>YMenuItem.h\<close>
  and \<^verbatim>\<open>YTableItem.cc\<close>. An item is an object with an identity and possibly child items; a
  collection of items is a forest. The theory has the traversals all selection widgets share and
  what they compute on the list of all items in depth-first order.
\<close>

section \<open>Data\<close>

text \<open>
  \<open>it_id\<close> is the identity of the object (its address); \<open>it_hasParent\<close> records whether \<^verbatim>\<open>parent()\<close>
  is nonzero. The class tag answers the dynamic casts.
\<close>

datatype item_class = ClsItem | ClsTreeItem | ClsMenuItem | ClsTableItem

record item_data =
  it_id :: nat
  it_class :: item_class
  it_label :: string
  it_iconName :: string
  it_status :: int
  it_index :: int
  it_hasParent :: bool
  it_isOpen :: bool
  it_enabled :: bool
  it_visible :: bool

datatype YItem = YItem (idata: item_data) (ichildren: "YItem list")

text \<open>Constructors of \<^verbatim>\<open>YItem\<close>.\<close>

definition new_item_data :: "nat \<Rightarrow> item_class \<Rightarrow> string \<Rightarrow> string \<Rightarrow> bool \<Rightarrow> item_data" where
  "new_item_data i cls label icon sel =
     \<lparr>it_id = i, it_class = cls, it_label = label, it_iconName = icon,
      it_status = (if sel then 1 else 0), it_index = -1, it_hasParent = False, it_isOpen = False,
      it_enabled = True, it_visible = True\<rparr>"

section \<open>Accessors\<close>

definition selected :: "item_data \<Rightarrow> bool" where
  "selected d \<longleftrightarrow> it_status d \<noteq> 0"

definition setSelected :: "bool \<Rightarrow> item_data \<Rightarrow> item_data" where
  "setSelected sel d = d\<lparr>it_status := (if sel then 1 else 0)\<rparr>"

definition setStatus :: "int \<Rightarrow> item_data \<Rightarrow> item_data" where
  "setStatus n d = d\<lparr>it_status := n\<rparr>"

definition setIndex :: "int \<Rightarrow> item_data \<Rightarrow> item_data" where
  "setIndex n d = d\<lparr>it_index := n\<rparr>"

definition setItemLabel :: "string \<Rightarrow> item_data \<Rightarrow> item_data" where
  "setItemLabel l d = d\<lparr>it_label := l\<rparr>"

definition hasChildren :: "YItem \<Rightarrow> bool" where
  "hasChildren i \<longleftrightarrow> ichildren i \<noteq> []"

definition isOpen :: "YItem \<Rightarrow> bool" where
  "isOpen i = (if hasChildren i then it_isOpen (idata i) else False)"

definition isSeparator :: "item_data \<Rightarrow> bool" where
  "isSeparator d \<longleftrightarrow> it_label d = []"

text \<open>
  The \<^verbatim>\<open>YTreeItem\<close> constructors with a parent: the new item records its parent and is appended to
  the parent's children (\<^verbatim>\<open>YTreeItem::addChild\<close>).
\<close>

definition addChildItem :: "YItem \<Rightarrow> YItem \<Rightarrow> YItem" where
  "addChildItem p c =
     YItem (idata p) (ichildren p @ [YItem ((idata c)\<lparr>it_hasParent := True\<rparr>) (ichildren c)])"

lemmas item_accessors = selected_def setSelected_def setStatus_def setIndex_def setItemLabel_def

lemma selected_setSelected [simp]: "selected (setSelected b d) = b"
  by (simp add: item_accessors)

lemma it_id_setters [simp]:
  "it_id (setSelected b d) = it_id d" "it_id (setIndex n d) = it_id d"
  "it_id (setStatus n d) = it_id d" "it_id (setItemLabel l d) = it_id d"
  by (simp_all add: item_accessors)

lemma setter_frames [simp]:
  "it_label (setSelected b d) = it_label d" "it_index (setSelected b d) = it_index d"
  "it_label (setIndex n d) = it_label d" "selected (setIndex n d) = selected d"
  "it_index (setIndex n d) = n" "it_label (setItemLabel l d) = l"
  "it_class (setItemLabel l d) = it_class d" "it_class (setIndex n d) = it_class d"
  "it_class (setSelected b d) = it_class d"
  by (simp_all add: item_accessors)

text \<open>
  \<^verbatim>\<open>YItem::limitLength\<close> cuts at the constant \<open>MAX_DEBUG_LABEL_LEN\<close> of \<^verbatim>\<open>YItem.cc\<close>, whatever limit
  it is given.
\<close>

definition MAX_DEBUG_LABEL_LEN :: nat where
  "MAX_DEBUG_LABEL_LEN = 32"

definition limitLength :: "string \<Rightarrow> int \<Rightarrow> string" where
  "limitLength origText limit =
     (let text = origText
      in if length text > MAX_DEBUG_LABEL_LEN then take MAX_DEBUG_LABEL_LEN text @ ''...'' else text)"

definition debugLabel :: "item_data \<Rightarrow> string" where
  "debugLabel d = limitLength (it_label d) (int MAX_DEBUG_LABEL_LEN)"

section \<open>Forests\<close>

text \<open>
  All items of a forest in depth-first order: the order in which every recursive loop of the
  source visits them.
\<close>

fun allItems :: "YItem list \<Rightarrow> YItem list" where
  "allItems [] = []"
| "allItems (YItem d cs # is) = YItem d cs # allItems cs @ allItems is"

definition item_ids :: "YItem list \<Rightarrow> nat list" where
  "item_ids is = map (it_id \<circ> idata) (allItems is)"

text \<open>Changing the data of every item; of the item with a given identity.\<close>

fun map_data :: "(item_data \<Rightarrow> item_data) \<Rightarrow> YItem list \<Rightarrow> YItem list" where
  "map_data f [] = []"
| "map_data f (YItem d cs # is) = YItem (f d) (map_data f cs) # map_data f is"

definition on_item :: "nat \<Rightarrow> (item_data \<Rightarrow> item_data) \<Rightarrow> YItem list \<Rightarrow> YItem list" where
  "on_item i f = map_data (\<lambda>d. if it_id d = i then f d else d)"

lemma allItems_append [simp]: "allItems (xs @ ys) = allItems xs @ allItems ys"
  by (induction xs rule: allItems.induct) simp_all

lemma map_data_append [simp]: "map_data f (xs @ ys) = map_data f xs @ map_data f ys"
  by (induction f xs rule: map_data.induct) simp_all

lemma map_data_length [simp]: "length (map_data f xs) = length xs"
  by (induction f xs rule: map_data.induct) simp_all

lemma map_data_Nil [simp]: "map_data f xs = [] \<longleftrightarrow> xs = []"
  by (cases xs) (simp, metis YItem.exhaust map_data.simps(2) list.distinct(1))

lemma allItems_Nil [simp]: "allItems xs = [] \<longleftrightarrow> xs = []"
  by (cases xs) (simp, metis YItem.exhaust allItems.simps(2) list.distinct(1))

lemma map_idata_map_data: "map idata (allItems (map_data f xs)) = map (f \<circ> idata) (allItems xs)"
  by (induction f xs rule: map_data.induct) simp_all

lemma item_ids_map_data:
  "(\<And>d. it_id (f d) = it_id d) \<Longrightarrow> item_ids (map_data f xs) = item_ids xs"
proof -
  assume f: "\<And>d. it_id (f d) = it_id d"
  have "item_ids (map_data f xs) = map it_id (map idata (allItems (map_data f xs)))"
    by (simp add: item_ids_def)
  also have "\<dots> = item_ids xs"
    unfolding map_idata_map_data by (simp add: item_ids_def f)
  finally show ?thesis .
qed

lemma map_data_comp: "map_data f (map_data g xs) = map_data (f \<circ> g) xs"
  by (induction g xs rule: map_data.induct) simp_all

lemma map_data_cong:
  "(\<And>i. i \<in> set (allItems xs) \<Longrightarrow> f (idata i) = g (idata i)) \<Longrightarrow> map_data f xs = map_data g xs"
proof (induction f xs rule: map_data.induct)
  case (2 f d cs xs)
  then show ?case by (simp add: 2(3)[of "YItem d cs", simplified])
qed simp

lemma map_data_id [simp]: "map_data (\<lambda>d. d) xs = xs"
  by (induction "\<lambda>d::item_data. d" xs rule: map_data.induct) simp_all

lemma idata_allItems_map_data:
  "j < length (allItems xs) \<Longrightarrow> length (allItems (map_data f xs)) = length (allItems xs)
     \<and> idata (allItems (map_data f xs) ! j) = f (idata (allItems xs ! j))"
proof -
  assume "j < length (allItems xs)"
  moreover have len: "length (allItems (map_data f xs)) = length (allItems xs)"
    using arg_cong[OF map_idata_map_data[of f xs], of length] by simp
  ultimately show ?thesis
    using arg_cong[OF map_idata_map_data[of f xs], of "\<lambda>l. l ! j"] by simp
qed

text \<open>The data of the selected items, in order.\<close>

definition selected_ids :: "YItem list \<Rightarrow> nat list" where
  "selected_ids xs = map it_id (filter selected (map idata (allItems xs)))"

lemma selected_ids_map_data:
  "selected_ids (map_data f xs) = map (it_id \<circ> f) (filter (selected \<circ> f) (map idata (allItems xs)))"
  unfolding selected_ids_def map_idata_map_data by (simp add: filter_map comp_assoc)

lemma selected_ids_append [simp]: "selected_ids (xs @ ys) = selected_ids xs @ selected_ids ys"
  by (simp add: selected_ids_def)

lemma selected_ids_simps [simp]:
  "selected_ids [] = []"
  "selected_ids (YItem d cs # is) =
     (if selected d then [it_id d] else []) @ selected_ids cs @ selected_ids is"
  by (simp_all add: selected_ids_def)

lemma item_ids_simps [simp]:
  "item_ids [] = []" "item_ids (YItem d cs # is) = it_id d # item_ids cs @ item_ids is"
  "item_ids (xs @ ys) = item_ids xs @ item_ids ys"
  by (simp_all add: item_ids_def)

lemma selected_ids_subset: "set (selected_ids xs) \<subseteq> set (item_ids xs)"
  by (auto simp: selected_ids_def item_ids_def)

lemma distinct_selected_ids: "distinct (item_ids xs) \<Longrightarrow> distinct (selected_ids xs)"
proof -
  assume "distinct (item_ids xs)"
  then have "distinct (map it_id (map idata (allItems xs)))" by (simp add: item_ids_def)
  then show ?thesis
    unfolding selected_ids_def by (rule distinct_map_filter)
qed

text \<open>Selecting or deselecting one item changes its membership only.\<close>

lemma selected_ids_on_item_off:
  "selected_ids (on_item i (setSelected False) xs) = filter (\<lambda>j. j \<noteq> i) (selected_ids xs)"
  unfolding on_item_def by (induction xs rule: allItems.induct) auto

lemma selected_ids_on_item_on:
  "selected_ids (on_item i (setSelected True) xs) =
     filter (\<lambda>j. j = i \<or> j \<in> set (selected_ids xs)) (item_ids xs)"
  if "distinct (item_ids xs)"
proof -
  have g: "selected_ids (map_data (\<lambda>d. if it_id d = i then setSelected True d else d) ys) =
     filter (\<lambda>j. j = i \<or> j \<in> S) (item_ids ys)"
    if "\<forall>d \<in> set (map idata (allItems ys)). selected d \<longleftrightarrow> it_id d \<in> S" for ys S
    using that by (induction ys rule: allItems.induct) auto
  have "\<forall>d \<in> set (map idata (allItems xs)). selected d \<longleftrightarrow> it_id d \<in> set (selected_ids xs)"
    using \<open>distinct (item_ids xs)\<close> by (auto simp: selected_ids_def item_ids_def distinct_map inj_on_def)
  from g[OF this] show ?thesis by (simp add: on_item_def)
qed

lemma item_ids_on_item [simp]:
  "(\<And>d. it_id (f d) = it_id d) \<Longrightarrow> item_ids (on_item i f xs) = item_ids xs"
  unfolding on_item_def by (rule item_ids_map_data) simp

end
