(* ===== verification/Yui_Selection.thy ===== *)
theory Yui_Selection
  imports Yui_Item
begin

text \<open>
  \<^verbatim>\<open>YSelectionWidget\<close>: the item collection every selection widget owns, adding items, finding
  them, and selecting them under the single-selection and recursive-selection modes. The main
  results are that the single-selection mode keeps at most one item selected, what
  \<^verbatim>\<open>selectItem\<close> leaves selected in every mode, and the one way \<^verbatim>\<open>addItem\<close> breaks the mode.
\<close>

section \<open>State\<close>

record YSelectionWidget =
  sw_label :: string
  sw_enforceSingleSelection :: bool
  sw_enforceInitialSelection :: bool
  sw_recursiveSelection :: bool
  sw_iconBasePath :: string
  sw_items :: "YItem list"

definition new_YSelectionWidget :: "string \<Rightarrow> bool \<Rightarrow> bool \<Rightarrow> YSelectionWidget result" where
  "new_YSelectionWidget label single recursive =
     (if single \<and> recursive
      then throw (YUIException ''recursiveSelection is only available for multiSelection Widgets.'')
      else return \<lparr>sw_label = label, sw_enforceSingleSelection = single,
                   sw_enforceInitialSelection = True, sw_recursiveSelection = recursive,
                   sw_iconBasePath = [], sw_items = []\<rparr>)"

definition setEnforceInitialSelection :: "bool \<Rightarrow> YSelectionWidget \<Rightarrow> YSelectionWidget" where
  "setEnforceInitialSelection b w =
     (if sw_enforceSingleSelection w then w\<lparr>sw_enforceInitialSelection := b\<rparr> else w)"

definition enforceInitialSelection :: "YSelectionWidget \<Rightarrow> bool" where
  "enforceInitialSelection w \<longleftrightarrow> sw_enforceInitialSelection w \<and> sw_enforceSingleSelection w"

definition setEnforceSingleSelection :: "bool \<Rightarrow> YSelectionWidget \<Rightarrow> YSelectionWidget" where
  "setEnforceSingleSelection b w = w\<lparr>sw_enforceSingleSelection := b\<rparr>"

definition deleteAllItems :: "YSelectionWidget \<Rightarrow> YSelectionWidget" where
  "deleteAllItems w = w\<lparr>sw_items := []\<rparr>"

text \<open>
  \<^verbatim>\<open>iconFullPath\<close>; \<open>findIcon\<close> is the icon loader of the application.
\<close>

definition iconFullPath :: "(string \<Rightarrow> string) \<Rightarrow> YSelectionWidget \<Rightarrow> string \<Rightarrow> string" where
  "iconFullPath findIcon w iconName =
     (if iconName \<noteq> []
      then if hd iconName = CHR ''/'' then iconName
           else if sw_iconBasePath w = [] \<or> hd (sw_iconBasePath w) \<noteq> CHR ''/'' then findIcon iconName
           else sw_iconBasePath w @ ''/'' @ iconName
      else [])"

section \<open>Searching\<close>

fun findSelectedItem :: "YItem list \<Rightarrow> YItem option" where
  "findSelectedItem [] = None"
| "findSelectedItem (YItem d cs # is) =
     (if selected d then Some (YItem d cs)
      else if cs \<noteq> []
           then (case findSelectedItem cs of Some r \<Rightarrow> Some r | None \<Rightarrow> findSelectedItem is)
           else findSelectedItem is)"

text \<open>\<^verbatim>\<open>findSelectedItems\<close> appends to its output parameter.\<close>

fun findSelectedItems :: "YItem list \<Rightarrow> YItem list \<Rightarrow> YItem list" where
  "findSelectedItems acc [] = acc"
| "findSelectedItems acc (YItem d cs # is) =
     (let acc1 = (if selected d then acc @ [YItem d cs] else acc);
          acc2 = (if cs \<noteq> [] then findSelectedItems acc1 cs else acc1)
      in findSelectedItems acc2 is)"

fun itemsContain :: "nat \<Rightarrow> YItem list \<Rightarrow> bool" where
  "itemsContain wanted [] = False"
| "itemsContain wanted (YItem d cs # is) =
     (if it_id d = wanted then True
      else if cs \<noteq> [] \<and> itemsContain wanted cs then True
      else itemsContain wanted is)"

fun deselectAll :: "YItem list \<Rightarrow> YItem list" where
  "deselectAll [] = []"
| "deselectAll (YItem d cs # is) =
     YItem (setSelected False d) (if cs \<noteq> [] then deselectAll cs else cs) # deselectAll is"

fun findItemByLabel :: "string \<Rightarrow> YItem list \<Rightarrow> YItem option" where
  "findItemByLabel wanted [] = None"
| "findItemByLabel wanted (YItem d cs # is) =
     (if it_label d = wanted then Some (YItem d cs)
      else if cs \<noteq> []
           then (case findItemByLabel wanted cs of
                   Some r \<Rightarrow> Some r | None \<Rightarrow> findItemByLabel wanted is)
           else findItemByLabel wanted is)"

definition selectedItem :: "YSelectionWidget \<Rightarrow> YItem option" where
  "selectedItem w = findSelectedItem (sw_items w)"

definition selectedItems :: "YSelectionWidget \<Rightarrow> YItem list" where
  "selectedItems w = findSelectedItems [] (sw_items w)"

definition hasSelectedItem :: "YSelectionWidget \<Rightarrow> bool" where
  "hasSelectedItem w \<longleftrightarrow> selectedItem w \<noteq> None"

definition itemAt :: "YSelectionWidget \<Rightarrow> int \<Rightarrow> YItem option" where
  "itemAt w index =
     (if index < 0 \<or> index \<ge> int (length (sw_items w)) then None else Some (sw_items w ! nat index))"

definition firstItem :: "YSelectionWidget \<Rightarrow> YItem option" where
  "firstItem w = (case sw_items w of [] \<Rightarrow> None | i # _ \<Rightarrow> Some i)"

definition deselectAllItems :: "YSelectionWidget \<Rightarrow> YSelectionWidget" where
  "deselectAllItems w = w\<lparr>sw_items := deselectAll (sw_items w)\<rparr>"

text \<open>\<^verbatim>\<open>item->setSelected( b )\<close> on an item the widget owns.\<close>

definition selectById :: "nat \<Rightarrow> bool \<Rightarrow> YSelectionWidget \<Rightarrow> YSelectionWidget" where
  "selectById i b w = w\<lparr>sw_items := on_item i (setSelected b) (sw_items w)\<rparr>"

section \<open>Adding items\<close>

definition addItem :: "YItem \<Rightarrow> YSelectionWidget \<Rightarrow> YSelectionWidget result" where
  "addItem item w =
     (if it_hasParent (idata item)
      then throw (YUIException
             ''Item already owned by parent item - call addItem() only for toplevel items!'')
      else
        let n = length (sw_items w);
            item1 = YItem (setIndex (int n) (idata item)) (ichildren item);
            w1 = w\<lparr>sw_items := sw_items w @ [item1]\<rparr>
        in return
             (if sw_enforceSingleSelection w1 then
                let newItemSelected =
                      (if selected (idata item1) then Some item1
                       else findSelectedItem (ichildren item1));
                    w2 = (case newItemSelected of
                            None \<Rightarrow> w1
                          | Some s \<Rightarrow> selectById (it_id (idata s)) True (deselectAllItems w1))
                in if sw_enforceInitialSelection w2 \<and> length (sw_items w2) = 1
                   then selectById (it_id (idata item1)) True w2 else w2
              else w1))"

text \<open>\<^verbatim>\<open>addItems\<close>: the screen update that is delayed around the loop belongs to the toolkit.\<close>

fun addItems :: "YItem list \<Rightarrow> YSelectionWidget \<Rightarrow> YSelectionWidget result" where
  "addItems [] w = return w"
| "addItems (i # is) w = bind_result (addItem i w) (addItems is)"

section \<open>Selecting\<close>

text \<open>
  The item object with a given identity, as the pointer gives it; selecting changes data only,
  never the tree, so the recursion over its children follows the subtree as it was passed.
\<close>

fun lookup_item :: "nat \<Rightarrow> YItem list \<Rightarrow> YItem option" where
  "lookup_item i [] = None"
| "lookup_item i (YItem d cs # is) =
     (if it_id d = i then Some (YItem d cs)
      else (case lookup_item i cs of Some r \<Rightarrow> Some r | None \<Rightarrow> lookup_item i is))"

fun selectItem :: "YItem \<Rightarrow> bool \<Rightarrow> YSelectionWidget \<Rightarrow> YSelectionWidget result"
  and selectChildren :: "YItem list \<Rightarrow> bool \<Rightarrow> YSelectionWidget \<Rightarrow> YSelectionWidget result" where
  "selectItem (YItem d cs) sel w =
     (if \<not> itemsContain (it_id d) (sw_items w)
      then throw (YUIException ''Item does not belong to this widget'')
      else
        let w1 = (if sw_enforceSingleSelection w \<and> sel
                  then (case selectedItem w of
                          None \<Rightarrow> w
                        | Some old \<Rightarrow> selectById (it_id (idata old)) False w)
                  else w)
        in bind_result
             (if sw_recursiveSelection w1 \<and> cs \<noteq> [] then selectChildren cs sel w1 else return w1)
             (\<lambda>w2. return (selectById (it_id d) sel w2)))"
| "selectChildren [] sel w = return w"
| "selectChildren (c # cs) sel w =
     bind_result (selectItem c sel w)
       (\<lambda>w1. selectChildren cs sel (selectById (it_id (idata c)) sel w1))"

definition setItemStatus :: "YItem \<Rightarrow> int \<Rightarrow> YSelectionWidget \<Rightarrow> YSelectionWidget result" where
  "setItemStatus item status w = selectItem item (status \<noteq> 0) w"

section \<open>What the searches find\<close>

lemma findSelectedItems_acc: "findSelectedItems acc xs = acc @ filter (selected \<circ> idata) (allItems xs)"
  by (induction acc xs rule: findSelectedItems.induct) (auto simp: Let_def)

lemma findSelectedItem_find: "findSelectedItem xs = List.find (selected \<circ> idata) (allItems xs)"
proof -
  have app: "List.find P (as @ bs) = (case List.find P as of Some x \<Rightarrow> Some x | None \<Rightarrow> List.find P bs)"
    for P :: "YItem \<Rightarrow> bool" and as bs by (induction as) auto
  show ?thesis
    by (induction xs rule: findSelectedItem.induct) (auto simp: app split: option.split)
qed

lemma find_filter_hd: "List.find P xs = (case filter P xs of [] \<Rightarrow> None | x # _ \<Rightarrow> Some x)"
  by (induction xs) auto

lemma itemsContain_iff: "itemsContain i xs \<longleftrightarrow> i \<in> set (item_ids xs)"
  by (induction i xs rule: itemsContain.induct) auto

lemma deselectAll_map_data: "deselectAll xs = map_data (setSelected False) xs"
  by (induction xs rule: deselectAll.induct) auto

lemma selected_ids_deselectAll [simp]: "selected_ids (deselectAll xs) = []"
  by (simp add: deselectAll_map_data selected_ids_map_data comp_def)

lemma item_ids_deselectAll [simp]: "item_ids (deselectAll xs) = item_ids xs"
  by (simp add: deselectAll_map_data item_ids_map_data)

section \<open>Invariants\<close>

definition distinct_items :: "YSelectionWidget \<Rightarrow> bool" where
  "distinct_items w \<longleftrightarrow> distinct (item_ids (sw_items w))"

definition at_most_one :: "YSelectionWidget \<Rightarrow> bool" where
  "at_most_one w \<longleftrightarrow> length (selected_ids (sw_items w)) \<le> 1"

text \<open>Everything but the items: no selecting operation changes it.\<close>

definition same_modes :: "YSelectionWidget \<Rightarrow> YSelectionWidget \<Rightarrow> bool" where
  "same_modes w w' \<longleftrightarrow> w\<lparr>sw_items := []\<rparr> = w'\<lparr>sw_items := []\<rparr>"

lemma same_modes_refl [simp]: "same_modes w w"
  by (simp add: same_modes_def)

lemma same_modes_trans: "same_modes u v \<Longrightarrow> same_modes v w \<Longrightarrow> same_modes u w"
  by (simp add: same_modes_def)

lemma same_modesD:
  assumes "same_modes w w'"
  shows "sw_enforceSingleSelection w = sw_enforceSingleSelection w'"
    "sw_recursiveSelection w = sw_recursiveSelection w'"
    "sw_enforceInitialSelection w = sw_enforceInitialSelection w'"
  using assms by (cases w; cases w'; simp add: same_modes_def)+

lemma selectById_simps [simp]:
  "sw_items (selectById i b w) = on_item i (setSelected b) (sw_items w)"
  "same_modes (selectById i b w) w" "same_modes w (selectById i b w)"
  "distinct_items (selectById i b w) = distinct_items w"
  by (simp_all add: selectById_def same_modes_def distinct_items_def)

lemma selectById_modes [simp]:
  "sw_enforceSingleSelection (selectById i b w) = sw_enforceSingleSelection w"
  "sw_recursiveSelection (selectById i b w) = sw_recursiveSelection w"
  "sw_enforceInitialSelection (selectById i b w) = sw_enforceInitialSelection w"
  by (simp_all add: selectById_def)

lemma deselectAllItems_simps [simp]:
  "sw_items (deselectAllItems w) = deselectAll (sw_items w)"
  "sw_enforceSingleSelection (deselectAllItems w) = sw_enforceSingleSelection w"
  "sw_enforceInitialSelection (deselectAllItems w) = sw_enforceInitialSelection w"
  by (simp_all add: deselectAllItems_def)

lemma filter_eq_single: "distinct xs \<Longrightarrow> i \<in> set xs \<Longrightarrow> filter (\<lambda>j. j = i) xs = [i]"
  by (induction xs) (auto simp: filter_empty_conv)

lemma selected_ids_hd:
  "map_option (it_id \<circ> idata) (findSelectedItem xs) =
     (case selected_ids xs of [] \<Rightarrow> None | i # _ \<Rightarrow> Some i)"
proof -
  have "selected_ids xs = map (it_id \<circ> idata) (filter (selected \<circ> idata) (allItems xs))"
    by (simp add: selected_ids_def filter_map)
  then show ?thesis
    by (simp add: findSelectedItem_find find_filter_hd split: list.split)
qed

lemma selected_ids_select_only:
  assumes "distinct (item_ids xs)" "i \<in> set (item_ids xs)" "selected_ids xs = []"
  shows "selected_ids (on_item i (setSelected True) xs) = [i]"
  using assms by (simp add: selected_ids_on_item_on filter_eq_single)

text \<open>The first step of a single selection: what was selected before no longer is.\<close>

definition drop_old :: "YSelectionWidget \<Rightarrow> YSelectionWidget" where
  "drop_old w = (case selectedItem w of
     None \<Rightarrow> w | Some old \<Rightarrow> selectById (it_id (idata old)) False w)"

lemma drop_old_modes [simp]:
  "same_modes (drop_old w) w" "distinct_items (drop_old w) = distinct_items w"
  "item_ids (sw_items (drop_old w)) = item_ids (sw_items w)"
  by (auto simp: drop_old_def split: option.split)

lemma drop_old_selected:
  "selected_ids (sw_items (drop_old w)) =
     (case selected_ids (sw_items w) of [] \<Rightarrow> [] | i # is \<Rightarrow> filter (\<lambda>j. j \<noteq> i) is)"
  using selected_ids_hd[of "sw_items w"]
  by (auto simp: drop_old_def selectedItem_def selected_ids_on_item_off
      split: option.split list.splits)

lemma selectItem_unfold:
  "selectItem (YItem d cs) sel w =
     (if \<not> itemsContain (it_id d) (sw_items w)
      then throw (YUIException ''Item does not belong to this widget'')
      else let w1 = (if sw_enforceSingleSelection w \<and> sel then drop_old w else w)
        in bind_result
             (if sw_recursiveSelection w1 \<and> cs \<noteq> [] then selectChildren cs sel w1 else return w1)
             (\<lambda>w2. return (selectById (it_id d) sel w2)))"
  by (simp add: drop_old_def)

lemma selectItem_foreign:
  "it_id (idata item) \<notin> set (item_ids (sw_items w)) \<Longrightarrow>
     selectItem item sel w = throw (YUIException ''Item does not belong to this widget'')"
  by (cases item) (simp add: itemsContain_iff)

lemma selectItem_flat:
  assumes "it_id (idata item) \<in> set (item_ids (sw_items w))" "\<not> sw_recursiveSelection w"
  shows "selectItem item sel w =
     return (selectById (it_id (idata item)) sel
       (if sw_enforceSingleSelection w \<and> sel then drop_old w else w))"
proof (cases item)
  case (YItem d cs)
  have "\<not> sw_recursiveSelection (drop_old w)"
    using assms(2) same_modesD(2)[OF drop_old_modes(1)[of w]] by simp
  then show ?thesis
    using assms YItem by (simp add: selectItem_unfold itemsContain_iff del: selectItem.simps)
qed

lemma selectItem_single_selects:
  assumes "distinct_items w" "at_most_one w" "sw_enforceSingleSelection w" "\<not> sw_recursiveSelection w"
    and "it_id (idata item) \<in> set (item_ids (sw_items w))"
  shows "\<exists>w'. selectItem item True w = Inr w' \<and> same_modes w' w \<and> distinct_items w'
     \<and> selected_ids (sw_items w') = [it_id (idata item)]"
proof -
  have none: "selected_ids (sw_items (drop_old w)) = []"
    using assms(2) by (cases "selected_ids (sw_items w)") (auto simp: drop_old_selected at_most_one_def)
  have "selected_ids (on_item (it_id (idata item)) (setSelected True) (sw_items (drop_old w)))
      = [it_id (idata item)]"
    using assms(1,5) none by (intro selected_ids_select_only) (simp_all add: distinct_items_def)
  then show ?thesis
    using assms by (simp add: selectItem_flat same_modes_trans[OF selectById_simps(2) drop_old_modes(1)])
qed

lemma selectItem_deselects:
  assumes "\<not> sw_recursiveSelection w" "it_id (idata item) \<in> set (item_ids (sw_items w))"
  shows "\<exists>w'. selectItem item False w = Inr w' \<and> same_modes w' w
     \<and> selected_ids (sw_items w') = filter (\<lambda>j. j \<noteq> it_id (idata item)) (selected_ids (sw_items w))"
  using assms by (simp add: selectItem_flat selected_ids_on_item_off)

text \<open>Recursive selection reaches the whole subtree and nothing else.\<close>

lemma set_selected_on_item:
  assumes "distinct (item_ids xs)"
  shows "set (selected_ids (on_item i (setSelected b) xs)) =
    (if b then set (selected_ids xs) \<union> ({i} \<inter> set (item_ids xs)) else set (selected_ids xs) - {i})"
  using selected_ids_subset[of xs] assms
  by (cases b) (auto simp: selected_ids_on_item_on selected_ids_on_item_off)

definition select_set :: "bool \<Rightarrow> nat set \<Rightarrow> nat set \<Rightarrow> nat set" where
  "select_set sel S A = (if sel then A \<union> S else A - S)"

lemma select_set_simps:
  "select_set sel S (select_set sel T A) = select_set sel (S \<union> T) A"
  "select_set sel {} A = A"
  by (auto simp: select_set_def)

definition selects :: "bool \<Rightarrow> nat set \<Rightarrow> YSelectionWidget \<Rightarrow> YSelectionWidget \<Rightarrow> bool" where
  "selects sel S w w' \<longleftrightarrow> same_modes w' w \<and> item_ids (sw_items w') = item_ids (sw_items w)
     \<and> set (selected_ids (sw_items w')) = select_set sel S (set (selected_ids (sw_items w)))"

lemma selects_trans: "selects sel S u v \<Longrightarrow> selects sel T v w \<Longrightarrow> selects sel (T \<union> S) u w"
  by (auto simp: selects_def select_set_simps intro: same_modes_trans)

lemma selects_selectById:
  "distinct_items w \<Longrightarrow> i \<in> set (item_ids (sw_items w)) \<Longrightarrow> selects sel {i} w (selectById i sel w)"
  by (auto simp: selects_def select_set_def distinct_items_def set_selected_on_item)

lemma selects_keeps: "selects sel S w w' \<Longrightarrow> distinct_items w' = distinct_items w"
  by (simp add: selects_def distinct_items_def)

lemma selectItem_recursive_aux:
  fixes item :: YItem and items :: "YItem list"
  shows "\<lbrakk>sw_recursiveSelection w; \<not> sw_enforceSingleSelection w; distinct_items w;
      set (item_ids [item]) \<subseteq> set (item_ids (sw_items w))\<rbrakk> \<Longrightarrow>
    \<exists>w'. selectItem item sel w = Inr w' \<and> selects sel (set (item_ids [item])) w w'"
  and "\<lbrakk>sw_recursiveSelection w; \<not> sw_enforceSingleSelection w; distinct_items w;
      set (item_ids items) \<subseteq> set (item_ids (sw_items w))\<rbrakk> \<Longrightarrow>
    \<exists>w'. selectChildren items sel w = Inr w' \<and> selects sel (set (item_ids items)) w w'"
proof (induction item sel w and items sel w rule: selectItem_selectChildren.induct)
  case (1 d cs sel w)
  obtain w2 where w2: "(if cs \<noteq> [] then selectChildren cs sel w else return w) = Inr w2"
    "selects sel (set (item_ids cs)) w w2"
  proof (cases "cs = []")
    case True
    then show ?thesis using that[of w] by (simp add: selects_def select_set_simps)
  next
    case False
    then show ?thesis using that 1 by (auto simp: itemsContain_iff)
  qed
  have "selects sel {it_id d} w2 (selectById (it_id d) sel w2)"
    using 1(4,5) w2(2) by (intro selects_selectById) (auto simp: selects_keeps, auto simp: selects_def)
  from selects_trans[OF w2(2) this] show ?case
    using w2(1) 1(2-) by (simp add: selectItem_unfold itemsContain_iff del: selectItem.simps)
next
  case (2 sel w)
  then show ?case by (simp add: selects_def select_set_simps)
next
  case (3 c cs sel w)
  have "set (item_ids [c]) \<subseteq> set (item_ids (sw_items w))" "set (item_ids cs) \<subseteq> set (item_ids (sw_items w))"
    using 3(6) by (cases c; auto)+
  obtain w1 where w1: "selectItem c sel w = Inr w1" "selects sel (set (item_ids [c])) w w1"
    using 3(1,3-5) \<open>set (item_ids [c]) \<subseteq> _\<close> by blast
  let ?w2 = "selectById (it_id (idata c)) sel w1"
  have c: "it_id (idata c) \<in> set (item_ids [c])" by (cases c) simp
  have s2: "selects sel {it_id (idata c)} w1 ?w2"
    using c \<open>set (item_ids [c]) \<subseteq> _\<close> w1(2) 3(5) by (intro selects_selectById) (auto simp: selects_keeps, auto simp: selects_def)
  have s12: "selects sel (set (item_ids [c])) w ?w2"
    using selects_trans[OF w1(2) s2] c by (simp add: insert_absorb)
  have m: "same_modes ?w2 w" using s12 by (simp add: selects_def)
  have pre: "sw_recursiveSelection ?w2" "\<not> sw_enforceSingleSelection ?w2" "distinct_items ?w2"
    "set (item_ids cs) \<subseteq> set (item_ids (sw_items ?w2))"
    using 3(3-5) same_modesD[OF m] \<open>set (item_ids cs) \<subseteq> _\<close> s12 selects_keeps[OF s12]
    by (simp_all add: selects_def)
  obtain w3 where w3: "selectChildren cs sel ?w2 = Inr w3" "selects sel (set (item_ids cs)) ?w2 w3"
    using 3(2)[OF w1(1) pre] by blast
  have "set (item_ids (c # cs)) = set (item_ids cs) \<union> set (item_ids [c])"
    by (cases c) auto
  with selects_trans[OF s12 w3(2)] w1(1) w3(1) show ?case by simp
qed


section \<open>Adding an item\<close>

lemma same_modes_sw_items: "same_modes (w\<lparr>sw_items := xs\<rparr>) w"
  by (simp add: same_modes_def)

text \<open>The item as it is stored: with its index.\<close>

definition stored :: "YSelectionWidget \<Rightarrow> YItem \<Rightarrow> YItem" where
  "stored w item = YItem (setIndex (int (length (sw_items w))) (idata item)) (ichildren item)"

lemma stored_ids [simp]:
  "item_ids [stored w item] = item_ids [item]" "selected_ids [stored w item] = selected_ids [item]"
  "it_id (idata (stored w item)) = it_id (idata item)" "ichildren (stored w item) = ichildren item"
  "selected (idata (stored w item)) = selected (idata item)"
  by (cases item; simp add: stored_def)+

text \<open>The item the new subtree wants selected, and the state after it got its way.\<close>

lemma addItem_eq:
  assumes "\<not> it_hasParent (idata item)"
  shows "addItem item w = return (let w1 = w\<lparr>sw_items := sw_items w @ [stored w item]\<rparr>;
     w2 = (case selected_ids [item] of [] \<Rightarrow> w1 | i # _ \<Rightarrow> selectById i True (deselectAllItems w1))
     in if sw_enforceSingleSelection w
        then if sw_enforceInitialSelection w \<and> sw_items w = []
             then selectById (it_id (idata item)) True w2 else w2
        else w1)"
proof -
  let ?w1 = "w\<lparr>sw_items := sw_items w @ [stored w item]\<rparr>"
  have sel: "map_option (it_id \<circ> idata)
        (if selected (idata item) then Some (stored w item) else findSelectedItem (ichildren item))
      = (case selected_ids [item] of [] \<Rightarrow> None | i # _ \<Rightarrow> Some i)"
    using selected_ids_hd[of "ichildren item"] by (cases item) simp
  have len: "length (sw_items (case selected_ids [item] of [] \<Rightarrow> ?w1
        | i # _ \<Rightarrow> selectById i True (deselectAllItems ?w1))) = Suc (length (sw_items w))"
    by (auto simp: on_item_def deselectAll_map_data split: list.split)
  have w2: "(case (if selected (idata item) then Some (stored w item) else findSelectedItem (ichildren item)) of
        None \<Rightarrow> ?w1 | Some s \<Rightarrow> selectById (it_id (idata s)) True (deselectAllItems ?w1))
      = (case selected_ids [item] of [] \<Rightarrow> ?w1 | i # _ \<Rightarrow> selectById i True (deselectAllItems ?w1))"
    using sel by (auto split: option.splits list.splits if_splits)
  have init: "sw_enforceInitialSelection (case selected_ids [item] of [] \<Rightarrow> ?w1
        | i # _ \<Rightarrow> selectById i True (deselectAllItems ?w1)) = sw_enforceInitialSelection w"
    by (simp split: list.split)
  have single: "sw_enforceSingleSelection ?w1 = sw_enforceSingleSelection w" by simp
  show ?thesis
    unfolding addItem_def Let_def stored_def[symmetric]
    by (simp only: assms if_False stored_ids single w2 len init
        One_nat_def nat.inject length_0_conv)
qed

lemma addItem_owned: "it_hasParent (idata item) \<Longrightarrow>
  addItem item w = throw (YUIException
     ''Item already owned by parent item - call addItem() only for toplevel items!'')"
  by (simp add: addItem_def)

text \<open>Adding an item with fresh identities keeps the identities distinct.\<close>

lemma addItem_ids:
  assumes "addItem item w = Inr w'"
  shows "item_ids (sw_items w') = item_ids (sw_items w) @ item_ids [item]" "same_modes w' w"
proof -
  have np: "\<not> it_hasParent (idata item)" using assms by (auto simp: addItem_owned)
  show "item_ids (sw_items w') = item_ids (sw_items w) @ item_ids [item]"
    using assms unfolding addItem_eq[OF np] by (auto simp: Let_def split: list.splits if_splits)
  show "same_modes w' w"
    using assms unfolding addItem_eq[OF np]
    by (auto simp: Let_def same_modes_def selectById_def deselectAllItems_def split: list.splits if_splits)
qed

lemma distinct_items_addItem:
  assumes "addItem item w = Inr w'" "distinct_items w" "distinct (item_ids [item])"
    "set (item_ids [item]) \<inter> set (item_ids (sw_items w)) = {}"
  shows "distinct_items w'"
  using assms addItem_ids(1)[OF assms(1)] by (auto simp: distinct_items_def)

text \<open>What is selected after adding an item to a single-selection widget.\<close>

lemma addItem_selected:
  assumes "addItem item w = Inr w'" "sw_enforceSingleSelection w" "distinct_items w'"
  shows "selected_ids (sw_items w') =
    (let new = (case selected_ids [item] of [] \<Rightarrow> selected_ids (sw_items w) | i # _ \<Rightarrow> [i])
     in if enforceInitialSelection w \<and> sw_items w = []
        then filter (\<lambda>j. j = it_id (idata item) \<or> j \<in> set new) (item_ids [item]) else new)"
proof -
  have np: "\<not> it_hasParent (idata item)" using assms by (auto simp: addItem_owned)
  let ?w1 = "w\<lparr>sw_items := sw_items w @ [stored w item]\<rparr>"
  let ?w2 = "case selected_ids [item] of [] \<Rightarrow> ?w1 | i # _ \<Rightarrow> selectById i True (deselectAllItems ?w1)"
  have w': "w' = (if sw_enforceInitialSelection w \<and> sw_items w = []
             then selectById (it_id (idata item)) True ?w2 else ?w2)"
    using assms(1,2) unfolding addItem_eq[OF np] by (simp add: Let_def)
  have ids1: "distinct (item_ids (sw_items w @ [stored w item]))"
    using assms(3) addItem_ids(1)[OF assms(1)] by (simp add: distinct_items_def)
  have new: "selected_ids (sw_items ?w2) =
     (case selected_ids [item] of [] \<Rightarrow> selected_ids (sw_items w) | i # _ \<Rightarrow> [i])"
  proof (cases "selected_ids [item]")
    case Nil
    then show ?thesis by simp
  next
    case (Cons i r)
    then have i: "i \<in> set (item_ids [item])" using selected_ids_subset[of "[item]"] by auto
    show ?thesis
      using Cons ids1 i by (simp add: selected_ids_select_only del: item_ids_simps(3) selected_ids_append)
        (subst selected_ids_select_only, simp_all)
  qed
  have d2: "distinct (item_ids (sw_items ?w2))" and i2: "item_ids (sw_items ?w2) = item_ids (sw_items w) @ item_ids [item]"
    using ids1 by (simp_all split: list.split)
  show ?thesis
    unfolding w' using assms(2) new i2
    by (simp add: enforceInitialSelection_def Let_def selected_ids_on_item_on[OF d2])
qed


text \<open>
  The single-selection mode is kept, except when the very first item is not selected itself but
  brings a selected descendant while an initial selection is enforced.
\<close>

definition first_with_selected_child :: "YItem \<Rightarrow> YSelectionWidget \<Rightarrow> bool" where
  "first_with_selected_child item w \<longleftrightarrow> enforceInitialSelection w \<and> sw_items w = []
     \<and> \<not> selected (idata item) \<and> findSelectedItem (ichildren item) \<noteq> None"

lemma selected_ids_singleton_own:
  "selected (idata item) \<Longrightarrow> \<exists>r. selected_ids [item] = it_id (idata item) # r"
  by (cases item) simp

lemma hd_item_ids: "\<exists>r. item_ids [item] = it_id (idata item) # r"
  by (cases item) simp

lemma addItem_keeps_single:
  assumes "addItem item w = Inr w'" "sw_enforceSingleSelection w" "distinct_items w'" "at_most_one w"
    and "\<not> first_with_selected_child item w"
  shows "at_most_one w'"
proof -
  obtain r where r: "item_ids [item] = it_id (idata item) # r" using hd_item_ids by blast
  have dr: "distinct (item_ids [item])"
    using assms(3) addItem_ids(1)[OF assms(1)] by (simp add: distinct_items_def)
  show ?thesis
  proof (cases "enforceInitialSelection w \<and> sw_items w = []")
    case False
    then show ?thesis
      using addItem_selected[OF assms(1-3)] assms(4)
      by (auto simp: at_most_one_def Let_def split: list.split)
  next
    case True
    have "selected_ids [item] = [] \<or> (\<exists>r. selected_ids [item] = it_id (idata item) # r)"
    proof (cases "selected (idata item)")
      case True
      then show ?thesis using selected_ids_singleton_own by blast
    next
      case False
      then have "findSelectedItem (ichildren item) = None"
        using assms(5) True by (simp add: first_with_selected_child_def)
      then have "selected_ids (ichildren item) = []"
        using selected_ids_hd[of "ichildren item"] by (simp split: list.splits)
      then show ?thesis using False by (cases item) simp
    qed
    then have "selected_ids (sw_items w') = filter (\<lambda>j. j = it_id (idata item)) (item_ids [item])"
      using addItem_selected[OF assms(1-3)] True by (auto simp: Let_def)
    then show ?thesis
      using filter_eq_single[OF dr, of "it_id (idata item)"] r by (simp add: at_most_one_def)
  qed
qed

text \<open>Exactly one selected item, once there is one and an initial selection is enforced.\<close>

lemma addItem_exactly_one:
  assumes "addItem item w = Inr w'" "enforceInitialSelection w" "distinct_items w'"
    and "\<not> first_with_selected_child item w"
    and "sw_items w \<noteq> [] \<longrightarrow> length (selected_ids (sw_items w)) = 1"
  shows "length (selected_ids (sw_items w')) = 1"
proof -
  have single: "sw_enforceSingleSelection w" using assms(2) by (simp add: enforceInitialSelection_def)
  have "at_most_one w"
    using assms(5) by (cases "sw_items w = []") (auto simp: at_most_one_def)
  from addItem_keeps_single[OF assms(1) single assms(3) this assms(4)]
  have le: "length (selected_ids (sw_items w')) \<le> 1" by (simp add: at_most_one_def)
  have "selected_ids (sw_items w') \<noteq> []"
    using addItem_selected[OF assms(1) single assms(3)] assms(2,5) hd_item_ids[of item]
    by (auto simp: Let_def split: list.splits if_splits)
  with le show ?thesis by (simp add: le_Suc_eq)
qed

section \<open>Item indices\<close>

definition indices_ok :: "YSelectionWidget \<Rightarrow> bool" where
  "indices_ok w \<longleftrightarrow> (\<forall>i < length (sw_items w). it_index (idata (sw_items w ! i)) = int i)"

lemma map_data_nth: "i < length xs \<Longrightarrow> idata (map_data f xs ! i) = f (idata (xs ! i))"
proof (induction f xs arbitrary: i rule: map_data.induct)
  case (2 f d cs xs)
  then show ?case by (cases i) simp_all
qed simp

lemma indices_ok_setSelected [simp]:
  "indices_ok (selectById i b w) = indices_ok w" "indices_ok (deselectAllItems w) = indices_ok w"
  by (auto simp: indices_ok_def on_item_def map_data_nth deselectAll_map_data)

lemma indices_ok_addItem:
  assumes "addItem item w = Inr w'" "indices_ok w"
  shows "indices_ok w'"
proof -
  have np: "\<not> it_hasParent (idata item)" using assms by (auto simp: addItem_owned)
  have "indices_ok (w\<lparr>sw_items := sw_items w @ [stored w item]\<rparr>)"
    using assms(2) by (auto simp: indices_ok_def nth_append stored_def less_Suc_eq)
  then show ?thesis
    using assms(1) unfolding addItem_eq[OF np]
    by (auto simp: Let_def split: list.splits if_splits)
qed

lemma indices_ok_selectItem:
  fixes item :: YItem and items :: "YItem list"
  shows "selectItem item sel w = Inr w' \<Longrightarrow> indices_ok w \<Longrightarrow> indices_ok w'"
    and "selectChildren items sel w = Inr w' \<Longrightarrow> indices_ok w \<Longrightarrow> indices_ok w'"
proof (induction item sel w and items sel w arbitrary: w' and w' rule: selectItem_selectChildren.induct)
  case (1 d cs sel w)
  then show ?case
    by (auto simp: bind_result_Inr_iff Let_def split: if_splits option.splits)
next
  case (3 c cs sel w)
  then show ?case
    by (auto simp: bind_result_Inr_iff)
qed simp


section \<open>Reachable states of a single-selection widget\<close>

definition fresh_item :: "YItem \<Rightarrow> YSelectionWidget \<Rightarrow> bool" where
  "fresh_item item w \<longleftrightarrow> distinct (item_ids [item])
     \<and> set (item_ids [item]) \<inter> set (item_ids (sw_items w)) = {}"

text \<open>
  The life of a single-selection widget: it is created, items are added, items are selected and
  deselected, all items are deselected or deleted, in any order.
\<close>

inductive single_reach :: "YSelectionWidget \<Rightarrow> bool" where
  created: "new_YSelectionWidget label True False = Inr w \<Longrightarrow> single_reach w"
| added: "single_reach w \<Longrightarrow> fresh_item item w \<Longrightarrow> \<not> first_with_selected_child item w \<Longrightarrow>
    addItem item w = Inr w' \<Longrightarrow> single_reach w'"
| selected: "single_reach w \<Longrightarrow> selectItem item b w = Inr w' \<Longrightarrow> single_reach w'"
| deselected: "single_reach w \<Longrightarrow> single_reach (deselectAllItems w)"
| deleted: "single_reach w \<Longrightarrow> single_reach (deleteAllItems w)"

definition single_inv :: "YSelectionWidget \<Rightarrow> bool" where
  "single_inv w \<longleftrightarrow> sw_enforceSingleSelection w \<and> \<not> sw_recursiveSelection w
     \<and> distinct_items w \<and> at_most_one w"

lemma single_inv_selectItem:
  assumes "single_inv w" "selectItem item b w = Inr w'"
  shows "single_inv w'"
proof -
  have mem: "it_id (idata item) \<in> set (item_ids (sw_items w))"
    using assms(2) selectItem_foreign[of item w b] by fastforce
  show ?thesis
  proof (cases b)
    case True
    then show ?thesis
      using assms mem selectItem_single_selects[of w item] same_modesD[of w' w]
      by (auto simp: single_inv_def at_most_one_def)
  next
    case False
    have fl: "length (filter P xs) \<le> 1" if "length xs \<le> 1" for P and xs :: "nat list"
      by (rule order.trans[OF length_filter_le that])
    have "w' = selectById (it_id (idata item)) False w"
      using assms mem False by (simp add: single_inv_def selectItem_flat)
    then show ?thesis
      using assms(1) by (auto simp: single_inv_def at_most_one_def selected_ids_on_item_off fl[simplified])
  qed
qed

lemma single_inv_addItem:
  assumes "single_inv w" "fresh_item item w" "\<not> first_with_selected_child item w"
    "addItem item w = Inr w'"
  shows "single_inv w'"
proof -
  have d: "distinct_items w'"
    using assms by (intro distinct_items_addItem[OF assms(4)]) (auto simp: single_inv_def fresh_item_def)
  show ?thesis
    using assms d same_modesD[OF addItem_ids(2)[OF assms(4)]] addItem_keeps_single[OF assms(4) _ d]
    by (simp add: single_inv_def)
qed

lemma single_reach_inv: "single_reach w \<Longrightarrow> single_inv w"
proof (induction rule: single_reach.induct)
  case (created label w)
  then show ?case
    by (auto simp: new_YSelectionWidget_def single_inv_def distinct_items_def at_most_one_def)
next
  case (added w item w')
  then show ?case by (blast intro: single_inv_addItem)
next
  case (selected w item b w')
  then show ?case by (blast intro: single_inv_selectItem)
next
  case (deselected w)
  then show ?case
    by (simp add: single_inv_def distinct_items_def at_most_one_def deselectAllItems_def)
next
  case (deleted w)
  then show ?case by (simp add: single_inv_def distinct_items_def at_most_one_def deleteAllItems_def)
qed

section \<open>Properties\<close>

text \<open>Small widgets and items for the examples.\<close>

abbreviation ex_item :: "nat \<Rightarrow> bool \<Rightarrow> YItem list \<Rightarrow> YItem" where
  "ex_item i sel cs \<equiv> YItem (new_item_data i ClsTreeItem ''item'' [] sel) cs"

abbreviation ex_widget :: "bool \<Rightarrow> bool \<Rightarrow> YItem list \<Rightarrow> YSelectionWidget" where
  "ex_widget single rec is \<equiv> \<lparr>sw_label = ''list'', sw_enforceSingleSelection = single,
     sw_enforceInitialSelection = True, sw_recursiveSelection = rec, sw_iconBasePath = [],
     sw_items = is\<rparr>"

lemmas ex_simps = new_item_data_def distinct_items_def at_most_one_def selected_def item_ids_def
  selected_ids_def

text \<open>
  C11: In every state a single-selection widget can reach by adding items, selecting and
  deselecting them, deselecting all or deleting all, at most one item (at any depth) is selected,
  provided the first item added does not bring a selected descendant of its own.
\<close>

theorem single_selection_invariant:
  assumes "single_reach w"
  shows "sw_enforceSingleSelection w \<and> length (selectedItems w) \<le> 1
     \<and> distinct (map (it_id \<circ> idata) (allItems (sw_items w)))"
proof -
  have "single_inv w" by (rule single_reach_inv[OF assms])
  moreover have "length (selectedItems w) = length (selected_ids (sw_items w))"
    by (simp add: selectedItems_def findSelectedItems_acc selected_ids_def filter_map)
  ultimately show ?thesis
    by (simp add: single_inv_def at_most_one_def distinct_items_def item_ids_def)
qed

theorem single_selection_invariant_witness:
  "\<exists>w. single_reach w \<and> sw_items w \<noteq> [] \<and> length (selectedItems w) \<le> 1"
proof -
  let ?w = "ex_widget True False []"
  have r: "single_reach ?w"
    by (rule single_reach.created[of "''list''"]) (simp add: new_YSelectionWidget_def)
  obtain w' where w': "addItem (ex_item 1 False []) ?w = Inr w'" "sw_items w' \<noteq> []"
    by (simp add: addItem_def new_item_data_def Let_def selected_def on_item_def setIndex_def)
  have "single_reach w'"
    by (rule single_reach.added[OF r _ _ w'(1)])
      (simp_all add: fresh_item_def first_with_selected_child_def)
  with single_selection_invariant[OF this] w'(2) show ?thesis by blast
qed

text \<open>
  Selecting an item of a single-selection widget returns normally and leaves exactly that item
  selected.
\<close>

theorem selectItem_single:
  assumes "distinct_items w" "at_most_one w" "sw_enforceSingleSelection w" "\<not> sw_recursiveSelection w"
    and "itemsContain (it_id (idata item)) (sw_items w)"
  shows "\<exists>w'. selectItem item True w = Inr w' \<and>
     map (it_id \<circ> idata) (selectedItems w') = [it_id (idata item)]"
proof -
  obtain w' where "selectItem item True w = Inr w'" "selected_ids (sw_items w') = [it_id (idata item)]"
    using selectItem_single_selects[OF assms(1-4)] assms(5) by (auto simp: itemsContain_iff)
  then show ?thesis
    by (auto simp: selectedItems_def findSelectedItems_acc selected_ids_def filter_map)
qed

theorem selectItem_single_witness:
  "\<exists>w'. selectItem (ex_item 2 False []) True (ex_widget True False [ex_item 1 True [], ex_item 2 False []])
      = Inr w' \<and> map (it_id \<circ> idata) (selectedItems w') = [2]"
  using selectItem_single[of "ex_widget True False [ex_item 1 True [], ex_item 2 False []]" "ex_item 2 False []"]
  by (simp add: ex_simps)

text \<open>
  In a multi-selection widget with recursive selection, selecting (deselecting) an item
  selects (deselects) exactly that item and everything below it and changes no other item.
\<close>

theorem selectItem_recursive:
  assumes "sw_recursiveSelection w" "\<not> sw_enforceSingleSelection w" "distinct_items w"
    and "set (item_ids [item]) \<subseteq> set (item_ids (sw_items w))"
  shows "\<exists>w'. selectItem item sel w = Inr w' \<and> set (selected_ids (sw_items w')) =
     (if sel then set (selected_ids (sw_items w)) \<union> set (item_ids [item])
      else set (selected_ids (sw_items w)) - set (item_ids [item]))"
  using selectItem_recursive_aux(1)[OF assms, of sel] by (auto simp: selects_def select_set_def)

theorem selectItem_recursive_witness:
  "\<exists>w'. selectItem (ex_item 1 False [ex_item 2 False [], ex_item 3 False []]) True
      (ex_widget False True [ex_item 1 False [ex_item 2 False [], ex_item 3 False []], ex_item 4 True []])
      = Inr w' \<and> set (selected_ids (sw_items w')) = {1, 2, 3, 4}"
  using selectItem_recursive[of "ex_widget False True
      [ex_item 1 False [ex_item 2 False [], ex_item 3 False []], ex_item 4 True []]"
      "ex_item 1 False [ex_item 2 False [], ex_item 3 False []]" True]
  by (auto simp: ex_simps)

text \<open>
  C38: \<^verbatim>\<open>addItem\<close> does not keep the single-selection mode: whenever the first item of a widget that
  enforces an initial selection is not selected but has a selected descendant, at any depth, two items
  are selected afterwards, the item itself and its first selected descendant.
\<close>

theorem addItem_two_selected:
  assumes "sw_enforceSingleSelection w" "first_with_selected_child item w"
    and "\<not> it_hasParent (idata item)" "distinct (item_ids [item])"
  shows "\<exists>w' s. addItem item w = Inr w' \<and> findSelectedItem (ichildren item) = Some s
    \<and> map (it_id \<circ> idata) (selectedItems w') = [it_id (idata item), it_id (idata s)]"
proof -
  obtain d cs where item: "item = YItem d cs" by (cases item)
  have w: "enforceInitialSelection w" "sw_items w = []" "\<not> selected d"
    using assms(2) by (simp_all add: first_with_selected_child_def item)
  obtain s where s: "findSelectedItem cs = Some s" using assms(2) by (auto simp: first_with_selected_child_def item)
  obtain w' where w': "addItem item w = Inr w'" using addItem_eq[OF assms(3), of w] by simp
  have ids: "distinct_items w'" using addItem_ids(1)[OF w'] assms(4) w(2) by (simp add: distinct_items_def)
  obtain r where r: "selected_ids cs = it_id (idata s) # r"
    using selected_ids_hd[of cs] s by (cases "selected_ids cs") auto
  then have sin: "it_id (idata s) \<in> set (item_ids cs)" using selected_ids_subset[of cs] by auto
  have "selected_ids (sw_items w') = filter (\<lambda>j. j = it_id d \<or> j = it_id (idata s)) (item_ids [item])"
    using addItem_selected[OF w' assms(1) ids] w r by (simp add: item)
  also have "\<dots> = it_id d # filter (\<lambda>j. j = it_id (idata s)) (item_ids cs)"
    using assms(4) by (auto simp: item intro!: filter_cong)
  also have "\<dots> = [it_id d, it_id (idata s)]" using sin assms(4) by (simp add: item filter_eq_single)
  finally have "map (it_id \<circ> idata) (selectedItems w') = [it_id d, it_id (idata s)]"
    by (simp add: selectedItems_def findSelectedItems_acc selected_ids_def filter_map comp_def)
  then show ?thesis using w' s by (auto simp: item)
qed

theorem addItem_two_selected_witness:
  "\<exists>w'. addItem (ex_item 1 False [ex_item 2 False [ex_item 3 True []], ex_item 4 True []]) (ex_widget True False []) = Inr w'
     \<and> map (it_id \<circ> idata) (selectedItems w') = [1, 3]"
  using addItem_two_selected[of "ex_widget True False []" "ex_item 1 False [ex_item 2 False [ex_item 3 True []], ex_item 4 True []]"]
  by (auto simp: ex_simps first_with_selected_child_def enforceInitialSelection_def)

text \<open>
  With an initial selection enforced, adding an item to a widget that has exactly one selected
  item (or no items at all) leaves exactly one item selected; the same exception applies to the
  first item.
\<close>

theorem addItem_exactly_one_selected:
  assumes "addItem item w = Inr w'" "enforceInitialSelection w" "fresh_item item w" "distinct_items w"
    and "\<not> first_with_selected_child item w"
    and "sw_items w \<noteq> [] \<longrightarrow> length (selectedItems w) = 1"
  shows "length (selectedItems w') = 1"
proof -
  have len: "length (selectedItems v) = length (selected_ids (sw_items v))" for v
    by (simp add: selectedItems_def findSelectedItems_acc selected_ids_def filter_map)
  have "distinct_items w'"
    using assms(3,4) by (intro distinct_items_addItem[OF assms(1)]) (auto simp: fresh_item_def)
  then show ?thesis
    unfolding len by (rule addItem_exactly_one[OF assms(1,2) _ assms(5)]) (use assms(6) len in simp)
qed

theorem addItem_exactly_one_selected_witness:
  "\<exists>w'. addItem (ex_item 2 True []) (ex_widget True False [ex_item 1 True []]) = Inr w'
     \<and> length (selectedItems w') = 1"
proof -
  let ?w = "ex_widget True False [ex_item 1 True []]"
  obtain w' where w': "addItem (ex_item 2 True []) ?w = Inr w'"
    by (simp add: addItem_def new_item_data_def Let_def)
  have "length (selectedItems w') = 1"
    by (rule addItem_exactly_one_selected[OF w'])
      (simp_all add: ex_simps enforceInitialSelection_def fresh_item_def first_with_selected_child_def
        selectedItems_def)
  with w' show ?thesis by blast
qed

text \<open>
  The item \<^verbatim>\<open>selectedItem\<close> finds by its recursive search is the first element of
  \<^verbatim>\<open>selectedItems\<close>, and both see exactly the selected items of the whole forest.
\<close>

theorem selectedItem_first_of_selectedItems:
  "selectedItem w = (case selectedItems w of [] \<Rightarrow> None | i # _ \<Rightarrow> Some i)
   \<and> set (selectedItems w) = {i \<in> set (allItems (sw_items w)). selected (idata i)}"
  by (simp add: selectedItem_def selectedItems_def findSelectedItems_acc findSelectedItem_find
      find_filter_hd)

text \<open>
  The index an item gets from \<^verbatim>\<open>addItem\<close> is its position: after adding, \<^verbatim>\<open>itemAt\<close> of every valid
  index returns the item that carries this index.
\<close>

theorem itemAt_index:
  assumes "indices_ok w" "addItem item w = Inr w'"
  shows "\<forall>i. (0 \<le> i \<and> i < int (length (sw_items w'))) =
     (\<exists>it. itemAt w' i = Some it \<and> it_index (idata it) = i)"
proof -
  have "indices_ok w'" by (rule indices_ok_addItem[OF assms(2,1)])
  then show ?thesis
    by (auto simp: itemAt_def indices_ok_def split: if_splits)
qed

theorem itemAt_index_witness:
  "\<exists>w' it. addItem (ex_item 7 False []) (ex_widget False False []) = Inr w'
     \<and> itemAt w' 0 = Some it \<and> it_index (idata it) = 0"
proof -
  obtain w' where w': "addItem (ex_item 7 False []) (ex_widget False False []) = Inr w'"
    "sw_items w' \<noteq> []"
    by (simp add: addItem_def new_item_data_def)
  have "indices_ok (ex_widget False False [])" by (simp add: indices_ok_def)
  from itemAt_index[OF this w'(1)] w' show ?thesis
    by (auto dest: spec[of _ 0])
qed

end
