(* ===== verification/Yui_Widget.thy ===== *)
theory Yui_Widget
  imports Yui_Shortcut Yui_Selection
begin

text \<open>
  The widget tree: the data members \<^verbatim>\<open>YWidget\<close> keeps for every widget, the classes of widgets the
  modelled code distinguishes by dynamic casts, the children managers of \<^verbatim>\<open>YChildrenManager.h\<close> with
  their contract, and the recursive operations of \<^verbatim>\<open>YWidget.cc\<close> over a widget and its descendants.
\<close>

section \<open>Two-dimensional values\<close>

datatype 'a YBothDim = YBothDim (hor: 'a) (vert: 'a)

fun at_dim :: "'a YBothDim \<Rightarrow> YUIDimension \<Rightarrow> 'a" where
  "at_dim b YD_HORIZ = hor b"
| "at_dim b YD_VERT = vert b"

fun set_dim :: "YUIDimension \<Rightarrow> 'a \<Rightarrow> 'a YBothDim \<Rightarrow> 'a YBothDim" where
  "set_dim YD_HORIZ x b = YBothDim x (vert b)"
| "set_dim YD_VERT x b = YBothDim (hor b) x"

lemma at_set_dim [simp]: "at_dim (set_dim d x b) d' = (if d = d' then x else at_dim b d')"
  by (cases d; cases d') simp_all

lemma both_dim_eq: "b = c \<longleftrightarrow> (\<forall>d. at_dim b d = at_dim c d)"
  unfolding all_dims by (cases b; cases c) simp

section \<open>Children managers\<close>

text \<open>
  The three classes of \<^verbatim>\<open>YChildrenManager.h\<close> differ in what \<^verbatim>\<open>add\<close> accepts; the list of children and
  everything else is inherited.
\<close>

datatype manager_class = YChildrenManager | YSingleChildManager | YChildrenRejector

record 'w children_manager =
  cm_class :: manager_class
  cm_children :: "'w list"

definition cm_contains :: "'w \<Rightarrow> 'w children_manager \<Rightarrow> bool" where
  "cm_contains c m \<longleftrightarrow> c \<in> set (cm_children m)"

definition cm_add :: "'w \<Rightarrow> 'w children_manager \<Rightarrow> 'w children_manager result" where
  "cm_add c m =
     (case cm_class m of
        YChildrenManager \<Rightarrow> return (m\<lparr>cm_children := cm_children m @ [c]\<rparr>)
      | YSingleChildManager \<Rightarrow>
          if cm_children m = [] then return (m\<lparr>cm_children := cm_children m @ [c]\<rparr>)
          else throw YUITooManyChildrenException
      | YChildrenRejector \<Rightarrow> throw YUITooManyChildrenException)"

definition cm_replace :: "'w \<Rightarrow> 'w children_manager \<Rightarrow> 'w children_manager" where
  "cm_replace c m = m\<lparr>cm_children := [c]\<rparr>"

definition cm_remove :: "'w \<Rightarrow> 'w children_manager \<Rightarrow> 'w children_manager" where
  "cm_remove c m = m\<lparr>cm_children := removeAll c (cm_children m)\<rparr>"

definition cm_clear :: "'w children_manager \<Rightarrow> 'w children_manager" where
  "cm_clear m = m\<lparr>cm_children := []\<rparr>"

definition cm_firstChild :: "'w children_manager \<Rightarrow> 'w option" where
  "cm_firstChild m = (case cm_children m of [] \<Rightarrow> None | c # _ \<Rightarrow> Some c)"

definition cm_lastChild :: "'w children_manager \<Rightarrow> 'w option" where
  "cm_lastChild m = (if cm_children m = [] then None else Some (last (cm_children m)))"

text \<open>
  \<^verbatim>\<open>YWidget::addChild\<close> and \<^verbatim>\<open>YWidget::removeChild\<close>; \<open>destroyed\<close> is the widget's
  \<^verbatim>\<open>beingDestroyed()\<close> flag.
\<close>

definition addChild :: "'w \<Rightarrow> 'w children_manager \<Rightarrow> 'w children_manager result" where
  "addChild c m = (if cm_contains c m then throw YUIInvalidChildException else cm_add c m)"

definition removeChild :: "bool \<Rightarrow> 'w \<Rightarrow> 'w children_manager \<Rightarrow> 'w children_manager" where
  "removeChild destroyed c m = (if \<not> destroyed then cm_remove c m else m)"

text \<open>How many children a manager may hold.\<close>

fun capacity :: "manager_class \<Rightarrow> nat option" where
  "capacity YChildrenManager = None"
| "capacity YSingleChildManager = Some 1"
| "capacity YChildrenRejector = Some 0"

definition within_capacity :: "'w children_manager \<Rightarrow> bool" where
  "within_capacity m \<longleftrightarrow>
     (case capacity (cm_class m) of None \<Rightarrow> True | Some n \<Rightarrow> length (cm_children m) \<le> n)"

text \<open>
  The contract a container relies on: adding appends or throws, removing takes out every
  occurrence. Any client that guards \<open>add\<close> by \<open>contains\<close> keeps its children distinct.
\<close>

locale children_store =
  fixes add :: "'w \<Rightarrow> 'm \<Rightarrow> 'm result"
    and remove :: "'w \<Rightarrow> 'm \<Rightarrow> 'm"
    and contains :: "'w \<Rightarrow> 'm \<Rightarrow> bool"
    and children :: "'m \<Rightarrow> 'w list"
  assumes add_appends: "add c m = Inr m' \<Longrightarrow> children m' = children m @ [c]"
    and remove_all: "children (remove c m) = removeAll c (children m)"
    and contains_children: "contains c m \<longleftrightarrow> c \<in> set (children m)"
begin

lemma guarded_add_distinct:
  "\<not> contains c m \<Longrightarrow> add c m = Inr m' \<Longrightarrow> distinct (children m) \<Longrightarrow> distinct (children m')"
  by (simp add: add_appends contains_children)

lemma remove_distinct: "distinct (children m) \<Longrightarrow> distinct (children (remove c m))"
  by (simp add: remove_all distinct_removeAll)

lemma add_remove:
  "\<not> contains c m \<Longrightarrow> add c m = Inr m' \<Longrightarrow> children (remove c m') = children m"
  by (simp add: add_appends remove_all contains_children)

lemma remove_contains: "contains d (remove c m) \<longleftrightarrow> contains d m \<and> d \<noteq> c"
  by (auto simp: contains_children remove_all)

end

interpretation cm: children_store cm_add cm_remove cm_contains cm_children
  by unfold_locales
    (auto simp: cm_add_def cm_remove_def cm_contains_def split: manager_class.splits if_splits)

lemma cm_add_class: "cm_add c m = Inr m' \<Longrightarrow> cm_class m' = cm_class m"
  by (auto simp: cm_add_def split: manager_class.splits if_splits)

lemma cm_add_capacity: "cm_add c m = Inr m' \<Longrightarrow> within_capacity m'"
  by (auto simp: cm_add_def within_capacity_def split: manager_class.splits if_splits)

lemma cm_remove_capacity: "within_capacity m \<Longrightarrow> within_capacity (cm_remove c m)"
  by (auto simp: cm_remove_def within_capacity_def split: option.splits
      intro: le_trans[OF length_removeAll_less_eq])

text \<open>Sequences of calls on one container; a call that throws changes nothing.\<close>

datatype 'w child_op = AddChild 'w | RemoveChild 'w

fun run_child_ops :: "'w child_op list \<Rightarrow> 'w children_manager \<Rightarrow> 'w children_manager" where
  "run_child_ops [] m = m"
| "run_child_ops (AddChild c # ops) m =
     run_child_ops ops (case addChild c m of Inl e \<Rightarrow> m | Inr m' \<Rightarrow> m')"
| "run_child_ops (RemoveChild c # ops) m = run_child_ops ops (removeChild False c m)"

definition manager_ok :: "'w children_manager \<Rightarrow> bool" where
  "manager_ok m \<longleftrightarrow> distinct (cm_children m) \<and> within_capacity m"

lemma addChild_manager_ok:
  "manager_ok m \<Longrightarrow> addChild c m = Inr m' \<Longrightarrow> manager_ok m' \<and> cm_class m' = cm_class m"
  unfolding addChild_def manager_ok_def
  by (auto dest: cm.guarded_add_distinct cm_add_capacity cm_add_class split: if_splits)

lemma removeChild_manager_ok:
  "manager_ok m \<Longrightarrow> manager_ok (removeChild b c m) \<and> cm_class (removeChild b c m) = cm_class m"
  using cm.remove_distinct[of m c] cm_remove_capacity[of m c]
  by (auto simp: removeChild_def manager_ok_def cm_remove_def)

lemma run_child_ops_manager_ok:
  "manager_ok m \<Longrightarrow> manager_ok (run_child_ops ops m) \<and> cm_class (run_child_ops ops m) = cm_class m"
proof (induction ops m rule: run_child_ops.induct)
  case (2 c ops m)
  show ?case
  proof (cases "addChild c m")
    case (Inl e)
    then show ?thesis using 2 by simp
  next
    case (Inr m')
    then show ?thesis using 2 addChild_manager_ok[OF 2(2) Inr] by simp
  qed
next
  case (3 c ops m)
  then show ?case
    using removeChild_manager_ok[OF 3(2), of False c] by simp
qed simp

lemma manager_ok_empty: "manager_ok \<lparr>cm_class = k, cm_children = []\<rparr>"
  by (cases k) (simp_all add: manager_ok_def within_capacity_def)

text \<open>
  A widget's children stay pairwise distinct and within what its children manager accepts
  (any number, one, or none), whatever sequence of \<^verbatim>\<open>addChild\<close> and \<^verbatim>\<open>removeChild\<close> calls is made
  on a widget that starts without children.
\<close>

theorem run_child_ops_ok:
  "manager_ok (run_child_ops ops \<lparr>cm_class = k, cm_children = []\<rparr>)
   \<and> cm_class (run_child_ops ops \<lparr>cm_class = k, cm_children = []\<rparr>) = k"
  using run_child_ops_manager_ok[OF manager_ok_empty[of k], of ops] by simp

section \<open>Widgets\<close>

text \<open>
  The data of \<^verbatim>\<open>YAlignment\<close> and the margins and policy of \<^verbatim>\<open>YButtonBox\<close>.
\<close>

record alignment_data =
  al_leftMargin :: int
  al_rightMargin :: int
  al_topMargin :: int
  al_bottomMargin :: int
  al_minWidth :: int
  al_minHeight :: int
  al_alignment :: "YAlignmentType YBothDim"

record YButtonBoxMargins =
  m_left :: int
  m_right :: int
  m_top :: int
  m_bottom :: int
  m_spacing :: int
  m_helpButtonExtraSpacing :: int

text \<open>
  The classes the modelled code tells apart. \<open>ClsSingleChild\<close> stands for the single-child
  containers that inherit the geometry of \<^verbatim>\<open>YSingleChildContainerWidget\<close> unchanged
  (\<^verbatim>\<open>YReplacePoint\<close>, \<^verbatim>\<open>YRadioButtonGroup\<close>, a dialog), \<open>ClsLeaf\<close> for every widget without children
  that the toolkit draws.
\<close>

datatype widget_class =
    ClsDialog
  | ClsLayoutBox YUIDimension
  | ClsAlignment alignment_data
  | ClsButtonBox YButtonBoxMargins bool
  | ClsSpacing YUIDimension int
  | ClsSquash "bool YBothDim"
  | ClsEmpty
  | ClsSingleChild
  | ClsPushButton YButtonRole bool
  | ClsDumbTab "YItem list"
  | ClsItemSelector "YItem list"
  | ClsMenuBar "YItem list"
  | ClsLeaf

text \<open>
  The data members of \<^verbatim>\<open>YWidgetPrivate\<close> the modelled code uses. \<open>w_label\<close> is the shortcut property
  (empty for classes that have none), \<open>w_toolkitSize\<close> the preferred size the toolkit computes for
  the widgets it draws itself.
\<close>

record widget_data =
  w_addr :: nat
  w_class :: widget_class
  w_id :: "string option"
  w_label :: string
  w_enabled :: bool
  w_notify :: bool
  w_notifyContextMenu :: bool
  w_autoShortcut :: bool
  w_functionKey :: int
  w_helpText :: string
  w_stretch :: "bool YBothDim"
  w_weight :: "int YBothDim"
  w_toolkitSize :: "int YBothDim"

datatype YWidget = YWidget (wdata: widget_data) (wchildren: "YWidget list")

definition new_widget_data :: "nat \<Rightarrow> widget_class \<Rightarrow> string \<Rightarrow> int \<Rightarrow> int \<Rightarrow> widget_data" where
  "new_widget_data a cls label width height =
     \<lparr>w_addr = a, w_class = cls, w_id = None, w_label = label, w_enabled = True, w_notify = False,
      w_notifyContextMenu = False, w_autoShortcut = False, w_functionKey = 0, w_helpText = [],
      w_stretch = YBothDim False False, w_weight = YBothDim 0 0,
      w_toolkitSize = YBothDim width height\<rparr>"

definition setStretchable :: "YUIDimension \<Rightarrow> bool \<Rightarrow> 'a widget_data_scheme \<Rightarrow> 'a widget_data_scheme" where
  "setStretchable dim b w = w\<lparr>w_stretch := set_dim dim b (w_stretch w)\<rparr>"

definition setDefaultStretchable :: "YUIDimension \<Rightarrow> bool \<Rightarrow> 'a widget_data_scheme \<Rightarrow> 'a widget_data_scheme" where
  "setDefaultStretchable dim b w =
     w\<lparr>w_stretch := set_dim dim (at_dim (w_stretch w) dim \<or> b) (w_stretch w)\<rparr>"

definition setWeight :: "YUIDimension \<Rightarrow> int \<Rightarrow> 'a widget_data_scheme \<Rightarrow> 'a widget_data_scheme" where
  "setWeight dim n w = w\<lparr>w_weight := set_dim dim n (w_weight w)\<rparr>"

definition weight :: "'a widget_data_scheme \<Rightarrow> YUIDimension \<Rightarrow> int" where
  "weight w dim = at_dim (w_weight w) dim"

definition hasWeight :: "'a widget_data_scheme \<Rightarrow> YUIDimension \<Rightarrow> bool" where
  "hasWeight w dim \<longleftrightarrow> weight w dim > 0"

definition setEnabled :: "bool \<Rightarrow> 'a widget_data_scheme \<Rightarrow> 'a widget_data_scheme" where
  "setEnabled b w = w\<lparr>w_enabled := b\<rparr>"

text \<open>\<^verbatim>\<open>YWidget::debugLabel\<close>; the limit is the \<^verbatim>\<open>MAX_DEBUG_LABEL_LEN\<close> of \<^verbatim>\<open>YWidget.cc\<close>.\<close>

definition widget_MAX_DEBUG_LABEL_LEN :: nat where
  "widget_MAX_DEBUG_LABEL_LEN = 50"

definition widget_debugLabel :: "'a widget_data_scheme \<Rightarrow> string" where
  "widget_debugLabel w =
     (let label = cleanShortcutString (w_label w);
          label' = (if length label > widget_MAX_DEBUG_LABEL_LEN
                    then take widget_MAX_DEBUG_LABEL_LEN label @ ''...'' else label)
      in map (\<lambda>c. if c = CHR 0x0A then CHR '' '' else c) label')"

section \<open>Walking the tree\<close>

text \<open>All widgets below a list of children, each before its own children.\<close>

fun allWidgets :: "YWidget list \<Rightarrow> YWidget list" where
  "allWidgets [] = []"
| "allWidgets (YWidget d cs # ws) = YWidget d cs # allWidgets cs @ allWidgets ws"

fun map_wdata :: "(widget_data \<Rightarrow> widget_data) \<Rightarrow> YWidget list \<Rightarrow> YWidget list" where
  "map_wdata f [] = []"
| "map_wdata f (YWidget d cs # ws) = YWidget (f d) (map_wdata f cs) # map_wdata f ws"

text \<open>
  \<^verbatim>\<open>YWidget::findWidget\<close> for string IDs (\<^verbatim>\<open>YStringWidgetID::isEqual\<close>). The loop over the children
  is \<open>findWidget_list\<close>; the argument \<open>None\<close> is the null ID.
\<close>

fun findWidget_list :: "string \<Rightarrow> YWidget list \<Rightarrow> YWidget option" where
  "findWidget_list i [] = None"
| "findWidget_list i (YWidget d cs # ws) =
     (if w_id d = Some i then Some (YWidget d cs)
      else if cs \<noteq> []
           then (case findWidget_list i cs of Some r \<Rightarrow> Some r | None \<Rightarrow> findWidget_list i ws)
           else findWidget_list i ws)"

definition findWidget :: "string option \<Rightarrow> bool \<Rightarrow> YWidget \<Rightarrow> YWidget option result" where
  "findWidget wid doThrow w =
     (case wid of
        None \<Rightarrow> if doThrow then throw (YUIWidgetNotFoundException ''Null ID'') else return None
      | Some i \<Rightarrow>
          (case findWidget_list i (wchildren w) of
             Some r \<Rightarrow> return (Some r)
           | None \<Rightarrow> if doThrow then throw (YUIWidgetNotFoundException i) else return None))"

text \<open>\<open>set_enabled\<close> is the virtual \<^verbatim>\<open>setEnabled\<close> of the widgets; that of the base class is \<^const>\<open>setEnabled\<close>.\<close>

fun setChildrenEnabled :: "(bool \<Rightarrow> widget_data \<Rightarrow> widget_data) \<Rightarrow> bool \<Rightarrow> YWidget list \<Rightarrow> YWidget list" where
  "setChildrenEnabled set_enabled b [] = []"
| "setChildrenEnabled set_enabled b (YWidget d cs # ws) =
     YWidget (set_enabled b d) (if cs \<noteq> [] then setChildrenEnabled set_enabled b cs else cs)
     # setChildrenEnabled set_enabled b ws"

text \<open>
  \<^verbatim>\<open>YWidget::saveUserInput\<close>: the addresses of the widgets whose user input property is recorded,
  in order; \<open>has_prop\<close> tells which widgets have such a property.
\<close>

fun saveUserInput :: "(widget_data \<Rightarrow> bool) \<Rightarrow> YWidget \<Rightarrow> nat list"
  and saveUserInput_children :: "(widget_data \<Rightarrow> bool) \<Rightarrow> YWidget list \<Rightarrow> nat list" where
  "saveUserInput has_prop (YWidget d cs) =
     (if has_prop d then [w_addr d] else []) @ saveUserInput_children has_prop cs"
| "saveUserInput_children has_prop [] = []"
| "saveUserInput_children has_prop (w # ws) =
     (if wchildren w \<noteq> [] \<or> w_id (wdata w) \<noteq> None then saveUserInput has_prop w else [])
     @ saveUserInput_children has_prop ws"

lemma allWidgets_append [simp]: "allWidgets (xs @ ys) = allWidgets xs @ allWidgets ys"
  by (induction xs rule: allWidgets.induct) simp_all

lemma map_wdata_allWidgets: "map wdata (allWidgets (map_wdata f ws)) = map (f \<circ> wdata) (allWidgets ws)"
  by (induction f ws rule: map_wdata.induct) simp_all

lemma findWidget_list_find:
  "findWidget_list i ws = List.find (\<lambda>w. w_id (wdata w) = Some i) (allWidgets ws)"
  by (induction i ws rule: findWidget_list.induct) (auto simp: find_append split: option.split)

lemma setChildrenEnabled_map: "setChildrenEnabled set_enabled b ws = map_wdata (set_enabled b) ws"
  by (induction set_enabled b ws rule: setChildrenEnabled.induct) auto

text \<open>
  \<^verbatim>\<open>findWidget\<close> returns the first descendant, in depth-first order, that carries the wanted
  ID, and never the widget it is called on; it throws (or returns null, as asked) exactly when no
  descendant carries it.
\<close>

theorem findWidget_first_descendant:
  "findWidget (Some i) doThrow w =
     (case filter (\<lambda>v. w_id (wdata v) = Some i) (allWidgets (wchildren w)) of
        v # _ \<Rightarrow> return (Some v)
      | [] \<Rightarrow> if doThrow then throw (YUIWidgetNotFoundException i) else return None)"
  by (simp add: findWidget_def findWidget_list_find find_filter_hd split: list.split)

text \<open>
  \<^verbatim>\<open>setChildrenEnabled\<close> calls the \<^verbatim>\<open>setEnabled\<close> of every descendant once and changes nothing else.
\<close>

theorem setChildrenEnabled_all:
  "map wdata (allWidgets (setChildrenEnabled set_enabled b ws)) = map (\<lambda>w. set_enabled b (wdata w)) (allWidgets ws)"
  by (simp add: setChildrenEnabled_map map_wdata_allWidgets comp_def)

end
