(* ===== verification/Yui_ShortcutManager.thy ===== *)
theory Yui_ShortcutManager
  imports Yui_Widget
begin

text \<open>
  \<^verbatim>\<open>YShortcutManager.cc\<close>: collecting the shortcuts of a dialog, detecting conflicts, and resolving
  them. The state is threaded through every accessor, since the accessors of \<^verbatim>\<open>YShortcut\<close> fill
  caches. The main results are that a check with automatic resolution leaves no two widgets with
  the same shortcut, changes no label but for its marker, and takes a shortcut away only when all
  its characters are taken.
\<close>

section \<open>State\<close>

text \<open>
  The data members of \<^verbatim>\<open>YShortcutManager\<close>. The arrays are indexed by the character; a pointer into
  \<^verbatim>\<open>_shortcutList\<close> is an index into \<open>sm_shortcutList\<close>.
\<close>

record YShortcutManager =
  sm_shortcutList :: "YShortcut list"
  sm_wanted :: "char \<Rightarrow> int"
  sm_used :: "char \<Rightarrow> bool"
  sm_conflictCount :: int
  sm_didCheck :: bool

definition new_YShortcutManager :: YShortcutManager where
  "new_YShortcutManager =
     \<lparr>sm_shortcutList = [], sm_wanted = (\<lambda>_. 0), sm_used = (\<lambda>_. False), sm_conflictCount = 0,
      sm_didCheck = False\<rparr>"

definition clearShortcutList :: "YShortcutManager \<Rightarrow> YShortcutManager" where
  "clearShortcutList m = m\<lparr>sm_shortcutList := []\<rparr>"

section \<open>Collecting the shortcuts of a dialog\<close>

fun toSelectionWidget :: "widget_class \<Rightarrow> YItem list option" where
  "toSelectionWidget (ClsDumbTab items) = Some items"
| "toSelectionWidget (ClsItemSelector items) = Some items"
| "toSelectionWidget (ClsMenuBar items) = Some items"
| "toSelectionWidget _ = None"

fun is_push_button :: "widget_class \<Rightarrow> bool" where
  "is_push_button (ClsPushButton _ _) = True"
| "is_push_button _ = False"

fun is_wizard_button :: "widget_class \<Rightarrow> bool" where
  "is_wizard_button (ClsPushButton _ wizard) = wizard"
| "is_wizard_button _ = False"

fun is_menu_bar :: "widget_class \<Rightarrow> bool" where
  "is_menu_bar (ClsMenuBar _) = True"
| "is_menu_bar _ = False"

definition widget_shortcut :: "widget_data \<Rightarrow> YShortcut" where
  "widget_shortcut d = new_YShortcut (w_addr d) (w_label d) (w_autoShortcut d)
     (is_push_button (w_class d)) (is_wizard_button (w_class d)) False"

definition item_shortcut :: "widget_data \<Rightarrow> YItem \<Rightarrow> YShortcut" where
  "item_shortcut d item = new_YShortcut (it_id (idata item)) (it_label (idata item))
     (w_autoShortcut d) (is_push_button (w_class d)) (is_wizard_button (w_class d))
     (is_menu_bar (w_class d))"

definition own_shortcuts :: "widget_data \<Rightarrow> YShortcut list" where
  "own_shortcuts d =
     (case toSelectionWidget (w_class d) of
        Some items \<Rightarrow> map (item_shortcut d) items
      | None \<Rightarrow> if w_label d \<noteq> [] then [widget_shortcut d] else [])"

fun findShortcutWidgets :: "YWidget list \<Rightarrow> YShortcut list" where
  "findShortcutWidgets [] = []"
| "findShortcutWidgets (YWidget d cs # ws) =
     own_shortcuts d @ (if cs \<noteq> [] then findShortcutWidgets cs else []) @ findShortcutWidgets ws"

section \<open>Picking the conflict to resolve next\<close>

text \<open>
  The loops run over the indices in the conflict list; \<open>i\<close> is the position in that list. Reading
  \<^verbatim>\<open>distinctShortcutChars()\<close> fills the cache of the element read.
\<close>

definition distinct_at :: "nat \<Rightarrow> YShortcut list \<Rightarrow> int \<times> YShortcut list" where
  "distinct_at j scs = (let (n, s) = distinctShortcutChars (scs ! j) in (n, scs[j := s]))"

fun findShortest_loop ::
  "(YShortcut \<Rightarrow> bool) \<Rightarrow> nat list \<Rightarrow> int \<Rightarrow> int \<Rightarrow> int \<Rightarrow> YShortcut list \<Rightarrow> int \<times> YShortcut list" where
  "findShortest_loop P [] i shortestIndex shortestLen scs = (shortestIndex, scs)"
| "findShortest_loop P (j # js) i shortestIndex shortestLen scs =
     (if P (scs ! j) then
        if shortestLen < 0 then
          let (n, scs1) = distinct_at j scs in findShortest_loop P js (i + 1) i n scs1
        else
          let (n, scs1) = distinct_at j scs
          in if n < shortestLen
             then (let (n', scs2) = distinct_at j scs1 in findShortest_loop P js (i + 1) i n' scs2)
             else findShortest_loop P js (i + 1) shortestIndex shortestLen scs1
      else findShortest_loop P js (i + 1) shortestIndex shortestLen scs)"

definition findShortestMenuItem :: "nat list \<Rightarrow> YShortcut list \<Rightarrow> int \<times> YShortcut list" where
  "findShortestMenuItem conflictList scs = findShortest_loop sc_isMenuItem conflictList 0 (-1) (-1) scs"

definition findShortestWizardButton :: "nat list \<Rightarrow> YShortcut list \<Rightarrow> int \<times> YShortcut list" where
  "findShortestWizardButton conflictList scs =
     findShortest_loop sc_isWizardButton conflictList 0 (-1) (-1) scs"

text \<open>
  \<^verbatim>\<open>findShortestWidget\<close> starts at the first element; \<open>all\<close> is the whole conflict list, in which
  \<open>shortestIndex\<close> is looked up.
\<close>

fun findShortestWidget_loop ::
  "nat list \<Rightarrow> nat list \<Rightarrow> int \<Rightarrow> int \<Rightarrow> int \<Rightarrow> YShortcut list \<Rightarrow> int \<times> YShortcut list" where
  "findShortestWidget_loop all [] i shortestIndex shortestLen scs = (shortestIndex, scs)"
| "findShortestWidget_loop all (j # js) i shortestIndex shortestLen scs =
     (let (currentLen, scs1) = distinct_at j scs
      in if currentLen < shortestLen
         then findShortestWidget_loop all js (i + 1) i currentLen scs1
         else if currentLen = shortestLen
              then if sc_isButton (scs1 ! j) \<and> \<not> sc_isButton (scs1 ! (all ! nat shortestIndex))
                   then findShortestWidget_loop all js (i + 1) i currentLen scs1
                   else findShortestWidget_loop all js (i + 1) shortestIndex shortestLen scs1
              else findShortestWidget_loop all js (i + 1) shortestIndex shortestLen scs1)"

definition findShortestWidget :: "nat list \<Rightarrow> YShortcut list \<Rightarrow> int \<times> YShortcut list" where
  "findShortestWidget conflictList scs =
     (let (shortestLen, scs1) = distinct_at (conflictList ! 0) scs
      in findShortestWidget_loop conflictList (tl conflictList) 1 0 shortestLen scs1)"

definition pickConflictToResolve :: "nat list \<Rightarrow> YShortcut list \<Rightarrow> int \<times> YShortcut list" where
  "pickConflictToResolve conflictList scs =
     (let (prio1, scs1) = findShortestMenuItem conflictList scs
      in if prio1 < 0
         then (let (prio2, scs2) = findShortestWizardButton conflictList scs1
               in if prio2 < 0 then findShortestWidget conflictList scs2 else (prio2, scs2))
         else (prio1, scs1))"

section \<open>Resolving one conflict\<close>

text \<open>The search of \<^verbatim>\<open>resolveConflict\<close> through the clean label for the best free character.\<close>

fun search_candidate :: "(char \<Rightarrow> int) \<Rightarrow> (char \<Rightarrow> bool) \<Rightarrow> char \<Rightarrow> string \<Rightarrow> char" where
  "search_candidate wanted used candidate [] = candidate"
| "search_candidate wanted used candidate (ch # str) =
     (let c = normalized ch
      in if isValid c \<and> \<not> used c
         then if wanted c < wanted candidate \<or> \<not> isValid candidate
              then if wanted c = 0 then c else search_candidate wanted used c str
              else search_candidate wanted used candidate str
         else search_candidate wanted used candidate str)"

definition resolveConflict :: "nat \<Rightarrow> YShortcutManager \<Rightarrow> YShortcutManager" where
  "resolveConflict j m =
     (let (pref, s1) = preferred (sm_shortcutList m ! j);
          (candidate, s2) =
            (if \<not> isValid pref \<or> sm_used m pref
             then (let (str, s) = cleanString s1
                   in (search_candidate (sm_wanted m) (sm_used m) NoShortcut str, s))
             else (pref, s1))
      in if isValid candidate
         then (let (pref', s3) = preferred s2;
                   s4 = (if candidate \<noteq> pref' then setShortcut candidate s3 else s3)
               in m\<lparr>sm_shortcutList := (sm_shortcutList m)[j := setConflict False s4],
                    sm_used := (sm_used m)(candidate := True),
                    sm_conflictCount := sm_conflictCount m - 1\<rparr>)
         else m\<lparr>sm_shortcutList := (sm_shortcutList m)[j := setConflict False (clearShortcut s2)],
                sm_conflictCount := sm_conflictCount m - 1\<rparr>)"

section \<open>Resolving all conflicts\<close>

text \<open>
  The loop of \<^verbatim>\<open>resolveAllConflicts\<close>. Reading or erasing a vector outside its bounds has no
  defined meaning; that case is a value of its own and is proved not to arise.
\<close>

definition erase_at :: "nat \<Rightarrow> 'a list \<Rightarrow> 'a list" where
  "erase_at i xs = take i xs @ drop (Suc i) xs"

lemma length_erase_at: "i < length xs \<Longrightarrow> length (erase_at i xs) < length xs"
  by (simp add: erase_at_def)

function resolve_loop :: "nat list \<Rightarrow> YShortcutManager \<Rightarrow> YShortcutManager result" where
  "resolve_loop conflictList m =
     (if conflictList = [] then return m
      else
        let (prioIndex, scs) = pickConflictToResolve conflictList (sm_shortcutList m)
        in if prioIndex < 0 \<or> int (length conflictList) \<le> prioIndex
           then throw (undefined_behaviour ''conflictList index'')
           else resolve_loop (erase_at (nat prioIndex) conflictList)
                  (resolveConflict (conflictList ! nat prioIndex) (m\<lparr>sm_shortcutList := scs\<rparr>)))"
  by pat_completeness auto
termination
  by (relation "measure (\<lambda>(cs, m). length cs)") (auto intro!: length_erase_at)

declare resolve_loop.simps [simp del]

definition conflict_indices :: "YShortcut list \<Rightarrow> nat list" where
  "conflict_indices scs = filter (\<lambda>i. sc_conflict (scs ! i)) [0..<length scs]"

definition resolveAllConflicts :: "YShortcutManager \<Rightarrow> YShortcutManager result" where
  "resolveAllConflicts m =
     (if \<not> sm_didCheck m then return m
      else
        let conflictList = conflict_indices (sm_shortcutList m)
        in resolve_loop conflictList (m\<lparr>sm_conflictCount := int (length conflictList)\<rparr>))"

section \<open>Checking a dialog\<close>

text \<open>The three loops of \<^verbatim>\<open>checkShortcuts\<close> over the shortcut list.\<close>

fun count_valid :: "YShortcut list \<Rightarrow> int \<times> YShortcut list" where
  "count_valid [] = (0, [])"
| "count_valid (s # scs) =
     (let (v, s1) = hasValidShortcutChar s; (n, scs1) = count_valid scs
      in ((if v then n + 1 else n), s1 # scs1))"

fun count_wanted :: "YShortcut list \<Rightarrow> (char \<Rightarrow> int) \<Rightarrow> (char \<Rightarrow> int) \<times> YShortcut list" where
  "count_wanted [] wanted = (wanted, [])"
| "count_wanted (s # scs) wanted =
     (let (c, s1) = preferred s; (w, scs1) = count_wanted scs (wanted(c := wanted c + 1))
      in (w, s1 # scs1))"

text \<open>One step of the loop that reports errors: the element, and whether it counts as a conflict.\<close>

definition report_one :: "(char \<Rightarrow> int) \<Rightarrow> YShortcut \<Rightarrow> bool \<times> YShortcut" where
  "report_one wanted s =
     (let (pref, s1) = preferred s
      in if isValid pref
         then (let (pref', s2) = preferred s1
               in if wanted pref' > 1 then (True, setConflict True s2) else (False, s2))
         else (let (clean, s2) = cleanString s1
               in if length clean > 0 then (True, setConflict True s2) else (False, s2)))"

fun report_errors ::
  "(char \<Rightarrow> int) \<Rightarrow> YShortcut list \<Rightarrow> (char \<Rightarrow> bool) \<Rightarrow> int \<Rightarrow> (char \<Rightarrow> bool) \<times> int \<times> YShortcut list" where
  "report_errors wanted [] used cnt = (used, cnt, [])"
| "report_errors wanted (s # scs) used cnt =
     (let (conf, s1) = report_one wanted s;
          cnt1 = (if conf then cnt + 1 else cnt);
          (used1, s2) = (if \<not> sc_conflict s1
                         then (let (pref, s') = preferred s1 in (used(pref := True), s'))
                         else (used, s1));
          (used2, cnt2, scs2) = report_errors wanted scs used1 cnt1
      in (used2, cnt2, s2 # scs2))"

definition MIN_VALID_PERCENT :: int where
  "MIN_VALID_PERCENT = 50"

definition checkShortcuts :: "bool \<Rightarrow> YWidget list \<Rightarrow> YShortcutManager \<Rightarrow> YShortcutManager result" where
  "checkShortcuts autoResolve dialogChildren m0 =
     (let m = clearShortcutList m0;
          scs = findShortcutWidgets dialogChildren;
          (validCount, scs1) = count_valid scs;
          validPercent = (if length scs1 > 0 then c_div (100 * validCount) (int (length scs1)) else 0)
      in if validPercent < MIN_VALID_PERCENT then return (m\<lparr>sm_shortcutList := scs1\<rparr>)
         else
           let (wanted, scs2) = count_wanted scs1 (\<lambda>_. 0);
               (used, cnt, scs3) = report_errors wanted scs2 (\<lambda>_. False) 0;
               m1 = m\<lparr>sm_shortcutList := scs3, sm_wanted := wanted, sm_used := used,
                      sm_conflictCount := cnt, sm_didCheck := True\<rparr>
           in if cnt > 0 then (if autoResolve then resolveAllConflicts m1 else return m1)
              else return m1)"

section \<open>Reading fills caches only\<close>

definition cstep :: "YShortcut \<Rightarrow> YShortcut \<Rightarrow> bool" where
  "cstep s' s \<longleftrightarrow> same_sc s' s \<and> (sc_inv s \<longrightarrow> sc_inv s') \<and> (pref_known s \<longrightarrow> pref_known s')"

abbreviation csteps :: "YShortcut list \<Rightarrow> YShortcut list \<Rightarrow> bool" where
  "csteps \<equiv> list_all2 cstep"

definition all_inv :: "YShortcut list \<Rightarrow> bool" where
  "all_inv scs \<longleftrightarrow> (\<forall>s\<in>set scs. sc_inv s)"

lemma cstep_refl [simp]: "cstep s s"
  by (simp add: cstep_def)

lemma cstep_trans: "cstep a b \<Longrightarrow> cstep b c \<Longrightarrow> cstep a c"
  by (auto simp: cstep_def intro: same_sc_trans)

lemma csteps_refl [simp]: "csteps scs scs"
  by (simp add: list_all2_refl)

lemma csteps_trans: "csteps a b \<Longrightarrow> csteps b c \<Longrightarrow> csteps a c"
  by (rule list_all2_trans[OF cstep_trans])

lemma csteps_all_inv: "csteps a b \<Longrightarrow> all_inv b \<Longrightarrow> all_inv a"
  by (auto simp: all_inv_def cstep_def list_all2_conv_all_nth set_conv_nth)

lemma csteps_nth: "csteps a b \<Longrightarrow> j < length b \<Longrightarrow> cstep (a ! j) (b ! j) \<and> length a = length b"
  by (simp add: list_all2_conv_all_nth)

lemma csteps_update: "cstep s (scs ! j) \<Longrightarrow> csteps (scs[j := s]) scs"
  by (cases "j < length scs") (auto simp: list_all2_conv_all_nth nth_list_update list_update_beyond)

lemma cstep_views:
  assumes "cstep s' s"
  shows "sc_label s' = sc_label s" "pref_view s' = pref_view s" "clean_view s' = clean_view s"
    "shortcut_view s' = shortcut_view s" "sc_conflict s' = sc_conflict s" "sc_target s' = sc_target s"
    "sc_isButton s' = sc_isButton s" "sc_isWizardButton s' = sc_isWizardButton s"
    "sc_isMenuItem s' = sc_isMenuItem s"
  using assms same_sc_views[of s' s] by (simp_all add: cstep_def)

lemma cstep_accessors:
  assumes "sc_inv s"
  shows "cstep (snd (preferred s)) s" "cstep (snd (cleanString s)) s"
    "cstep (snd (distinctShortcutChars s)) s" "cstep (snd (hasValidShortcutChar s)) s"
  using assms preferred_ok cleanString_ok distinctShortcutChars_ok hasValidShortcutChar_ok
  by (simp_all add: cstep_def) (simp add: pref_known_def)

lemma distinct_at_ok:
  assumes "all_inv scs" "j < length scs"
  shows "fst (distinct_at j scs) = count_contained (clean_view (scs ! j))"
    "csteps (snd (distinct_at j scs)) scs"
  using assms distinctShortcutChars_ok(1)[of "scs ! j"] cstep_accessors(3)[of "scs ! j"]
  by (auto simp: distinct_at_def all_inv_def split_beta Let_def intro: csteps_update)

section \<open>Which conflict is picked\<close>

text \<open>The loops over what they read: a flag and the number of distinct characters per element.\<close>

fun shortest_flagged :: "(bool \<times> int) list \<Rightarrow> int \<Rightarrow> int \<Rightarrow> int \<Rightarrow> int" where
  "shortest_flagged [] i si sl = si"
| "shortest_flagged ((p, n) # xs) i si sl =
     (if p \<and> (sl < 0 \<or> n < sl) then shortest_flagged xs (i + 1) i n
      else shortest_flagged xs (i + 1) si sl)"

definition len_view :: "YShortcut \<Rightarrow> int" where
  "len_view s = count_contained (clean_view s)"

lemma len_view_nonneg: "0 \<le> len_view s"
  by (simp add: len_view_def count_contained_def)

lemma cstep_len_view: "cstep s' s \<Longrightarrow> len_view s' = len_view s"
  by (simp add: len_view_def cstep_views)

lemma map_csteps:
  assumes "csteps scs' scs" "\<forall>j\<in>set js. j < length scs" "\<And>s' s. cstep s' s \<Longrightarrow> f s' = f s"
  shows "map (\<lambda>j. f (scs' ! j)) js = map (\<lambda>j. f (scs ! j)) js"
  using assms csteps_nth[OF assms(1)] by auto

lemma findShortest_loop_ok:
  assumes P: "\<And>s' s. cstep s' s \<Longrightarrow> P s' = P s"
  shows "all_inv scs \<Longrightarrow> \<forall>j\<in>set js. j < length scs \<Longrightarrow>
     fst (findShortest_loop P js i si sl scs)
       = shortest_flagged (map (\<lambda>j. (P (scs ! j), len_view (scs ! j))) js) i si sl
     \<and> csteps (snd (findShortest_loop P js i si sl scs)) scs"
proof (induction js arbitrary: i si sl scs)
  case (Cons j js)
  let ?d = "distinct_at j scs" and ?e = "distinct_at j (snd (distinct_at j scs))"
  have j: "j < length scs" and js: "\<forall>j\<in>set js. j < length scs" using Cons.prems by auto
  note d = distinct_at_ok[OF Cons.prems(1) j]
  have inv1: "all_inv (snd ?d)" using csteps_all_inv[OF d(2) Cons.prems(1)] .
  have j1: "j < length (snd ?d)" using d(2) j by (simp add: list_all2_lengthD)
  note e = distinct_at_ok[OF inv1 j1]
  have inv2: "all_inv (snd ?e)" using csteps_all_inv[OF e(2) inv1] .
  note step2 = csteps_trans[OF e(2) d(2)]
  have n: "fst ?d = len_view (scs ! j)" "fst ?e = len_view (scs ! j)"
    using d(1) e(1) cstep_views(3)[OF csteps_nth[OF d(2) j, THEN conjunct1]]
    by (simp_all add: len_view_def)
  have f: "(P s', len_view s') = (P s, len_view s)" if "cstep s' s" for s' s
    using that by (simp add: P cstep_len_view)
  have ih: "fst (findShortest_loop P js i' si' sl' scs')
       = shortest_flagged (map (\<lambda>j. (P (scs ! j), len_view (scs ! j))) js) i' si' sl'
     \<and> csteps (snd (findShortest_loop P js i' si' sl' scs')) scs"
    if "csteps scs' scs" "all_inv scs'" for i' si' sl' scs'
  proof -
    have "\<forall>j\<in>set js. j < length scs'" using js list_all2_lengthD[OF that(1)] by simp
    from Cons.IH[OF that(2) this, of i' si' sl']
    have l: "fst (findShortest_loop P js i' si' sl' scs')
         = shortest_flagged (map (\<lambda>j. (P (scs' ! j), len_view (scs' ! j))) js) i' si' sl'"
      and c: "csteps (snd (findShortest_loop P js i' si' sl' scs')) scs'" by auto
    have "map (\<lambda>j. (P (scs' ! j), len_view (scs' ! j))) js
        = map (\<lambda>j. (P (scs ! j), len_view (scs ! j))) js"
      by (rule map_csteps[OF that(1) js, of "\<lambda>s. (P s, len_view s)"]) (rule f)
    then show ?thesis
      using l csteps_trans[OF c that(1)] by (simp only: simp_thms)
  qed
  show ?case
    using ih[OF csteps_refl Cons.prems(1)] ih[OF d(2) inv1] ih[OF step2 inv2]
    by (simp add: split_beta Let_def n)
qed simp

text \<open>What the flagged loop returns: the position of a shortest flagged element.\<close>

definition shortest_at :: "(bool \<times> int) list \<Rightarrow> nat \<Rightarrow> bool" where
  "shortest_at xs k \<longleftrightarrow> k < length xs \<and> fst (xs ! k) \<and> (\<forall>x\<in>set xs. fst x \<longrightarrow> snd (xs ! k) \<le> snd x)"

lemma shortest_at_Cons_Suc:
  "shortest_at xs k \<Longrightarrow> (fst x \<longrightarrow> snd (xs ! k) \<le> snd x) \<Longrightarrow> shortest_at (x # xs) (Suc k)"
  by (simp add: shortest_at_def)

lemma shortest_flagged_bound:
  assumes "\<forall>x\<in>set xs. 0 \<le> snd x" "0 \<le> sl"
  shows "(shortest_flagged xs i si sl = si \<and> (\<forall>x\<in>set xs. fst x \<longrightarrow> sl \<le> snd x)) \<or>
     (\<exists>k. shortest_flagged xs i si sl = i + int k \<and> shortest_at xs k \<and> snd (xs ! k) < sl)"
  using assms
proof (induction xs i si sl rule: shortest_flagged.induct)
  case (2 p n xs i si sl)
  have nn: "\<forall>x\<in>set xs. 0 \<le> snd x" "0 \<le> n" using 2(3) by auto
  show ?case
  proof (cases "p \<and> (sl < 0 \<or> n < sl)")
    case True
    from 2(1)[OF True nn] consider
      (hd) "shortest_flagged xs (i + 1) i n = i" "\<forall>x\<in>set xs. fst x \<longrightarrow> n \<le> snd x"
    | (tl) k where "shortest_flagged xs (i + 1) i n = i + 1 + int k" "shortest_at xs k" "snd (xs ! k) < n"
      by blast
    then show ?thesis
    proof cases
      case hd
      then have "shortest_at ((p, n) # xs) 0" using True by (simp add: shortest_at_def)
      then show ?thesis using hd True 2(4) by (intro disjI2 exI[of _ 0]) simp
    next
      case tl
      then show ?thesis
        using True 2(4) by (intro disjI2 exI[of _ "Suc k"]) (simp add: shortest_at_Cons_Suc)
    qed
  next
    case False
    from 2(2)[OF False nn(1) 2(4)] consider
      (hd) "shortest_flagged xs (i + 1) si sl = si" "\<forall>x\<in>set xs. fst x \<longrightarrow> sl \<le> snd x"
    | (tl) k where "shortest_flagged xs (i + 1) si sl = i + 1 + int k" "shortest_at xs k" "snd (xs ! k) < sl"
      by blast
    then show ?thesis
    proof cases
      case hd
      then show ?thesis using False 2(4) by (intro disjI1) auto
    next
      case tl
      then show ?thesis
        using False 2(4) by (intro disjI2 exI[of _ "Suc k"]) (auto simp: shortest_at_Cons_Suc)
    qed
  qed
qed simp

lemma shortest_flagged_spec:
  assumes "\<forall>x\<in>set xs. 0 \<le> snd x"
  shows "(\<not> list_ex fst xs \<and> shortest_flagged xs i (-1) (-1) = -1) \<or>
     (\<exists>k. shortest_flagged xs i (-1) (-1) = i + int k \<and> shortest_at xs k)"
  using assms
proof (induction xs arbitrary: i)
  case (Cons x xs)
  obtain p n where x: "x = (p, n)" by (cases x)
  have nn: "\<forall>x\<in>set xs. 0 \<le> snd x" "0 \<le> n" using Cons.prems x by auto
  show ?case
  proof (cases p)
    case True
    from shortest_flagged_bound[OF nn, of "i + 1" i] consider
      (hd) "shortest_flagged xs (i + 1) i n = i" "\<forall>x\<in>set xs. fst x \<longrightarrow> n \<le> snd x"
    | (tl) k where "shortest_flagged xs (i + 1) i n = i + 1 + int k" "shortest_at xs k" "snd (xs ! k) < n"
      by blast
    then show ?thesis
    proof cases
      case hd
      then show ?thesis using True x by (intro disjI2 exI[of _ 0]) (simp add: shortest_at_def)
    next
      case tl
      then show ?thesis
        using True x by (intro disjI2 exI[of _ "Suc k"]) (simp add: shortest_at_Cons_Suc)
    qed
  next
    case False
    from Cons.IH[OF nn(1), of "i + 1"] consider
      (none) "\<not> list_ex fst xs" "shortest_flagged xs (i + 1) (-1) (-1) = -1"
    | (tl) k where "shortest_flagged xs (i + 1) (-1) (-1) = i + 1 + int k" "shortest_at xs k"
      by blast
    then show ?thesis
    proof cases
      case none
      then show ?thesis using False x by simp
    next
      case tl
      then show ?thesis
        using False x by (intro disjI2 exI[of _ "Suc k"]) (simp add: shortest_at_Cons_Suc)
    qed
  qed
qed simp

text \<open>The loop over all elements, where a button wins a tie against another widget.\<close>

fun shortest_widget :: "(bool \<times> int) list \<Rightarrow> int \<Rightarrow> int \<Rightarrow> bool \<Rightarrow> int \<Rightarrow> int" where
  "shortest_widget [] i si sb sl = si"
| "shortest_widget ((b, n) # xs) i si sb sl =
     (if n < sl \<or> (n = sl \<and> b \<and> \<not> sb) then shortest_widget xs (i + 1) i b n
      else shortest_widget xs (i + 1) si sb sl)"

text \<open>Being at most as long, and a button if of equal length.\<close>

definition preferred_over :: "bool \<times> int \<Rightarrow> bool \<times> int \<Rightarrow> bool" where
  "preferred_over x y \<longleftrightarrow> snd x < snd y \<or> (snd x = snd y \<and> (fst y \<longrightarrow> fst x))"

lemma preferred_over_trans: "preferred_over x y \<Longrightarrow> preferred_over y z \<Longrightarrow> preferred_over x z"
  by (auto simp: preferred_over_def)

lemma preferred_over_total: "\<not> (n < sl \<or> (n = sl \<and> b \<and> \<not> sb)) \<Longrightarrow> preferred_over (sb, sl) (b, n)"
  by (auto simp: preferred_over_def)

lemma shortest_widget_spec:
  "(shortest_widget xs i si sb sl = si \<and> (\<forall>x\<in>set xs. preferred_over (sb, sl) x)) \<or>
   (\<exists>k<length xs. shortest_widget xs i si sb sl = i + int k \<and> preferred_over (xs ! k) (sb, sl)
      \<and> (\<forall>x\<in>set xs. preferred_over (xs ! k) x))"
proof (induction xs i si sb sl rule: shortest_widget.induct)
  case (2 b n xs i si sb sl)
  show ?case
  proof (cases "n < sl \<or> (n = sl \<and> b \<and> \<not> sb)")
    case True
    then have pre: "preferred_over (b, n) (sb, sl)" by (auto simp: preferred_over_def)
    from 2(1)[OF True] consider
      (hd) "shortest_widget xs (i + 1) i b n = i" "\<forall>x\<in>set xs. preferred_over (b, n) x"
    | (tl) k where "k < length xs" "shortest_widget xs (i + 1) i b n = i + 1 + int k"
        "preferred_over (xs ! k) (b, n)" "\<forall>x\<in>set xs. preferred_over (xs ! k) x" by blast
    then show ?thesis
    proof cases
      case hd
      then show ?thesis
        using True pre by (intro disjI2 exI[of _ 0]) (simp add: preferred_over_def)
    next
      case tl
      then show ?thesis
        using True preferred_over_trans[OF tl(3) pre] by (intro disjI2 exI[of _ "Suc k"]) simp
    qed
  next
    case False
    from 2(2)[OF False] consider
      (hd) "shortest_widget xs (i + 1) si sb sl = si" "\<forall>x\<in>set xs. preferred_over (sb, sl) x"
    | (tl) k where "k < length xs" "shortest_widget xs (i + 1) si sb sl = i + 1 + int k"
        "preferred_over (xs ! k) (sb, sl)" "\<forall>x\<in>set xs. preferred_over (xs ! k) x" by blast
    then show ?thesis
    proof cases
      case hd
      then show ?thesis
        using preferred_over_total[OF False] by (intro disjI1) (simp only: shortest_widget.simps
          if_not_P[OF False] list.set ball_simps simp_thms)
    next
      case tl
      then show ?thesis
        using preferred_over_trans[OF tl(3) preferred_over_total[OF False]]
        by (intro disjI2 exI[of _ "Suc k"])
          (simp only: shortest_widget.simps if_not_P[OF False], simp)
    qed
  qed
qed simp

definition button_len :: "YShortcut \<Rightarrow> bool \<times> int" where
  "button_len s = (sc_isButton s, len_view s)"

lemma cstep_button_len: "cstep s' s \<Longrightarrow> button_len s' = button_len s"
  by (simp add: button_len_def cstep_len_view cstep_views)

lemma findShortestWidget_loop_ok:
  assumes "all_inv scs" "\<forall>j\<in>set all. j < length scs" "set js \<subseteq> set all" "0 \<le> si" "0 \<le> i"
    "nat si < length all" "\<forall>k<length js. nat i + k < length all \<and> all ! (nat i + k) = js ! k"
  shows "fst (findShortestWidget_loop all js i si sl scs)
       = shortest_widget (map (\<lambda>j. button_len (scs ! j)) js) i si (sc_isButton (scs ! (all ! nat si))) sl
     \<and> csteps (snd (findShortestWidget_loop all js i si sl scs)) scs"
  using assms
proof (induction js arbitrary: i si sl scs)
  case (Cons j js)
  let ?scs = "snd (distinct_at j scs)"
  have j: "j < length scs" using Cons.prems(2,3) by auto
  note d = distinct_at_ok[OF Cons.prems(1) j]
  have inv: "all_inv ?scs" using csteps_all_inv[OF d(2) Cons.prems(1)] .
  have len: "length ?scs = length scs" using list_all2_lengthD[OF d(2)] .
  have same: "button_len (?scs ! a) = button_len (scs ! a)" if "a \<in> set all" for a
    using csteps_nth[OF d(2)] Cons.prems(2) that cstep_button_len by blast
  then have btn: "sc_isButton (?scs ! a) = sc_isButton (scs ! a)" if "a \<in> set all" for a
    using that by (simp add: button_len_def)
  have si: "all ! nat si \<in> set all" and jall: "j \<in> set all"
    using Cons.prems(3,6) by auto
  have ji: "all ! nat i = j" and il: "nat i < length all" using Cons.prems(7)[rule_format, of 0] by auto
  have i1: "nat (i + 1) = Suc (nat i)" using Cons.prems(5) by simp
  have rest: "\<forall>k<length js. nat (i + 1) + k < length all \<and> all ! (nat (i + 1) + k) = js ! k"
  proof (intro allI impI)
    fix k assume "k < length js"
    with Cons.prems(7)[rule_format, of "Suc k"] show
      "nat (i + 1) + k < length all \<and> all ! (nat (i + 1) + k) = js ! k"
      unfolding i1 by simp
  qed
  have jss: "set js \<subseteq> set all" using Cons.prems(3) by simp
  have m: "map (\<lambda>j. button_len (?scs ! j)) js = map (\<lambda>j. button_len (scs ! j)) js"
    using same jss by auto
  have ih: "fst (findShortestWidget_loop all js (i + 1) si' sl' ?scs)
       = shortest_widget (map (\<lambda>j. button_len (scs ! j)) js) (i + 1) si'
           (sc_isButton (scs ! (all ! nat si'))) sl'
     \<and> csteps (snd (findShortestWidget_loop all js (i + 1) si' sl' ?scs)) scs"
    if si': "0 \<le> si'" "nat si' < length all" for si' sl'
  proof -
    have pre: "\<forall>j\<in>set all. j < length ?scs" using Cons.prems(2) len by simp
    have "all ! nat si' \<in> set all" using si'(2) by simp
    then have "sc_isButton (?scs ! (all ! nat si')) = sc_isButton (scs ! (all ! nat si'))" by (rule btn)
    then show ?thesis
      using Cons.IH[OF inv pre jss si'(1) _ si'(2) rest, of sl'] Cons.prems(5)
        csteps_trans[OF _ d(2)] by (simp only: m)
  qed
  let ?n = "len_view (scs ! j)" and ?b = "sc_isButton (scs ! j)" and ?sb = "sc_isButton (scs ! (all ! nat si))"
  have loop: "findShortestWidget_loop all (j # js) i si sl scs =
      (if ?n < sl \<or> (?n = sl \<and> ?b \<and> \<not> ?sb)
       then findShortestWidget_loop all js (i + 1) i ?n ?scs
       else findShortestWidget_loop all js (i + 1) si sl ?scs)"
    by (simp add: split_beta Let_def d(1) btn[OF si] btn[OF jall] len_view_def)
  show ?case
  proof (cases "?n < sl \<or> (?n = sl \<and> ?b \<and> \<not> ?sb)")
    case True
    have "0 \<le> i" by fact
    from ih[OF this il, of ?n] ji show ?thesis
      unfolding loop list.map button_len_def[of "scs ! j"] shortest_widget.simps if_P[OF True] by simp
  next
    case False
    from ih[OF Cons.prems(4,6), of sl] show ?thesis
      unfolding loop list.map button_len_def[of "scs ! j"] shortest_widget.simps if_not_P[OF False] .
  qed
qed simp

lemma findShortest_flagged_ok:
  assumes "all_inv scs" "\<forall>j\<in>set cl. j < length scs" "\<And>s' s. cstep s' s \<Longrightarrow> P s' = P s"
  defines "r \<equiv> findShortest_loop P cl 0 (-1) (-1) scs"
  shows "csteps (snd r) scs"
    "(fst r = -1 \<and> (\<forall>j\<in>set cl. \<not> P (scs ! j))) \<or>
     (\<exists>k<length cl. fst r = int k \<and> P (scs ! (cl ! k))
        \<and> (\<forall>j\<in>set cl. P (scs ! j) \<longrightarrow> len_view (scs ! (cl ! k)) \<le> len_view (scs ! j)))"
proof -
  let ?xs = "map (\<lambda>j. (P (scs ! j), len_view (scs ! j))) cl"
  from findShortest_loop_ok[OF assms(3,1,2)]
  have r: "fst r = shortest_flagged ?xs 0 (-1) (-1)" "csteps (snd r) scs" by (simp_all add: r_def)
  show "csteps (snd r) scs" by (rule r(2))
  have "\<forall>x\<in>set ?xs. 0 \<le> snd x" using len_view_nonneg by auto
  from shortest_flagged_spec[OF this, of 0] show
    "(fst r = -1 \<and> (\<forall>j\<in>set cl. \<not> P (scs ! j))) \<or>
     (\<exists>k<length cl. fst r = int k \<and> P (scs ! (cl ! k))
        \<and> (\<forall>j\<in>set cl. P (scs ! j) \<longrightarrow> len_view (scs ! (cl ! k)) \<le> len_view (scs ! j)))"
    unfolding r(1) by (auto simp: list_ex_iff shortest_at_def)
qed

lemma findShortestWidget_ok:
  assumes "all_inv scs" "\<forall>j\<in>set cl. j < length scs" "cl \<noteq> []"
  shows "csteps (snd (findShortestWidget cl scs)) scs"
    "\<exists>k<length cl. fst (findShortestWidget cl scs) = int k
       \<and> (\<forall>j\<in>set cl. preferred_over (button_len (scs ! (cl ! k))) (button_len (scs ! j)))"
proof -
  obtain c cs where cl: "cl = c # cs" using assms(3) by (cases cl) auto
  let ?scs = "snd (distinct_at c scs)" and ?xs = "map (\<lambda>j. button_len (scs ! j)) cs"
  have c: "c < length scs" using assms(2) cl by simp
  note d = distinct_at_ok[OF assms(1) c]
  have inv: "all_inv ?scs" using csteps_all_inv[OF d(2) assms(1)] .
  have bl: "button_len (?scs ! j) = button_len (scs ! j)" if "j \<in> set cl" for j
    using csteps_nth[OF d(2)] assms(2) that cstep_button_len by blast
  have m: "map (\<lambda>j. button_len (?scs ! j)) cs = ?xs" using bl cl by auto
  have btn: "sc_isButton (?scs ! c) = sc_isButton (scs ! c)" using bl[of c] cl by (simp add: button_len_def)
  have pre: "\<forall>j\<in>set cl. j < length ?scs" using assms(2) list_all2_lengthD[OF d(2)] by simp
  have fsw: "findShortestWidget cl scs = findShortestWidget_loop cl cs 1 0 (len_view (scs ! c)) ?scs"
    by (simp add: findShortestWidget_def cl split_beta Let_def d(1) len_view_def)
  have "fst (findShortestWidget cl scs) = shortest_widget ?xs 1 0 (sc_isButton (scs ! c)) (len_view (scs ! c))
     \<and> csteps (snd (findShortestWidget cl scs)) ?scs"
    using findShortestWidget_loop_ok[OF inv pre, of cs 0 1] unfolding fsw by (simp add: cl m btn subset_insertI)
  then have f: "fst (findShortestWidget cl scs) = shortest_widget ?xs 1 0 (fst (button_len (scs ! c))) (snd (button_len (scs ! c)))"
    and st: "csteps (snd (findShortestWidget cl scs)) ?scs" by (simp_all add: button_len_def)
  show "csteps (snd (findShortestWidget cl scs)) scs" by (rule csteps_trans[OF st d(2)])
  from shortest_widget_spec[of ?xs 1 0 "fst (button_len (scs ! c))" "snd (button_len (scs ! c))"] consider
    (hd) "fst (findShortestWidget cl scs) = 0" "\<forall>x\<in>set ?xs. preferred_over (button_len (scs ! c)) x"
  | (tl) k where "k < length cs" "fst (findShortestWidget cl scs) = 1 + int k"
      "preferred_over (?xs ! k) (button_len (scs ! c))" "\<forall>x\<in>set ?xs. preferred_over (?xs ! k) x"
    unfolding f by auto
  then show "\<exists>k<length cl. fst (findShortestWidget cl scs) = int k
       \<and> (\<forall>j\<in>set cl. preferred_over (button_len (scs ! (cl ! k))) (button_len (scs ! j)))"
  proof cases
    case hd
    then show ?thesis by (intro exI[of _ 0]) (simp add: cl, simp add: preferred_over_def)
  next
    case tl
    then show ?thesis by (intro exI[of _ "Suc k"]) (simp add: cl)
  qed
qed

text \<open>
  The contract of \<^verbatim>\<open>pickConflictToResolve\<close>: menu items first, then wizard buttons, then anything;
  the shortest among them, and among equally short other widgets a button.
\<close>

definition best_pick :: "nat list \<Rightarrow> YShortcut list \<Rightarrow> nat \<Rightarrow> bool" where
  "best_pick cl scs k \<longleftrightarrow>
     (let s = scs ! (cl ! k); among = (\<lambda>P. filter P (map ((!) scs) cl))
      in if among sc_isMenuItem \<noteq> []
         then sc_isMenuItem s \<and> (\<forall>t\<in>set (among sc_isMenuItem). len_view s \<le> len_view t)
         else if among sc_isWizardButton \<noteq> []
         then sc_isWizardButton s \<and> (\<forall>t\<in>set (among sc_isWizardButton). len_view s \<le> len_view t)
         else (\<forall>t\<in>set (map ((!) scs) cl). preferred_over (button_len s) (button_len t)))"

lemma best_pick_csteps:
  assumes "csteps scs' scs" "\<forall>j\<in>set cl. j < length scs"
  shows "\<forall>j\<in>set cl. sc_isWizardButton (scs' ! j) = sc_isWizardButton (scs ! j)
     \<and> len_view (scs' ! j) = len_view (scs ! j) \<and> button_len (scs' ! j) = button_len (scs ! j)"
  using csteps_nth[OF assms(1)] assms(2) cstep_views(8) cstep_len_view cstep_button_len by blast

lemma pickConflictToResolve_ok:
  assumes "all_inv scs" "\<forall>j\<in>set cl. j < length scs" "cl \<noteq> []"
  shows "csteps (snd (pickConflictToResolve cl scs)) scs"
    "\<exists>k<length cl. fst (pickConflictToResolve cl scs) = int k \<and> best_pick cl scs k"
proof -
  define r1 where "r1 = findShortestMenuItem cl scs"
  define r2 where "r2 = findShortestWizardButton cl (snd r1)"
  note menu = findShortest_flagged_ok[OF assms(1,2), of sc_isMenuItem, OF cstep_views(9),
      folded findShortestMenuItem_def, folded r1_def]
  have inv1: "all_inv (snd r1)" using csteps_all_inv[OF menu(1) assms(1)] .
  have len1: "\<forall>j\<in>set cl. j < length (snd r1)" using assms(2) list_all2_lengthD[OF menu(1)] by simp
  note wiz = findShortest_flagged_ok[OF inv1 len1, of sc_isWizardButton, OF cstep_views(8),
      folded findShortestWizardButton_def, folded r2_def]
  have inv2: "all_inv (snd r2)" using csteps_all_inv[OF wiz(1) inv1] .
  have len2: "\<forall>j\<in>set cl. j < length (snd r2)" using len1 list_all2_lengthD[OF wiz(1)] by simp
  note any = findShortestWidget_ok[OF inv2 len2 assms(3)]
  have pick: "pickConflictToResolve cl scs =
      (if fst r1 < 0 then (if fst r2 < 0 then findShortestWidget cl (snd r2) else r2) else r1)"
    by (simp add: pickConflictToResolve_def r1_def r2_def split_beta Let_def)
  note c2 = csteps_trans[OF wiz(1) menu(1)]
  show "csteps (snd (pickConflictToResolve cl scs)) scs"
    unfolding pick using menu(1) c2 csteps_trans[OF any(1) c2] by simp
  note same1 = best_pick_csteps[OF menu(1) assms(2)] and same2 = best_pick_csteps[OF c2 assms(2)]
  from menu(2) consider
    (m) k where "k < length cl" "fst r1 = int k" "sc_isMenuItem (scs ! (cl ! k))"
      "\<forall>j\<in>set cl. sc_isMenuItem (scs ! j) \<longrightarrow> len_view (scs ! (cl ! k)) \<le> len_view (scs ! j)"
  | (no) "fst r1 = -1" "\<forall>j\<in>set cl. \<not> sc_isMenuItem (scs ! j)" by blast
  then show "\<exists>k<length cl. fst (pickConflictToResolve cl scs) = int k \<and> best_pick cl scs k"
  proof cases
    case m
    have "filter sc_isMenuItem (map ((!) scs) cl) \<noteq> []"
      using m(1,3) by (auto simp: filter_empty_conv)
    then show ?thesis
      unfolding pick using m by (intro exI[of _ k]) (auto simp: best_pick_def)
  next
    case no
    then have no_m: "filter sc_isMenuItem (map ((!) scs) cl) = []" by (auto simp: filter_empty_conv)
    from wiz(2) consider
      (w) k where "k < length cl" "fst r2 = int k" "sc_isWizardButton (scs ! (cl ! k))"
        "\<forall>j\<in>set cl. sc_isWizardButton (scs ! j) \<longrightarrow> len_view (scs ! (cl ! k)) \<le> len_view (scs ! j)"
    | (nw) "fst r2 = -1" "\<forall>j\<in>set cl. \<not> sc_isWizardButton (scs ! j)"
      using same1 by (metis nth_mem)
    then show ?thesis
    proof cases
      case w
      have "filter sc_isWizardButton (map ((!) scs) cl) \<noteq> []"
        using w(1,3) by (auto simp: filter_empty_conv)
      then show ?thesis
        unfolding pick using w no(1) no_m by (intro exI[of _ k]) (auto simp: best_pick_def)
    next
      case nw
      then have no_w: "filter sc_isWizardButton (map ((!) scs) cl) = []" by (auto simp: filter_empty_conv)
      from any(2) obtain k where k: "k < length cl" "fst (findShortestWidget cl (snd r2)) = int k"
        "\<forall>j\<in>set cl. preferred_over (button_len (snd r2 ! (cl ! k))) (button_len (snd r2 ! j))" by blast
      have "\<forall>j\<in>set cl. preferred_over (button_len (scs ! (cl ! k))) (button_len (scs ! j))"
        using k(1,3) same2 by (metis nth_mem)
      then show ?thesis
        unfolding pick using k(1,2) no nw no_m no_w by (intro exI[of _ k]) (simp add: best_pick_def)
    qed
  qed
qed

section \<open>What resolving one conflict does\<close>

text \<open>
  The search never returns a used character, and returns no valid one only if every valid
  character of the string is used.
\<close>

definition free_char :: "(char \<Rightarrow> bool) \<Rightarrow> string \<Rightarrow> char \<Rightarrow> bool" where
  "free_char used str c \<longleftrightarrow> isValid c \<and> \<not> used c \<and> c \<in> normalized ` set str"

lemma search_candidate_valid:
  "isValid cand \<Longrightarrow> search_candidate wanted used cand str = cand
     \<or> free_char used str (search_candidate wanted used cand str)"
proof (induction wanted used cand str rule: search_candidate.induct)
  case (2 wanted used cand ch str)
  then show ?case by (simp add: Let_def free_char_def) (metis isValid_normalized_iff)
qed simp

lemma search_candidate_free:
  assumes "\<not> isValid cand" "isValid (search_candidate wanted used cand str)"
  shows "free_char used str (search_candidate wanted used cand str)"
  using assms
proof (induction wanted used cand str rule: search_candidate.induct)
  case (2 wanted used cand ch str)
  let ?c = "normalized ch"
  show ?case
  proof (cases "isValid ?c \<and> \<not> used ?c")
    case True
    then have c: "free_char used (ch # str) ?c" by (simp add: free_char_def)
    have mono: "free_char used str x \<Longrightarrow> free_char used (ch # str) x" for x
      by (auto simp: free_char_def)
    show ?thesis
      using True 2(4) c mono search_candidate_valid[of ?c wanted used str] by (auto simp: Let_def)
  next
    case False
    then show ?thesis using 2 by (auto simp: Let_def free_char_def)
  qed
qed simp

lemma search_candidate_none:
  "\<not> isValid (search_candidate wanted used cand str) \<Longrightarrow> \<not> free_char used str c"
proof (induction wanted used cand str rule: search_candidate.induct)
  case (2 wanted used cand ch str)
  let ?c = "normalized ch"
  have keep: "isValid (search_candidate wanted used x str)" if "isValid x" for x
    using search_candidate_valid[OF that, of wanted used str] that by (auto simp: free_char_def)
  show ?case
  proof (cases "isValid ?c \<and> \<not> used ?c")
    case True
    then show ?thesis using 2(4) keep by (auto simp: Let_def split: if_splits)
  next
    case False
    then show ?thesis using 2 by (auto simp: Let_def free_char_def)
  qed
qed (simp add: free_char_def)

lemma free_char_normalized: "free_char used str c \<Longrightarrow> normalized c = c"
  by (auto simp: free_char_def)

text \<open>
  The character a conflict is resolved to: the preferred one if nobody uses it yet, else the
  outcome of the search.
\<close>

definition resolution :: "YShortcutManager \<Rightarrow> YShortcut \<Rightarrow> char" where
  "resolution m s =
     (if \<not> isValid (pref_view s) \<or> sm_used m (pref_view s)
      then search_candidate (sm_wanted m) (sm_used m) NoShortcut (clean_view s)
      else pref_view s)"

definition ready :: "YShortcut \<Rightarrow> bool" where
  "ready s \<longleftrightarrow> sc_inv s \<and> pref_known s"

lemma resolution_cases:
  obtains (own) "resolution m s = pref_view s" "isValid (pref_view s)" "\<not> sm_used m (pref_view s)"
  | (found) "isValid (resolution m s)" "free_char (sm_used m) (clean_view s) (resolution m s)"
  | (none) "\<not> isValid (resolution m s)" "\<forall>c. \<not> free_char (sm_used m) (clean_view s) c"
proof (cases "\<not> isValid (pref_view s) \<or> sm_used m (pref_view s)")
  case True
  then have r: "resolution m s = search_candidate (sm_wanted m) (sm_used m) NoShortcut (clean_view s)"
    by (simp add: resolution_def)
  show ?thesis
  proof (cases "isValid (resolution m s)")
    case valid: True
    show ?thesis
      by (rule found[OF valid], unfold r, rule search_candidate_free) (use valid r in simp_all)
  next
    case False
    show ?thesis
      by (rule none[OF False], intro allI, rule search_candidate_none) (use False r in simp)
  qed
next
  case False
  then show ?thesis by (intro own) (simp_all add: resolution_def)
qed

lemma resolution_free: "isValid (resolution m s) \<Longrightarrow> \<not> sm_used m (resolution m s)"
  by (cases rule: resolution_cases[of m s]) (simp_all add: free_char_def)

lemma resolution_none:
  "\<not> isValid (resolution m s) \<Longrightarrow> \<not> free_char (sm_used m) (clean_view s) c"
  by (cases rule: resolution_cases[of m s]) simp_all

lemma resolution_spelled:
  assumes "isValid (resolution m s)" "resolution m s \<noteq> pref_view s"
  shows "resolution m s \<in> normalized ` set (clean_view s)" "normalized (resolution m s) = resolution m s"
proof -
  have f: "free_char (sm_used m) (clean_view s) (resolution m s)"
    using assms by (cases rule: resolution_cases[of m s]) simp_all
  then show "resolution m s \<in> normalized ` set (clean_view s)" by (simp add: free_char_def)
  show "normalized (resolution m s) = resolution m s" by (rule free_char_normalized[OF f])
qed

lemma cstep_ready: "cstep s' s \<Longrightarrow> ready s \<Longrightarrow> ready s'"
  by (simp add: cstep_def ready_def)

text \<open>The element and the manager after \<^verbatim>\<open>resolveConflict\<close>.\<close>

definition resolved :: "YShortcut \<Rightarrow> char \<Rightarrow> YShortcut \<Rightarrow> bool" where
  "resolved s c s' \<longleftrightarrow> ready s' \<and> \<not> sc_conflict s' \<and> clean_view s' = clean_view s
     \<and> pref_view s' = pref_view s \<and> sc_target s' = sc_target s
     \<and> label_shortcut (sc_label s') = (if isValid c then c else NoShortcut)
     \<and> (c = pref_view s \<and> isValid c \<longrightarrow> sc_label s' = sc_label s)"

lemma resolveConflict_ok:
  assumes "ready (sm_shortcutList m ! j)"
    "label_shortcut (sc_label (sm_shortcutList m ! j)) = pref_view (sm_shortcutList m ! j)"
  defines "s \<equiv> sm_shortcutList m ! j"
  shows "\<exists>s'. resolved s (resolution m s) s' \<and>
     resolveConflict j m = m\<lparr>sm_shortcutList := (sm_shortcutList m)[j := s'],
       sm_used := (if isValid (resolution m s) then (sm_used m)(resolution m s := True) else sm_used m),
       sm_conflictCount := sm_conflictCount m - 1\<rparr>"
proof -
  let ?s1 = "snd (preferred s)" and ?c = "resolution m s"
  have inv: "sc_inv s" and known: "pref_known s" using assms(1) by (auto simp: ready_def s_def)
  have lab: "label_shortcut (sc_label s) = pref_view s" using assms(2) by (simp add: s_def)
  define s2 where "s2 = (if \<not> isValid (pref_view s) \<or> sm_used m (pref_view s) then snd (cleanString ?s1) else ?s1)"
  have c1: "cstep ?s1 s" using cstep_accessors(1)[OF inv] .
  have inv1: "sc_inv ?s1" using c1 inv by (simp add: cstep_def)
  have c2: "cstep s2 s"
    using c1 cstep_trans[OF cstep_accessors(2)[OF inv1] c1] by (simp add: s2_def)
  note v2 = cstep_views[OF c2]
  have r2: "ready s2" using cstep_ready[OF c2] inv known by (simp add: ready_def)
  then have inv2: "sc_inv s2" and known2: "pref_known s2" by (auto simp: ready_def)
  have pair: "(if \<not> isValid (pref_view s) \<or> sm_used m (pref_view s)
      then (search_candidate (sm_wanted m) (sm_used m) NoShortcut (fst (cleanString ?s1)), snd (cleanString ?s1))
      else (pref_view s, ?s1)) = (?c, s2)"
    using cleanString_ok(1)[OF inv1] cstep_views(3)[OF c1] by (simp add: s2_def resolution_def)
  define s3 where "s3 = snd (preferred s2)"
  have c3: "cstep s3 s" unfolding s3_def by (rule cstep_trans[OF cstep_accessors(1)[OF inv2] c2])
  note v3 = cstep_views[OF c3]
  have r3: "ready s3" using cstep_ready[OF c3] inv known by (simp add: ready_def)
  have p3: "fst (preferred s2) = pref_view s" using preferred_ok(1)[OF inv2] v2(2) by simp
  define s4 where "s4 = (if isValid ?c then (if ?c \<noteq> pref_view s then setShortcut ?c s3 else s3) else clearShortcut s2)"
  have eq: "resolveConflict j m = m\<lparr>sm_shortcutList := (sm_shortcutList m)[j := setConflict False s4],
       sm_used := (if isValid ?c then (sm_used m)(?c := True) else sm_used m),
       sm_conflictCount := sm_conflictCount m - 1\<rparr>"
    unfolding resolveConflict_def s_def[symmetric] Let_def split_beta preferred_ok(1)[OF inv] pair
      fst_conv snd_conv p3 s3_def[symmetric] s4_def
    by (cases "isValid ?c") simp_all
  have "resolved s ?c (setConflict False s4)"
  proof (cases "isValid ?c")
    case False
    show ?thesis
      using clearShortcut_ok[OF inv2 known2] False v2
      by (simp add: resolved_def ready_def s4_def)
  next
    case True
    show ?thesis
    proof (cases "?c = pref_view s")
      case eqp: True
      then show ?thesis using True r3 v3 lab by (simp add: resolved_def ready_def s4_def)
    next
      case False
      note sp = resolution_spelled[OF True False]
      have "?c \<in> normalized ` set (clean_view s3)" using sp(1) v3(3) by simp
      note set = setShortcut_ok[OF _ _ True sp(2) this]
      show ?thesis
        using set r3 True False v3 by (simp add: resolved_def ready_def s4_def)
    qed
  qed
  with eq show ?thesis by blast
qed

section \<open>The invariant of the resolving loop\<close>

definition shortcut_of :: "YShortcut \<Rightarrow> char" where
  "shortcut_of s = label_shortcut (sc_label s)"

text \<open>
  Against the list \<open>old\<close> at the start of the loop: nothing but markers has changed, and nothing at
  all where there was no conflict.
\<close>

definition frame_inv :: "YShortcut list \<Rightarrow> YShortcut list \<Rightarrow> bool" where
  "frame_inv old scs \<longleftrightarrow> length scs = length old \<and>
     (\<forall>i<length old. ready (scs ! i) \<and> clean_view (scs ! i) = clean_view (old ! i)
        \<and> sc_target (scs ! i) = sc_target (old ! i)
        \<and> (\<not> sc_conflict (old ! i) \<longrightarrow> sc_label (scs ! i) = sc_label (old ! i)))"

text \<open>The conflict list holds exactly the elements in conflict, still with their own shortcut.\<close>

definition conf_inv :: "nat list \<Rightarrow> YShortcut list \<Rightarrow> YShortcut list \<Rightarrow> bool" where
  "conf_inv cl old scs \<longleftrightarrow> distinct cl \<and> set cl \<subseteq> {..<length scs} \<and>
     (\<forall>i<length scs. sc_conflict (scs ! i) \<longleftrightarrow> i \<in> set cl) \<and>
     (\<forall>i\<in>set cl. shortcut_of (scs ! i) = pref_view (scs ! i) \<and> sc_conflict (old ! i))"

text \<open>
  The used characters are the shortcuts of the elements outside the conflict list, which have
  different shortcuts, and none unless all their characters are used.
\<close>

definition used_inv :: "nat list \<Rightarrow> YShortcut list \<Rightarrow> (char \<Rightarrow> bool) \<Rightarrow> bool" where
  "used_inv cl scs used \<longleftrightarrow>
     (\<forall>i<length scs. i \<notin> set cl \<and> isValid (shortcut_of (scs ! i)) \<longrightarrow> used (shortcut_of (scs ! i))) \<and>
     (\<forall>c. used c \<and> isValid c \<longrightarrow> (\<exists>i<length scs. i \<notin> set cl \<and> shortcut_of (scs ! i) = c)) \<and>
     (\<forall>i<length scs. \<forall>j<length scs. i \<noteq> j \<and> i \<notin> set cl \<and> j \<notin> set cl \<and> isValid (shortcut_of (scs ! i))
        \<longrightarrow> shortcut_of (scs ! i) \<noteq> shortcut_of (scs ! j)) \<and>
     (\<forall>i<length scs. i \<notin> set cl \<and> \<not> isValid (shortcut_of (scs ! i))
        \<longrightarrow> (\<forall>c. \<not> free_char used (clean_view (scs ! i)) c))"

definition loop_inv :: "YShortcut list \<Rightarrow> nat list \<Rightarrow> YShortcutManager \<Rightarrow> bool" where
  "loop_inv old cl m \<longleftrightarrow> frame_inv old (sm_shortcutList m) \<and> conf_inv cl old (sm_shortcutList m)
     \<and> used_inv cl (sm_shortcutList m) (sm_used m) \<and> sm_conflictCount m = int (length cl)"

lemma cstep_shortcut_of: "cstep s' s \<Longrightarrow> shortcut_of s' = shortcut_of s"
  by (simp add: shortcut_of_def cstep_views)

lemma loop_inv_csteps:
  assumes "loop_inv old cl m" "csteps scs (sm_shortcutList m)"
  shows "loop_inv old cl (m\<lparr>sm_shortcutList := scs\<rparr>)"
proof -
  let ?scs = "sm_shortcutList m"
  have len: "length scs = length ?scs" using assms(2) by (rule list_all2_lengthD)
  have st: "cstep (scs ! i) (?scs ! i)" if "i < length ?scs" for i
    using csteps_nth[OF assms(2) that] by simp
  note v = cstep_views[OF st] cstep_shortcut_of[OF st]
  have f: "frame_inv old scs"
    using assms(1) v cstep_ready[OF st] len by (simp add: loop_inv_def frame_inv_def)
  have c: "conf_inv cl old scs"
    using assms(1) v len by (simp add: loop_inv_def conf_inv_def subset_iff)
  have "used_inv cl scs (sm_used m)"
    using assms(1) len unfolding loop_inv_def used_inv_def by (simp add: v cong: conj_cong)
  with f c assms(1) show ?thesis by (simp add: loop_inv_def)
qed

lemma set_erase_at:
  assumes "distinct xs" "k < length xs"
  shows "set (erase_at k xs) = set xs - {xs ! k}" "distinct (erase_at k xs)"
    "length (erase_at k xs) = length xs - 1"
proof -
  have xs: "xs = take k xs @ xs ! k # drop (Suc k) xs" using assms(2) by (rule id_take_nth_drop)
  have "distinct (take k xs @ xs ! k # drop (Suc k) xs)" using assms(1) xs by simp
  moreover have "set xs = set (take k xs @ xs ! k # drop (Suc k) xs)" using xs by simp
  ultimately show "set (erase_at k xs) = set xs - {xs ! k}" "distinct (erase_at k xs)"
    by (auto simp: erase_at_def)
  show "length (erase_at k xs) = length xs - 1" using assms(2) by (simp add: erase_at_def)
qed

lemma used_inv_resolve:
  assumes inv: "used_inv cl scs used" and j: "j \<in> set cl" "j < length scs"
    and cl': "set cl' = set cl - {j}"
    and s': "shortcut_of s' = (if isValid c then c else NoShortcut)" "clean_view s' = clean_view (scs ! j)"
    and new: "isValid c \<Longrightarrow> \<not> used c"
    and none: "\<not> isValid c \<Longrightarrow> \<forall>d. \<not> free_char used (clean_view (scs ! j)) d"
  defines "used' \<equiv> (if isValid c then used(c := True) else used)"
  shows "used_inv cl' (scs[j := s']) used'"
proof -
  let ?scs = "scs[j := s']"
  have nth: "?scs ! i = (if i = j then s' else scs ! i)" if "i < length scs" for i
    using that by (simp add: nth_list_update)
  have u: "used d \<Longrightarrow> used' d" for d by (simp add: used'_def)
  have mono: "free_char used' str d \<Longrightarrow> free_char used str d" for str d
    using u by (auto simp: free_char_def)
  from inv have
    i1: "\<And>i. i < length scs \<Longrightarrow> i \<notin> set cl \<Longrightarrow> isValid (shortcut_of (scs ! i)) \<Longrightarrow> used (shortcut_of (scs ! i))"
    and i2: "\<And>c. used c \<Longrightarrow> isValid c \<Longrightarrow> \<exists>i<length scs. i \<notin> set cl \<and> shortcut_of (scs ! i) = c"
    and i3: "\<And>i j. i < length scs \<Longrightarrow> j < length scs \<Longrightarrow> i \<noteq> j \<Longrightarrow> i \<notin> set cl \<Longrightarrow> j \<notin> set cl
      \<Longrightarrow> isValid (shortcut_of (scs ! i)) \<Longrightarrow> shortcut_of (scs ! i) \<noteq> shortcut_of (scs ! j)"
    and i4: "\<And>i c. i < length scs \<Longrightarrow> i \<notin> set cl \<Longrightarrow> \<not> isValid (shortcut_of (scs ! i))
      \<Longrightarrow> \<not> free_char used (clean_view (scs ! i)) c"
    unfolding used_inv_def by blast+
  have out: "i \<notin> set cl' \<longleftrightarrow> i = j \<or> i \<notin> set cl" for i using cl' j by auto
  have g1: "used' (shortcut_of (?scs ! i))"
    if "i < length scs" "i \<notin> set cl'" "isValid (shortcut_of (?scs ! i))" for i
  proof (cases "i = j")
    case True
    then show ?thesis using that s'(1) nth by (auto simp: used'_def split: if_splits)
  next
    case False
    then show ?thesis using that i1 u nth out by simp
  qed
  have g2: "\<exists>i<length scs. i \<notin> set cl' \<and> shortcut_of (?scs ! i) = d" if "used' d" "isValid d" for d
  proof (cases "isValid c \<and> d = c")
    case True
    then show ?thesis using j(2) s'(1) nth out by (intro exI[of _ j]) simp
  next
    case False
    then have "used d" using that(1) by (auto simp: used'_def split: if_splits)
    from i2[OF this that(2)] obtain i where "i < length scs" "i \<notin> set cl" "shortcut_of (scs ! i) = d" by blast
    moreover then have "i \<noteq> j" using j(1) by blast
    ultimately show ?thesis using nth out by (intro exI[of _ i]) simp
  qed
  have fresh: "shortcut_of (scs ! i) \<noteq> c" if "i < length scs" "i \<notin> set cl" "isValid c" for i
    using i1[OF that(1,2)] that(3) new by auto
  have g3: "shortcut_of (?scs ! i) \<noteq> shortcut_of (?scs ! k)"
    if "i < length scs" "k < length scs" "i \<noteq> k" "i \<notin> set cl'" "k \<notin> set cl'"
      "isValid (shortcut_of (?scs ! i))" for i k
  proof (cases "i = j")
    case True
    then have "isValid c" "shortcut_of (?scs ! i) = c" "shortcut_of (?scs ! k) = shortcut_of (scs ! k)"
      using that s'(1) nth by (auto split: if_splits)
    then show ?thesis using fresh[of k] that True out by auto
  next
    case False
    then have i: "shortcut_of (?scs ! i) = shortcut_of (scs ! i)" "i \<notin> set cl" using that nth out by auto
    show ?thesis
    proof (cases "k = j")
      case True
      then show ?thesis using fresh[of i] that i s'(1) nth by (auto split: if_splits)
    next
      case False
      then have "shortcut_of (?scs ! k) = shortcut_of (scs ! k)" "k \<notin> set cl"
        using that(2,5) nth out by auto
      then show ?thesis using i3[of i k] that(1-3,6) i by simp
    qed
  qed
  have g4: "\<not> free_char used' (clean_view (?scs ! i)) d"
    if "i < length scs" "i \<notin> set cl'" "\<not> isValid (shortcut_of (?scs ! i))" for i d
  proof (cases "i = j")
    case True
    then have "\<not> isValid c" using that s'(1) nth by (auto split: if_splits)
    then show ?thesis using none mono True s'(2) that(1) nth by auto
  next
    case False
    then show ?thesis using that i4 mono nth out by auto
  qed
  show ?thesis
    unfolding used_inv_def length_list_update using g1 g2 g3 g4 by blast
qed

lemma loop_inv_step:
  assumes inv: "loop_inv old cl m" and k: "k < length cl"
  shows "loop_inv old (erase_at k cl) (resolveConflict (cl ! k) m)"
proof -
  let ?scs = "sm_shortcutList m" and ?j = "cl ! k"
  have fr: "frame_inv old ?scs" and cf: "conf_inv cl old ?scs" and us: "used_inv cl ?scs (sm_used m)"
    and cc: "sm_conflictCount m = int (length cl)" using inv by (auto simp: loop_inv_def)
  have jcl: "?j \<in> set cl" using k by simp
  then have j: "?j < length ?scs" using cf by (auto simp: conf_inv_def)
  let ?s = "?scs ! ?j"
  have ready: "ready ?s" using fr j by (simp add: frame_inv_def)
  have pref: "label_shortcut (sc_label ?s) = pref_view ?s" and oldc: "sc_conflict (old ! ?j)"
    using cf jcl by (auto simp: conf_inv_def shortcut_of_def)
  let ?c = "resolution m ?s"
  obtain s' where r: "resolved ?s ?c s'" and
    m': "resolveConflict ?j m = m\<lparr>sm_shortcutList := ?scs[?j := s'],
       sm_used := (if isValid ?c then (sm_used m)(?c := True) else sm_used m),
       sm_conflictCount := sm_conflictCount m - 1\<rparr>"
    using resolveConflict_ok[OF ready pref] by blast
  have dist: "distinct cl" using cf by (simp add: conf_inv_def)
  note er = set_erase_at[OF dist k]
  have f': "frame_inv old (?scs[?j := s'])"
    using fr r oldc j by (auto simp: frame_inv_def resolved_def nth_list_update)
  have c': "conf_inv (erase_at k cl) old (?scs[?j := s'])"
    using cf r j er by (auto simp: conf_inv_def resolved_def nth_list_update)
  have "used_inv (erase_at k cl) (?scs[?j := s'])
      (if isValid ?c then (sm_used m)(?c := True) else sm_used m)"
    using used_inv_resolve[OF us jcl j er(1), of s' ?c] r resolution_free[of m ?s] resolution_none[of m ?s]
    by (simp add: resolved_def shortcut_of_def)
  with f' c' cc er(3) k show ?thesis
    unfolding m' by (simp add: loop_inv_def of_nat_diff)
qed

lemma resolve_loop_ok:
  "loop_inv old cl m \<Longrightarrow> \<exists>m'. resolve_loop cl m = Inr m' \<and> loop_inv old [] m'"
proof (induction cl m rule: resolve_loop.induct)
  case (1 cl m)
  show ?case
  proof (cases "cl = []")
    case True
    then show ?thesis using 1(2) by (simp add: resolve_loop.simps)
  next
    case False
    let ?p = "pickConflictToResolve cl (sm_shortcutList m)"
    have inv: "all_inv (sm_shortcutList m)"
      using 1(2) by (auto simp: loop_inv_def frame_inv_def all_inv_def ready_def set_conv_nth)
    have ix: "\<forall>j\<in>set cl. j < length (sm_shortcutList m)"
      using 1(2) by (auto simp: loop_inv_def conf_inv_def)
    note pk = pickConflictToResolve_ok[OF inv ix False]
    obtain k where k: "k < length cl" "fst ?p = int k" using pk(2) by blast
    let ?m = "m\<lparr>sm_shortcutList := snd ?p\<rparr>"
    have step: "loop_inv old (erase_at k cl) (resolveConflict (cl ! k) ?m)"
      by (rule loop_inv_step[OF loop_inv_csteps[OF 1(2) pk(1)] k(1)])
    have "resolve_loop cl m = resolve_loop (erase_at k cl) (resolveConflict (cl ! k) ?m)"
      using False k by (subst resolve_loop.simps) (simp add: split_beta Let_def)
    moreover have "\<not> (fst ?p < 0 \<or> int (length cl) \<le> fst ?p)" using k by simp
    from 1(1)[OF False refl prod.collapse this] step k(2)
    have "\<exists>m'. resolve_loop (erase_at k cl) (resolveConflict (cl ! k) ?m) = Inr m' \<and> loop_inv old [] m'"
      by simp
    ultimately show ?thesis by simp
  qed
qed

section \<open>The loops of the check\<close>

lemma count_valid_ok:
  "all_inv scs \<Longrightarrow>
     fst (count_valid scs) = int (length (filter (\<lambda>s. list_ex isValid (clean_view s)) scs))
     \<and> csteps (snd (count_valid scs)) scs"
proof (induction scs)
  case (Cons s scs)
  have inv: "sc_inv s" "all_inv scs" using Cons.prems by (auto simp: all_inv_def)
  show ?case
    using Cons.IH[OF inv(2)] hasValidShortcutChar_ok(1)[OF inv(1)] cstep_accessors(4)[OF inv(1)]
    by (simp add: split_beta Let_def)
qed simp

lemma count_wanted_ok:
  "all_inv scs \<Longrightarrow>
     fst (count_wanted scs w) = (\<lambda>c. w c + int (length (filter (\<lambda>s. pref_view s = c) scs)))
     \<and> csteps (snd (count_wanted scs w)) scs \<and> (\<forall>s\<in>set (snd (count_wanted scs w)). pref_known s)"
proof (induction scs arbitrary: w)
  case (Cons s scs)
  have inv: "sc_inv s" "all_inv scs" using Cons.prems by (auto simp: all_inv_def)
  define w' where "w' = w(pref_view s := w (pref_view s) + 1)"
  have f: "(\<lambda>c. w' c + int (length (filter (\<lambda>s. pref_view s = c) scs)))
      = (\<lambda>c. w c + int (length (filter (\<lambda>s. pref_view s = c) (s # scs))))"
    by (rule ext) (simp add: w'_def)
  have eq: "count_wanted (s # scs) w = (fst (count_wanted scs w'), snd (preferred s) # snd (count_wanted scs w'))"
    by (simp add: split_beta Let_def preferred_ok(1)[OF inv(1)] w'_def)
  show ?case
    unfolding eq using Cons.IH[OF inv(2), of w'] cstep_accessors(1)[OF inv(1)]
    by (simp add: f del: filter.simps)
qed simp

text \<open>Whether the loop that reports errors marks an element.\<close>

definition conf_view :: "(char \<Rightarrow> int) \<Rightarrow> YShortcut \<Rightarrow> bool" where
  "conf_view wanted s =
     (if isValid (pref_view s) then wanted (pref_view s) > 1 else clean_view s \<noteq> [])"

definition reported :: "(char \<Rightarrow> int) \<Rightarrow> YShortcut \<Rightarrow> YShortcut \<Rightarrow> bool" where
  "reported wanted s' s \<longleftrightarrow> ready s' \<and> sc_label s' = sc_label s \<and> pref_view s' = pref_view s
     \<and> sc_target s' = sc_target s \<and> sc_conflict s' = conf_view wanted s"

lemma cstep_reported: "cstep s'' s' \<Longrightarrow> reported wanted s' s \<Longrightarrow> reported wanted s'' s"
  using cstep_views[of s'' s'] cstep_ready[of s'' s'] by (simp add: reported_def)

lemma report_one_ok:
  assumes "ready s" "\<not> sc_conflict s"
  shows "fst (report_one wanted s) = conf_view wanted s" "reported wanted (snd (report_one wanted s)) s"
proof -
  have inv: "sc_inv s" using assms(1) by (simp add: ready_def)
  let ?s1 = "snd (preferred s)"
  have c1: "cstep ?s1 s" by (rule cstep_accessors(1)[OF inv])
  have inv1: "sc_inv ?s1" using c1 inv by (simp add: cstep_def)
  have c2: "cstep (snd (preferred ?s1)) s" by (rule cstep_trans[OF cstep_accessors(1)[OF inv1] c1])
  have c3: "cstep (snd (cleanString ?s1)) s" by (rule cstep_trans[OF cstep_accessors(2)[OF inv1] c1])
  have p: "fst (preferred ?s1) = pref_view s" "fst (cleanString ?s1) = clean_view s"
    using preferred_ok(1)[OF inv1] cleanString_ok(1)[OF inv1] cstep_views[OF c1] by simp_all
  have rep: "report_one wanted s =
     (if isValid (pref_view s)
      then (if wanted (pref_view s) > 1 then (True, setConflict True (snd (preferred ?s1)))
            else (False, snd (preferred ?s1)))
      else (if clean_view s \<noteq> [] then (True, setConflict True (snd (cleanString ?s1)))
            else (False, snd (cleanString ?s1))))"
    unfolding report_one_def split_beta Let_def preferred_ok(1)[OF inv] p by simp
  show "fst (report_one wanted s) = conf_view wanted s"
    unfolding rep by (simp add: conf_view_def)
  have "reported wanted (setConflict (conf_view wanted s) t) s" "\<not> conf_view wanted s \<Longrightarrow> reported wanted t s"
    if "cstep t s" for t
    using cstep_views[OF that] cstep_ready[OF that assms(1)] assms(2)
    by (simp_all add: reported_def ready_def)
  from this[OF c2] this[OF c3] show "reported wanted (snd (report_one wanted s)) s"
    unfolding rep by (auto simp: conf_view_def split: if_splits)
qed

lemma report_errors_ok:
  "\<forall>s\<in>set scs. ready s \<and> \<not> sc_conflict s \<Longrightarrow>
     list_all2 (reported wanted) (snd (snd (report_errors wanted scs used cnt))) scs
     \<and> fst (report_errors wanted scs used cnt)
         = (\<lambda>c. used c \<or> (\<exists>s\<in>set scs. \<not> conf_view wanted s \<and> pref_view s = c))
     \<and> fst (snd (report_errors wanted scs used cnt))
         = cnt + int (length (filter (conf_view wanted) scs))"
proof (induction scs arbitrary: used cnt)
  case (Cons s scs)
  let ?s1 = "snd (report_one wanted s)"
  note r1 = report_one_ok[of s wanted]
  have ok: "fst (report_one wanted s) = conf_view wanted s" "reported wanted ?s1 s"
    using r1 Cons.prems by auto
  then have conf: "sc_conflict ?s1 = conf_view wanted s" and inv1: "sc_inv ?s1"
    and pv: "pref_view ?s1 = pref_view s" by (auto simp: reported_def ready_def)
  note rep2 = cstep_reported[OF cstep_accessors(1)[OF inv1] ok(2)]
  define used1 where "used1 = (if conf_view wanted s then used else used(pref_view s := True))"
  define s2 where "s2 = (if conf_view wanted s then ?s1 else snd (preferred ?s1))"
  let ?rest = "report_errors wanted scs used1 (if conf_view wanted s then cnt + 1 else cnt)"
  have "report_errors wanted (s # scs) used cnt = (fst ?rest, fst (snd ?rest), s2 # snd (snd ?rest))"
    using preferred_ok(1)[OF inv1] pv
    by (simp add: split_beta Let_def ok(1) conf used1_def s2_def)
  moreover have "reported wanted s2 s" using ok(2) rep2 by (simp add: s2_def)
  moreover note Cons.IH[of used1 "if conf_view wanted s then cnt + 1 else cnt"] Cons.prems
  ultimately show ?case by (auto simp: used1_def)
qed simp

section \<open>The invariant holds when resolving starts\<close>

lemma fresh_shortcuts:
  "\<forall>s\<in>set (findShortcutWidgets ws). sc_inv s \<and> \<not> sc_conflict s \<and> shortcut_of s = pref_view s"
proof -
  have new: "sc_inv (new_YShortcut t l a b w m) \<and> \<not> sc_conflict (new_YShortcut t l a b w m)
      \<and> shortcut_of (new_YShortcut t l a b w m) = pref_view (new_YShortcut t l a b w m)" for t l a b w m
    using new_YShortcut_inv by (simp add: new_YShortcut_def shortcut_of_def pref_view_def)
  have own: "\<forall>s\<in>set (own_shortcuts d). sc_inv s \<and> \<not> sc_conflict s \<and> shortcut_of s = pref_view s" for d
    using new by (auto simp: own_shortcuts_def item_shortcut_def widget_shortcut_def split: option.splits)
  show ?thesis
    by (induction ws rule: findShortcutWidgets.induct) (use own in auto)
qed

lemma filter_length_two:
  assumes "i < length xs" "j < length xs" "i \<noteq> j" "P (xs ! i)" "P (xs ! j)"
  shows "1 < length (filter P xs)"
proof -
  have "{i, j} \<subseteq> {k. k < length xs \<and> P (xs ! k)}" using assms by auto
  then have "card {i, j} \<le> card {k. k < length xs \<and> P (xs ! k)}" by (intro card_mono) auto
  then show ?thesis using assms(3) by (simp add: length_filter_conv_card)
qed

lemma report_used_inv:
  assumes rep: "list_all2 (reported wanted) scs' scs"
    and fresh: "\<forall>s\<in>set scs. shortcut_of s = pref_view s"
    and wanted: "wanted = (\<lambda>c. int (length (filter (\<lambda>s. pref_view s = c) scs)))"
    and used: "used = (\<lambda>c. \<exists>s\<in>set scs. \<not> conf_view wanted s \<and> pref_view s = c)"
  shows "used_inv (conflict_indices scs') scs' used"
proof -
  have len: "length scs' = length scs" using rep by (rule list_all2_lengthD)
  have r: "reported wanted (scs' ! i) (scs ! i)" if "i < length scs" for i
    using rep that by (simp add: list_all2_conv_all_nth)
  have ci: "i \<in> set (conflict_indices scs') \<longleftrightarrow> conf_view wanted (scs ! i)" if "i < length scs" for i
    using r[OF that] that len by (simp add: conflict_indices_def reported_def)
  have sh: "shortcut_of (scs' ! i) = pref_view (scs ! i)" if "i < length scs" for i
    using r[OF that] fresh that by (simp add: reported_def shortcut_of_def)
  have cl: "clean_view (scs' ! i) = clean_view (scs ! i)" if "i < length scs" for i
    using r[OF that] by (simp add: reported_def clean_view_def)
  show ?thesis
    unfolding used_inv_def len
  proof (intro conjI allI impI)
    fix i assume "i < length scs" "i \<notin> set (conflict_indices scs') \<and> isValid (shortcut_of (scs' ! i))"
    then show "used (shortcut_of (scs' ! i))" by (auto simp: used sh ci)
  next
    fix c assume "used c \<and> isValid c"
    then obtain i where "i < length scs" "\<not> conf_view wanted (scs ! i)" "pref_view (scs ! i) = c"
      by (auto simp: used in_set_conv_nth)
    then show "\<exists>i<length scs. i \<notin> set (conflict_indices scs') \<and> shortcut_of (scs' ! i) = c"
      using sh ci by blast
  next
    fix i j assume ij: "i < length scs" "j < length scs" "i \<noteq> j \<and> i \<notin> set (conflict_indices scs')
      \<and> j \<notin> set (conflict_indices scs') \<and> isValid (shortcut_of (scs' ! i))"
    then have "wanted (pref_view (scs ! i)) \<le> 1" by (auto simp: conf_view_def sh ci split: if_splits)
    then show "shortcut_of (scs' ! i) \<noteq> shortcut_of (scs' ! j)"
      using filter_length_two[of i scs j "\<lambda>s. pref_view s = pref_view (scs ! i)"] ij sh
      by (auto simp: wanted)
  next
    fix i c assume "i < length scs"
      "i \<notin> set (conflict_indices scs') \<and> \<not> isValid (shortcut_of (scs' ! i))"
    then show "\<not> free_char used (clean_view (scs' ! i)) c"
      using sh ci cl by (auto simp: conf_view_def free_char_def)
  qed
qed

lemma report_loop_inv:
  assumes rep: "list_all2 (reported wanted) scs' scs"
    and fresh: "\<forall>s\<in>set scs. shortcut_of s = pref_view s"
    and wanted: "wanted = (\<lambda>c. int (length (filter (\<lambda>s. pref_view s = c) scs)))"
    and used: "used = (\<lambda>c. \<exists>s\<in>set scs. \<not> conf_view wanted s \<and> pref_view s = c)"
    and m: "sm_shortcutList m = scs'" "sm_used m = used"
      "sm_conflictCount m = int (length (conflict_indices scs'))"
  shows "loop_inv scs' (conflict_indices scs') m"
proof -
  have len: "length scs' = length scs" using rep by (rule list_all2_lengthD)
  have r: "reported wanted (scs' ! i) (scs ! i)" if "i < length scs'" for i
    using rep that by (simp add: list_all2_conv_all_nth)
  have "frame_inv scs' scs'"
    using r by (simp add: frame_inv_def reported_def)
  moreover have "shortcut_of (scs' ! i) = pref_view (scs' ! i)" if "i < length scs'" for i
    using r[OF that] fresh that len by (simp add: reported_def shortcut_of_def)
  then have "conf_inv (conflict_indices scs') scs' scs'"
    by (auto simp: conf_inv_def conflict_indices_def)
  ultimately show ?thesis
    using report_used_inv[OF rep fresh wanted used] m by (simp add: loop_inv_def)
qed

section \<open>The check as a whole\<close>

text \<open>The labels of a dialog that may carry a shortcut, in the order the manager visits them.\<close>

definition dialog_labels :: "YWidget list \<Rightarrow> string list" where
  "dialog_labels ws = map sc_label (findShortcutWidgets ws)"

text \<open>At least half of the labels have a character that can be a shortcut.\<close>

definition enough_valid :: "YWidget list \<Rightarrow> bool" where
  "enough_valid ws \<longleftrightarrow> dialog_labels ws \<noteq> [] \<and>
     length (dialog_labels ws) \<le> 2 * length (filter (\<lambda>l. list_ex isValid (unmark l)) (dialog_labels ws))"

lemma valid_percent_iff:
  assumes "scs = findShortcutWidgets ws"
  shows "(if length (snd (count_valid scs)) > 0
          then c_div (100 * fst (count_valid scs)) (int (length (snd (count_valid scs)))) else 0)
         < MIN_VALID_PERCENT \<longleftrightarrow> \<not> enough_valid ws"
proof -
  have inv: "all_inv scs" using fresh_shortcuts[of ws] assms by (auto simp: all_inv_def)
  note cv = count_valid_ok[OF inv]
  let ?v = "length (filter (\<lambda>s. list_ex isValid (clean_view s)) scs)" and ?n = "length scs"
  have len: "length (snd (count_valid scs)) = ?n" by (rule list_all2_lengthD[OF cv[THEN conjunct2]])
  have e: "enough_valid ws \<longleftrightarrow> scs \<noteq> [] \<and> ?n \<le> 2 * ?v"
    by (simp add: enough_valid_def dialog_labels_def assms filter_map comp_def clean_view_def)
  have "c_div (100 * int ?v) (int ?n) < 50 \<longleftrightarrow> 2 * ?v < ?n" if "scs \<noteq> []"
  proof -
    have "c_div (100 * int ?v) (int ?n) = int ((100 * ?v) div ?n)"
      using that by (simp add: c_div_nonneg_eq zdiv_int)
    then show ?thesis
      using that div_less_iff_less_mult[of ?n "100 * ?v" 50] by auto
  qed
  then show ?thesis
    unfolding e len using cv by (auto simp: MIN_VALID_PERCENT_def)
qed

text \<open>What a check with automatic resolution leaves, element by element.\<close>

definition check_post :: "YShortcut list \<Rightarrow> YShortcutManager \<Rightarrow> bool" where
  "check_post scs m \<longleftrightarrow>
     length (sm_shortcutList m) = length scs \<and> sm_conflictCount m = 0 \<and> sm_didCheck m \<and>
     (\<forall>i<length scs. \<not> sc_conflict (sm_shortcutList m ! i)
        \<and> clean_view (sm_shortcutList m ! i) = clean_view (scs ! i)
        \<and> sc_target (sm_shortcutList m ! i) = sc_target (scs ! i)
        \<and> (isValid (shortcut_of (scs ! i)) \<and> (\<forall>j<length scs. j \<noteq> i \<longrightarrow> shortcut_of (scs ! j) \<noteq> shortcut_of (scs ! i))
             \<longrightarrow> sc_label (sm_shortcutList m ! i) = sc_label (scs ! i)))
     \<and> (\<exists>used. used_inv [] (sm_shortcutList m) used)"

lemma resolve_loop_didCheck: "resolve_loop cl m = Inr m' \<Longrightarrow> sm_didCheck m' = sm_didCheck m"
proof (induction cl m rule: resolve_loop.induct)
  case (1 cl m)
  show ?case
  proof (cases "cl = []")
    case True
    then show ?thesis using 1(2) by (simp add: resolve_loop.simps)
  next
    case False
    let ?p = "pickConflictToResolve cl (sm_shortcutList m)"
    have b: "\<not> (fst ?p < 0 \<or> int (length cl) \<le> fst ?p)"
      using 1(2) False by (subst (asm) resolve_loop.simps) (auto simp: split_beta Let_def split: if_splits)
    then have "resolve_loop (erase_at (nat (fst ?p)) cl)
        (resolveConflict (cl ! nat (fst ?p)) (m\<lparr>sm_shortcutList := snd ?p\<rparr>)) = Inr m'"
      using 1(2) False by (subst (asm) resolve_loop.simps) (simp add: split_beta Let_def)
    from 1(1)[OF False refl prod.collapse b this] show ?thesis
      by (simp add: resolveConflict_def split_beta Let_def)
  qed
qed

lemma csteps_map: "csteps a b \<Longrightarrow> (\<And>s' s. cstep s' s \<Longrightarrow> f s' = f s) \<Longrightarrow> map f a = map f b"
  by (induction rule: list_all2_induct) auto

lemma csteps_filter_length:
  assumes "csteps a b" "\<And>s' s. cstep s' s \<Longrightarrow> f s' = f s"
  shows "length (filter (\<lambda>s. P (f s)) a) = length (filter (\<lambda>s. P (f s)) b)"
proof -
  have "length (filter P (map f a)) = length (filter P (map f b))"
    using csteps_map[OF assms] by simp
  then show ?thesis by (simp add: filter_map comp_def)
qed

lemma length_conflict_indices: "length (conflict_indices scs) = length (filter sc_conflict scs)"
proof -
  have "filter sc_conflict scs = filter sc_conflict (map ((!) scs) [0..<length scs])"
    by (simp add: map_nth)
  then show ?thesis by (simp add: conflict_indices_def filter_map comp_def)
qed

lemma reported_conflicts:
  "list_all2 (reported wanted) scs' scs \<Longrightarrow>
     length (filter sc_conflict scs') = length (filter (conf_view wanted) scs)"
  by (induction rule: list_all2_induct) (auto simp: reported_def)

lemma check_post_intro:
  assumes inv: "loop_inv old [] m" and did: "sm_didCheck m"
    and rep: "list_all2 (reported wanted) old scs2" and st: "csteps scs2 scs"
    and fresh: "\<forall>s\<in>set scs. shortcut_of s = pref_view s"
    and wanted: "wanted = (\<lambda>c. int (length (filter (\<lambda>s. pref_view s = c) scs2)))"
  shows "check_post scs m"
proof -
  let ?L = "sm_shortcutList m"
  have fr: "frame_inv old ?L" and cf: "conf_inv [] old ?L" and us: "used_inv [] ?L (sm_used m)"
    and c0: "sm_conflictCount m = 0" using inv by (auto simp: loop_inv_def)
  have len: "length ?L = length scs" "length old = length scs" "length scs2 = length scs"
    using fr list_all2_lengthD[OF rep] list_all2_lengthD[OF st] by (auto simp: frame_inv_def)
  have r: "reported wanted (old ! i) (scs2 ! i)" "cstep (scs2 ! i) (scs ! i)" if "i < length scs" for i
    using rep csteps_nth[OF st that] that len by (auto simp: list_all2_conv_all_nth)
  have keep: "\<not> sc_conflict (old ! i)"
    if i: "i < length scs" and v: "isValid (shortcut_of (scs ! i))"
      and uniq: "\<forall>j<length scs. j \<noteq> i \<longrightarrow> shortcut_of (scs ! j) \<noteq> shortcut_of (scs ! i)" for i
  proof -
    have pv: "pref_view (scs2 ! j) = shortcut_of (scs ! j)" if "j < length scs" for j
      using cstep_views(2)[OF r(2)[OF that]] fresh that by simp
    have "{k. k < length scs2 \<and> pref_view (scs2 ! k) = shortcut_of (scs ! i)} \<subseteq> {i}"
      using uniq pv len by auto
    from card_mono[OF _ this] have "wanted (shortcut_of (scs ! i)) \<le> 1"
      by (simp add: wanted length_filter_conv_card)
    then show ?thesis using r(1)[OF i] pv[OF i] v by (simp add: reported_def conf_view_def)
  qed
  have el: "\<not> sc_conflict (?L ! i) \<and> clean_view (?L ! i) = clean_view (scs ! i)
      \<and> sc_target (?L ! i) = sc_target (scs ! i)
      \<and> (\<not> sc_conflict (old ! i) \<longrightarrow> sc_label (?L ! i) = sc_label (scs ! i))" if "i < length scs" for i
    using fr cf r[OF that] cstep_views[OF r(2)[OF that]] that len
    by (simp add: frame_inv_def conf_inv_def reported_def clean_view_def)
  show ?thesis
    unfolding check_post_def using len c0 did el keep us by blast
qed

text \<open>The list and the counters after the two counting loops.\<close>

definition counted :: "YWidget list \<Rightarrow> (char \<Rightarrow> int) \<times> YShortcut list" where
  "counted ws = count_wanted (snd (count_valid (findShortcutWidgets ws))) (\<lambda>_. 0)"

lemma counted_ok:
  fixes ws
  defines "scs \<equiv> snd (counted ws)"
  shows "csteps scs (findShortcutWidgets ws)"
    "fst (counted ws) = (\<lambda>c. int (length (filter (\<lambda>s. pref_view s = c) scs)))"
    "\<forall>s\<in>set scs. ready s \<and> \<not> sc_conflict s \<and> shortcut_of s = pref_view s"
proof -
  let ?fs = "findShortcutWidgets ws"
  let ?s1 = "snd (count_valid ?fs)"
  have inv: "all_inv ?fs" using fresh_shortcuts by (simp add: all_inv_def)
  have s1: "csteps ?s1 ?fs" using count_valid_ok[OF inv] by simp
  note cw = count_wanted_ok[OF csteps_all_inv[OF s1 inv], of "\<lambda>_. 0", folded counted_def]
  have s2: "csteps scs ?s1" and known: "\<forall>s\<in>set scs. pref_known s" using cw by (simp_all add: scs_def)
  show st: "csteps scs ?fs" by (rule csteps_trans[OF s2 s1])
  show "fst (counted ws) = (\<lambda>c. int (length (filter (\<lambda>s. pref_view s = c) scs)))"
  proof
    fix c
    show "fst (counted ws) c = int (length (filter (\<lambda>s. pref_view s = c) scs))"
      using csteps_filter_length[OF s2, of pref_view "\<lambda>x. x = c", OF cstep_views(2)] cw by simp
  qed
  show "\<forall>s\<in>set scs. ready s \<and> \<not> sc_conflict s \<and> shortcut_of s = pref_view s"
  proof
    fix s assume s: "s \<in> set scs"
    then obtain i where i: "i < length ?fs" "s = scs ! i"
      using list_all2_lengthD[OF st] by (auto simp: in_set_conv_nth)
    then have c: "cstep s (?fs ! i)" using csteps_nth[OF st] by simp
    have "sc_inv (?fs ! i)" "\<not> sc_conflict (?fs ! i)" "shortcut_of (?fs ! i) = pref_view (?fs ! i)"
      using fresh_shortcuts[of ws] i(1) by auto
    then show "ready s \<and> \<not> sc_conflict s \<and> shortcut_of s = pref_view s"
      using known s c cstep_views[OF c] cstep_shortcut_of[OF c] by (simp add: ready_def cstep_def)
  qed
qed

text \<open>The state in which resolving starts.\<close>

definition reported_state :: "YWidget list \<Rightarrow> YShortcutManager \<Rightarrow> YShortcutManager" where
  "reported_state ws m0 =
     (let re = report_errors (fst (counted ws)) (snd (counted ws)) (\<lambda>_. False) 0
      in (clearShortcutList m0)\<lparr>sm_shortcutList := snd (snd re), sm_wanted := fst (counted ws),
           sm_used := fst re, sm_conflictCount := fst (snd re), sm_didCheck := True\<rparr>)"

lemma checkShortcuts_enough:
  assumes "enough_valid ws"
  shows "checkShortcuts autoResolve ws m0 =
     (let m1 = reported_state ws m0
      in if sm_conflictCount m1 > 0 \<and> autoResolve then resolveAllConflicts m1 else return m1)"
proof -
  let ?cv = "count_valid (findShortcutWidgets ws)"
  have "\<not> ((if length (snd ?cv) > 0 then c_div (100 * fst ?cv) (int (length (snd ?cv))) else 0)
      < MIN_VALID_PERCENT)"
    using valid_percent_iff[OF refl] assms by blast
  note ge = if_not_P[OF this]
  show ?thesis
    unfolding checkShortcuts_def Let_def split_beta ge by (simp add: reported_state_def counted_def Let_def)
qed

lemma checkShortcuts_ok:
  assumes "enough_valid ws"
  shows "\<exists>m'. checkShortcuts True ws m0 = Inr m' \<and> check_post (findShortcutWidgets ws) m'"
proof -
  define m1 where "m1 = reported_state ws m0"
  define old where "old = sm_shortcutList m1"
  note c = counted_ok[of ws]
  have "\<forall>s\<in>set (snd (counted ws)). ready s \<and> \<not> sc_conflict s" using c(3) by blast
  note re = report_errors_ok[OF this, of "fst (counted ws)" "\<lambda>_. False" 0]
  have rep: "list_all2 (reported (fst (counted ws))) old (snd (counted ws))"
    using re by (simp add: old_def m1_def reported_state_def Let_def)
  have used: "sm_used m1 = (\<lambda>c. \<exists>s\<in>set (snd (counted ws)). \<not> conf_view (fst (counted ws)) s \<and> pref_view s = c)"
    using re by (simp add: m1_def reported_state_def Let_def)
  have cnt: "sm_conflictCount m1 = int (length (conflict_indices old))"
    using re reported_conflicts[OF rep] by (simp add: m1_def reported_state_def Let_def length_conflict_indices)
  have did: "sm_didCheck m1" by (simp add: m1_def reported_state_def Let_def)
  have fresh: "\<forall>s\<in>set (snd (counted ws)). shortcut_of s = pref_view s" using c(3) by blast
  have li: "loop_inv old (conflict_indices old) m1"
    by (rule report_loop_inv[OF rep fresh c(2) used]) (simp_all add: old_def cnt)
  have post: "check_post (findShortcutWidgets ws) m'" if "loop_inv old [] m'" "sm_didCheck m'" for m'
    using check_post_intro[OF that rep c(1) _ c(2)] fresh_shortcuts by blast
  note chk = checkShortcuts_enough[OF assms, of True m0, folded m1_def]
  show ?thesis
  proof (cases "conflict_indices old = []")
    case True
    then show ?thesis using li post[of m1] did chk cnt by (simp add: m1_def[symmetric] Let_def)
  next
    case False
    obtain m' where m': "resolve_loop (conflict_indices old) m1 = Inr m'" "loop_inv old [] m'"
      using resolve_loop_ok[OF li] by blast
    have "m1\<lparr>sm_conflictCount := int (length (conflict_indices old))\<rparr> = m1" using cnt by simp
    then have "resolveAllConflicts m1 = Inr m'"
      using m'(1) did by (simp add: resolveAllConflicts_def Let_def old_def)
    moreover have "sm_didCheck m'" using resolve_loop_didCheck[OF m'(1)] did by simp
    ultimately show ?thesis
      using m' post chk cnt False by (simp add: m1_def[symmetric] Let_def)
  qed
qed

section \<open>The labels of the dialog after a check\<close>

text \<open>
  \<^verbatim>\<open>setShortcut\<close> writes through to the widget (\<^verbatim>\<open>setShortcutString\<close>) or the item (\<^verbatim>\<open>setLabel\<close>).
  Nothing else reads or writes a label during a check and every label has one owner in the
  shortcut list, so storing the final labels gives the widgets the check leaves.
\<close>

definition label_of :: "YShortcut list \<Rightarrow> nat \<Rightarrow> string option" where
  "label_of scs = map_of (map (\<lambda>s. (sc_target s, sc_label s)) scs)"

definition relabel_item :: "(nat \<Rightarrow> string option) \<Rightarrow> YItem \<Rightarrow> YItem" where
  "relabel_item f i =
     (case f (it_id (idata i)) of None \<Rightarrow> i | Some l \<Rightarrow> YItem (setItemLabel l (idata i)) (ichildren i))"

fun relabel_class :: "(nat \<Rightarrow> string option) \<Rightarrow> widget_class \<Rightarrow> widget_class" where
  "relabel_class f (ClsDumbTab items) = ClsDumbTab (map (relabel_item f) items)"
| "relabel_class f (ClsItemSelector items) = ClsItemSelector (map (relabel_item f) items)"
| "relabel_class f (ClsMenuBar items) = ClsMenuBar (map (relabel_item f) items)"
| "relabel_class f c = c"

definition relabel_widget :: "(nat \<Rightarrow> string option) \<Rightarrow> widget_data \<Rightarrow> widget_data" where
  "relabel_widget f d =
     (case toSelectionWidget (w_class d) of
        Some _ \<Rightarrow> d\<lparr>w_class := relabel_class f (w_class d)\<rparr>
      | None \<Rightarrow> if w_label d = [] then d
                else (case f (w_addr d) of None \<Rightarrow> d | Some l \<Rightarrow> d\<lparr>w_label := l\<rparr>))"

definition checkDialog ::
  "bool \<Rightarrow> YWidget list \<Rightarrow> YShortcutManager \<Rightarrow> (YWidget list \<times> YShortcutManager) result" where
  "checkDialog autoResolve ws m0 =
     bind_result (checkShortcuts autoResolve ws m0)
       (\<lambda>m. return (map_wdata (relabel_widget (label_of (sm_shortcutList m))) ws, m))"

definition dialog_targets :: "YWidget list \<Rightarrow> nat list" where
  "dialog_targets ws = map sc_target (findShortcutWidgets ws)"

lemma unmark_Nil_iff [simp]: "unmark s = [] \<longleftrightarrow> s = []"
  by (induction s rule: unmark.induct) auto

lemma toSelectionWidget_relabel:
  "toSelectionWidget (relabel_class f c) = map_option (map (relabel_item f)) (toSelectionWidget c)"
  by (cases c) simp_all

lemma new_YShortcut_target [simp]:
  "sc_target (new_YShortcut t l a b w m) = t" "sc_label (new_YShortcut t l a b w m) = l"
  by (simp_all add: new_YShortcut_def)

lemma own_shortcuts_relabel:
  assumes "\<forall>s\<in>set (own_shortcuts d). \<exists>l. f (sc_target s) = Some l \<and> (l = [] \<longrightarrow> sc_label s = [])"
  shows "map sc_label (own_shortcuts (relabel_widget f d)) = map (\<lambda>s. the (f (sc_target s))) (own_shortcuts d)"
proof (cases "toSelectionWidget (w_class d)")
  case None
  then show ?thesis
    using assms by (auto simp: own_shortcuts_def relabel_widget_def widget_shortcut_def split: if_splits)
next
  case (Some items)
  have "sc_label (item_shortcut d' (relabel_item f i)) = the (f (sc_target (item_shortcut d i)))"
    if "i \<in> set items" for i d'
    using assms that Some by (auto simp: own_shortcuts_def item_shortcut_def relabel_item_def)
  then show ?thesis
    using Some by (simp add: own_shortcuts_def relabel_widget_def toSelectionWidget_relabel)
qed

lemma map_wdata_Nil [simp]: "map_wdata f ws = [] \<longleftrightarrow> ws = []"
  by (cases ws) (simp, metis YWidget.exhaust map_wdata.simps(2) list.distinct(1))

lemma dialog_labels_relabel:
  "\<forall>s\<in>set (findShortcutWidgets ws). \<exists>l. f (sc_target s) = Some l \<and> (l = [] \<longrightarrow> sc_label s = []) \<Longrightarrow>
     map sc_label (findShortcutWidgets (map_wdata (relabel_widget f) ws))
       = map (\<lambda>s. the (f (sc_target s))) (findShortcutWidgets ws)"
proof (induction ws rule: findShortcutWidgets.induct)
  case (2 d cs ws)
  then show ?case
    using own_shortcuts_relabel[of d f] by (cases "cs = []") auto
qed simp

text \<open>
  Storing the labels of a list with the same owners makes them the labels of the dialog.
\<close>

lemma dialog_labels_stored:
  assumes dist: "distinct (dialog_targets ws)" and len: "length scs = length (findShortcutWidgets ws)"
    and same: "\<forall>i<length scs. sc_target (scs ! i) = sc_target (findShortcutWidgets ws ! i)
      \<and> clean_view (scs ! i) = clean_view (findShortcutWidgets ws ! i)"
  shows "dialog_labels (map_wdata (relabel_widget (label_of scs)) ws) = map sc_label scs"
proof -
  let ?fs = "findShortcutWidgets ws"
  have "map sc_target scs = map sc_target ?fs"
    using len same by (intro nth_equalityI) auto
  then have d: "distinct (map sc_target scs)" using dist by (simp add: dialog_targets_def)
  have lab: "label_of scs (sc_target (?fs ! i)) = Some (sc_label (scs ! i))" if "i < length ?fs" for i
  proof -
    have "(sc_target (?fs ! i), sc_label (scs ! i)) = map (\<lambda>s. (sc_target s, sc_label s)) scs ! i"
      using same that len by simp
    then have "(sc_target (?fs ! i), sc_label (scs ! i)) \<in> set (map (\<lambda>s. (sc_target s, sc_label s)) scs)"
      using that len by (metis length_map nth_mem)
    then show ?thesis
      unfolding label_of_def using d by (intro map_of_is_SomeI) (simp_all add: comp_def)
  qed
  have "sc_label (scs ! i) = [] \<longleftrightarrow> sc_label (?fs ! i) = []" if "i < length ?fs" for i
    using same that len by (metis clean_view_def unmark_Nil_iff)
  then have "\<forall>s\<in>set ?fs. \<exists>l. label_of scs (sc_target s) = Some l \<and> (l = [] \<longrightarrow> sc_label s = [])"
    using lab by (auto simp: in_set_conv_nth)
  from dialog_labels_relabel[OF this] have
    "dialog_labels (map_wdata (relabel_widget (label_of scs)) ws) = map (\<lambda>s. the (label_of scs (sc_target s))) ?fs"
    by (simp add: dialog_labels_def)
  also have "\<dots> = map sc_label scs" using lab len by (intro nth_equalityI) auto
  finally show ?thesis .
qed

lemma distinct_filter_nth:
  "(\<forall>i<length xs. \<forall>j<length xs. i \<noteq> j \<and> P (xs ! i) \<longrightarrow> xs ! i \<noteq> xs ! j) \<Longrightarrow> distinct (filter P xs)"
proof (induction xs)
  case (Cons x xs)
  have "\<forall>i<length xs. \<forall>j<length xs. i \<noteq> j \<and> P (xs ! i) \<longrightarrow> xs ! i \<noteq> xs ! j"
  proof (intro allI impI)
    fix i j assume "i < length xs" "j < length xs" "i \<noteq> j \<and> P (xs ! i)"
    then show "xs ! i \<noteq> xs ! j" using Cons.prems[rule_format, of "Suc i" "Suc j"] by simp
  qed
  moreover have "P x \<Longrightarrow> x \<notin> set xs"
    using Cons.prems[rule_format, of 0 "Suc _"] by (auto simp: in_set_conv_nth)
  ultimately show ?case using Cons.IH by simp
qed simp

lemma checkDialog_ok:
  assumes "enough_valid ws" "distinct (dialog_targets ws)"
  obtains ws' m' where "checkDialog True ws m0 = Inr (ws', m')" "check_post (findShortcutWidgets ws) m'"
    "dialog_labels ws' = map sc_label (sm_shortcutList m')"
proof -
  obtain m' where m': "checkShortcuts True ws m0 = Inr m'" "check_post (findShortcutWidgets ws) m'"
    using checkShortcuts_ok[OF assms(1)] by blast
  have "dialog_labels (map_wdata (relabel_widget (label_of (sm_shortcutList m'))) ws)
      = map sc_label (sm_shortcutList m')"
    using m'(2) by (intro dialog_labels_stored[OF assms(2)]) (auto simp: check_post_def)
  then show thesis
    using m' by (intro that) (simp_all add: checkDialog_def)
qed

lemma check_post_clean:
  assumes "check_post (findShortcutWidgets ws) m'" "dialog_labels ws' = map sc_label (sm_shortcutList m')"
  shows "map unmark (dialog_labels ws') = map unmark (dialog_labels ws)"
  using assms by (intro nth_equalityI) (auto simp: check_post_def dialog_labels_def clean_view_def)

section \<open>Properties of a check\<close>

text \<open>A dialog with three buttons that want the same shortcut, and one without a marker.\<close>

definition sample_dialog :: "YWidget list" where
  "sample_dialog =
     [YWidget (new_widget_data 1 (ClsLayoutBox YD_HORIZ) [] 0 0)
        [YWidget (new_widget_data 2 (ClsPushButton YOKButton False) ''&Ok'' 0 0) [],
         YWidget (new_widget_data 3 (ClsPushButton YCustomButton False) ''&Open'' 0 0) [],
         YWidget (new_widget_data 4 ClsLeaf ''Name'' 0 0) []],
      YWidget (new_widget_data 5 (ClsPushButton YCancelButton False) ''&Cancel'' 0 0) []]"

lemma sample_dialog_labels:
  "dialog_labels sample_dialog = [''&Ok'', ''&Open'', ''Name'', ''&Cancel'']"
  "dialog_targets sample_dialog = [2, 3, 4, 5]"
  by (simp_all add: dialog_labels_def dialog_targets_def sample_dialog_def own_shortcuts_def
      new_widget_data_def widget_shortcut_def)

lemma sample_dialog_enough: "enough_valid sample_dialog" "distinct (dialog_targets sample_dialog)"
  by (simp_all add: enough_valid_def sample_dialog_labels shortcutMarker_def isValid_def in_range_def)

text \<open>Two buttons with only one usable character between them.\<close>

definition twin_dialog :: "YWidget list" where
  "twin_dialog =
     [YWidget (new_widget_data 2 (ClsPushButton YOKButton False) ''&A'' 0 0) [],
      YWidget (new_widget_data 3 (ClsPushButton YCustomButton False) ''&A'' 0 0) []]"

lemmas label_eval = label_shortcut_def findShortcut_def findShortcutPos_eq_marker_pos
  cleanShortcutString_eq_unmark shortcutMarker_def normalized_def isValid_def in_range_def NoShortcut_def

lemma twin_dialog_enough: "enough_valid twin_dialog" "distinct (dialog_targets twin_dialog)"
  by (simp_all add: enough_valid_def dialog_labels_def dialog_targets_def twin_dialog_def own_shortcuts_def
      new_widget_data_def widget_shortcut_def label_eval)

lemma twin_dialog_after:
  "map_sum (\<lambda>_. ()) (dialog_labels \<circ> fst) (checkDialog True twin_dialog new_YShortcutManager)
     = Inr [''&A'', ''A'']"
  by code_simp

text \<open>
  A check does not touch any label if it is asked not to resolve conflicts, or if fewer than
  half of the labels have a character usable as a shortcut.
\<close>

theorem checkDialog_report_only:
  assumes "distinct (dialog_targets ws)" "checkDialog autoResolve ws m0 = Inr (ws', m')"
    and "\<not> autoResolve \<or> \<not> enough_valid ws"
  shows "dialog_labels ws' = dialog_labels ws"
proof -
  let ?fs = "findShortcutWidgets ws"
  obtain m1 where m1: "checkShortcuts autoResolve ws m0 = Inr m1"
    "ws' = map_wdata (relabel_widget (label_of (sm_shortcutList m1))) ws"
    using assms(2) by (auto simp: checkDialog_def bind_result_Inr_iff)
  have keep: "list_all2 (\<lambda>s' s. sc_label s' = sc_label s \<and> sc_target s' = sc_target s) (sm_shortcutList m1) ?fs"
  proof (cases "enough_valid ws")
    case True
    have c: "csteps (snd (counted ws)) ?fs" by (rule counted_ok(1))
    have "\<forall>s\<in>set (snd (counted ws)). ready s \<and> \<not> sc_conflict s" using counted_ok(3) by blast
    from report_errors_ok[OF this, of "fst (counted ws)" "\<lambda>_. False" 0]
    have r: "list_all2 (reported (fst (counted ws))) (sm_shortcutList (reported_state ws m0)) (snd (counted ws))"
      by (simp add: reported_state_def Let_def)
    have "m1 = reported_state ws m0"
      using m1(1) checkShortcuts_enough[OF True] assms(3) True by (simp add: Let_def)
    then show ?thesis
      using list_all2_trans[OF _ r c, of "\<lambda>s' s. sc_label s' = sc_label s \<and> sc_target s' = sc_target s"]
      by (simp add: reported_def cstep_views)
  next
    case False
    have inv: "all_inv ?fs" using fresh_shortcuts by (simp add: all_inv_def)
    have "sm_shortcutList m1 = snd (count_valid ?fs)"
      using m1(1) valid_percent_iff[OF refl, of ws] False
      unfolding checkShortcuts_def Let_def split_beta by auto
    then show ?thesis
      using count_valid_ok[OF inv] by (auto elim!: list_all2_mono simp: cstep_views)
  qed
  then have "dialog_labels ws' = map sc_label (sm_shortcutList m1)"
    unfolding m1(2) by (intro dialog_labels_stored[OF assms(1)])
      (auto simp: list_all2_conv_all_nth clean_view_def)
  also have "\<dots> = dialog_labels ws"
    using keep by (intro nth_equalityI) (auto simp: list_all2_conv_all_nth dialog_labels_def)
  finally show ?thesis .
qed

theorem checkDialog_report_only_witness:
  "\<exists>ws' m'. checkDialog False sample_dialog new_YShortcutManager = Inr (ws', m')
     \<and> dialog_labels ws' = [''&Ok'', ''&Open'', ''Name'', ''&Cancel'']"
proof -
  obtain ws' m' where r: "checkDialog False sample_dialog new_YShortcutManager = Inr (ws', m')"
    using checkShortcuts_enough[OF sample_dialog_enough(1), of False new_YShortcutManager]
    by (simp add: checkDialog_def Let_def)
  from r checkDialog_report_only[OF sample_dialog_enough(2) r] show ?thesis
    by (simp add: sample_dialog_labels)
qed

text \<open>
  C1: A shortcut check with automatic resolution on a dialog in which at least half of the labels
  have a character usable as a shortcut, and whose widgets are different objects, ends normally, and afterwards no two labels have the same
  shortcut; the conflict counter is zero and no element is marked as a conflict.
\<close>

theorem checkDialog_unique:
  assumes "enough_valid ws" "distinct (dialog_targets ws)"
  shows "\<exists>ws' m'. checkDialog True ws m0 = Inr (ws', m')
     \<and> distinct (filter isValid (map label_shortcut (dialog_labels ws')))
     \<and> sm_conflictCount m' = 0 \<and> (\<forall>s\<in>set (sm_shortcutList m'). \<not> sc_conflict s)"
proof -
  obtain ws' m' where r: "checkDialog True ws m0 = Inr (ws', m')" "check_post (findShortcutWidgets ws) m'"
    "dialog_labels ws' = map sc_label (sm_shortcutList m')" using checkDialog_ok[OF assms] .
  obtain used where "used_inv [] (sm_shortcutList m') used" using r(2) by (auto simp: check_post_def)
  then have "distinct (filter isValid (map label_shortcut (dialog_labels ws')))"
    by (intro distinct_filter_nth) (simp add: r(3) used_inv_def shortcut_of_def)
  then show ?thesis using r by (auto simp: check_post_def in_set_conv_nth)
qed

theorem checkDialog_unique_witness:
  "\<exists>ws' m'. checkDialog True sample_dialog new_YShortcutManager = Inr (ws', m')
     \<and> distinct (filter isValid (map label_shortcut (dialog_labels ws')))"
  using checkDialog_unique[OF sample_dialog_enough, of new_YShortcutManager] by blast

text \<open>
  C19: A check, with or without automatic resolution, changes labels only by moving, adding or dropping
  the marker: after removing the markers every label reads as before, in the same order. The widgets
  with shortcuts are different objects.
\<close>

theorem checkDialog_clean_labels:
  assumes "distinct (dialog_targets ws)" "checkDialog autoResolve ws m0 = Inr (ws', m')"
  shows "map cleanShortcutString (dialog_labels ws') = map cleanShortcutString (dialog_labels ws)"
proof (cases "autoResolve \<and> enough_valid ws")
  case True
  obtain ws2 m2 where r: "checkDialog True ws m0 = Inr (ws2, m2)" "check_post (findShortcutWidgets ws) m2"
    "dialog_labels ws2 = map sc_label (sm_shortcutList m2)" using checkDialog_ok[OF conjunct2[OF True] assms(1)] .
  then show ?thesis
    using check_post_clean[OF r(2,3)] assms(2) True by (simp add: cleanShortcutString_eq_unmark[abs_def])
next
  case False
  then show ?thesis using checkDialog_report_only[OF assms] by simp
qed

theorem checkDialog_clean_labels_witness:
  "\<exists>ws' m'. checkDialog True sample_dialog new_YShortcutManager = Inr (ws', m')
     \<and> map cleanShortcutString (dialog_labels ws') = map cleanShortcutString (dialog_labels sample_dialog)"
proof -
  obtain ws' m' where r: "checkDialog True sample_dialog new_YShortcutManager = Inr (ws', m')"
    using checkDialog_ok[OF sample_dialog_enough] by metis
  from r checkDialog_clean_labels[OF sample_dialog_enough(2) r] show ?thesis by blast
qed

text \<open>
  C20: On a dialog in which at least half of the labels have a character usable as a shortcut, a check
  with automatic resolution takes a shortcut away, or leaves a label without one, only when it has to:
  if a label has no valid shortcut afterwards, every character of it that could be one is the shortcut
  of another label. The widgets with shortcuts are different objects. (With fewer such labels, or
  without automatic resolution, a check changes no label.)
\<close>

theorem checkDialog_complete:
  assumes "enough_valid ws" "distinct (dialog_targets ws)" "checkDialog True ws m0 = Inr (ws', m')"
    and "l \<in> set (dialog_labels ws')" "\<not> isValid (label_shortcut l)" "c \<in> set (cleanShortcutString l)" "isValid c"
  shows "\<exists>l'\<in>set (dialog_labels ws'). label_shortcut l' = normalized c"
proof -
  obtain ws2 m2 where r: "checkDialog True ws m0 = Inr (ws2, m2)" "check_post (findShortcutWidgets ws) m2"
    "dialog_labels ws2 = map sc_label (sm_shortcutList m2)" using checkDialog_ok[OF assms(1,2)] .
  then have l': "dialog_labels ws' = map sc_label (sm_shortcutList m2)" using assms(3) by simp
  obtain used where u: "used_inv [] (sm_shortcutList m2) used" using r(2) by (auto simp: check_post_def)
  obtain i where i: "i < length (sm_shortcutList m2)" "l = sc_label (sm_shortcutList m2 ! i)"
    using assms(4) by (auto simp: l' in_set_conv_nth)
  have "\<not> free_char used (clean_view (sm_shortcutList m2 ! i)) (normalized c)"
    using u i assms(5) by (simp add: used_inv_def shortcut_of_def)
  then have "used (normalized c)"
    using assms(6,7) i(2) by (auto simp: free_char_def clean_view_def cleanShortcutString_eq_unmark)
  then obtain j where "j < length (sm_shortcutList m2)" "shortcut_of (sm_shortcutList m2 ! j) = normalized c"
    using u assms(7) by (auto simp: used_inv_def)
  then show ?thesis by (auto simp: l' shortcut_of_def)
qed

theorem checkDialog_complete_witness:
  "\<exists>ws' m'. checkDialog True twin_dialog new_YShortcutManager = Inr (ws', m')
     \<and> (\<exists>l'\<in>set (dialog_labels ws'). label_shortcut l' = normalized CHR ''A'')"
proof -
  obtain ws' m' where r: "checkDialog True twin_dialog new_YShortcutManager = Inr (ws', m')"
    using checkDialog_ok[OF twin_dialog_enough] by metis
  then have l: "dialog_labels ws' = [''&A'', ''A'']" using twin_dialog_after by simp
  have "''A'' \<in> set (dialog_labels ws')" "\<not> isValid (label_shortcut ''A'')"
    "CHR ''A'' \<in> set (cleanShortcutString ''A'')" "isValid CHR ''A''"
    by (simp_all add: l label_eval)
  from r checkDialog_complete[OF twin_dialog_enough r this] show ?thesis by blast
qed

text \<open>
  C21: A check, with or without automatic resolution, leaves alone what is not in conflict: a label
  whose shortcut is valid and differs from every other label's shortcut is the same string afterwards.
  The widgets with shortcuts are different objects.
\<close>

theorem checkDialog_keeps:
  assumes "distinct (dialog_targets ws)" "checkDialog autoResolve ws m0 = Inr (ws', m')"
    and "i < length (dialog_labels ws)" "isValid (label_shortcut (dialog_labels ws ! i))"
    and "\<forall>j<length (dialog_labels ws). j \<noteq> i \<longrightarrow>
      label_shortcut (dialog_labels ws ! j) \<noteq> label_shortcut (dialog_labels ws ! i)"
  shows "dialog_labels ws' ! i = dialog_labels ws ! i"
proof (cases "autoResolve \<and> enough_valid ws")
  case True
  obtain ws2 m2 where r: "checkDialog True ws m0 = Inr (ws2, m2)" "check_post (findShortcutWidgets ws) m2"
    "dialog_labels ws2 = map sc_label (sm_shortcutList m2)" using checkDialog_ok[OF conjunct2[OF True] assms(1)] .
  then have l': "dialog_labels ws' = map sc_label (sm_shortcutList m2)" using assms(2) True by simp
  have len: "length (sm_shortcutList m2) = length (findShortcutWidgets ws)"
    and i: "i < length (findShortcutWidgets ws)" using r(2) assms(3) by (auto simp: check_post_def dialog_labels_def)
  have "isValid (shortcut_of (findShortcutWidgets ws ! i)) \<and> (\<forall>j<length (findShortcutWidgets ws). j \<noteq> i \<longrightarrow>
      shortcut_of (findShortcutWidgets ws ! j) \<noteq> shortcut_of (findShortcutWidgets ws ! i))"
    using assms(4,5) i by (simp add: dialog_labels_def shortcut_of_def)
  then have "sc_label (sm_shortcutList m2 ! i) = sc_label (findShortcutWidgets ws ! i)"
    using r(2) i unfolding check_post_def by blast
  then show ?thesis using i len unfolding l' by (simp add: dialog_labels_def)
next
  case False
  then show ?thesis using checkDialog_report_only[OF assms(1,2)] by simp
qed

theorem checkDialog_keeps_witness:
  "\<exists>ws' m'. checkDialog True sample_dialog new_YShortcutManager = Inr (ws', m')
     \<and> dialog_labels ws' ! 3 = ''&Cancel''"
proof -
  obtain ws' m' where r: "checkDialog True sample_dialog new_YShortcutManager = Inr (ws', m')"
    using checkDialog_ok[OF sample_dialog_enough] by metis
  have "isValid (label_shortcut (dialog_labels sample_dialog ! 3))"
    "\<forall>j<length (dialog_labels sample_dialog). j \<noteq> 3 \<longrightarrow>
      label_shortcut (dialog_labels sample_dialog ! j) \<noteq> label_shortcut (dialog_labels sample_dialog ! 3)"
    by (simp_all add: sample_dialog_labels label_eval All_less_Suc numeral_eq_Suc)
  from r checkDialog_keeps[OF sample_dialog_enough(2) r _ this] show ?thesis
    by (auto simp: sample_dialog_labels)
qed

text \<open>
  The conflict resolved next is a top-level menu item if there is one in conflict, else a
  wizard button if there is one, else any element; among these it is one with the fewest distinct
  shortcut characters, and among other widgets with equally few a push button if there is one.
\<close>

theorem pickConflictToResolve_best:
  assumes "\<forall>s\<in>set scs. sc_inv s" "conflictList \<noteq> []" "\<forall>j\<in>set conflictList. j < length scs"
  shows "\<exists>k<length conflictList. fst (pickConflictToResolve conflictList scs) = int k
     \<and> best_pick conflictList scs k"
  using pickConflictToResolve_ok(2)[of scs conflictList] assms by (simp add: all_inv_def)

theorem pickConflictToResolve_best_witness:
  "\<exists>k<2. fst (pickConflictToResolve [0, 1] (findShortcutWidgets twin_dialog)) = int k
     \<and> best_pick [0, 1] (findShortcutWidgets twin_dialog) k"
proof -
  have "length (findShortcutWidgets twin_dialog) = 2"
    by (simp add: twin_dialog_def own_shortcuts_def new_widget_data_def)
  then show ?thesis
    using pickConflictToResolve_best[of "findShortcutWidgets twin_dialog" "[0, 1]"] fresh_shortcuts[of twin_dialog]
    by (simp add: numeral_2_eq_2)
qed

end
