(* ===== verification/Yui_LayoutBox.thy ===== *)
theory Yui_LayoutBox
  imports Yui_Widget Complex_Main
begin

text \<open>
  The layout engine of \<^verbatim>\<open>YLayoutBox.cc\<close>: preferred sizes with weights, the distribution of space in
  the primary dimension when there is enough and when there is not, the secondary dimension, and
  the mirrored layout. The theory proves where the children end up: they never overlap, they stay
  in the box, how much space rounding may lose, how losses are shared, and that shrinking margins
  loses all of them.
\<close>

section \<open>What a box sees of its children\<close>

text \<open>
  The answers of the virtual functions \<^verbatim>\<open>preferredSize\<close>, \<^verbatim>\<open>weight\<close> and \<^verbatim>\<open>stretchable\<close> of a child,
  and of the dynamic casts to \<^verbatim>\<open>YSpacing\<close>, \<^verbatim>\<open>YAlignment\<close> (its \<^verbatim>\<open>totalMargins\<close>) and
  \<^verbatim>\<open>YPushButton\<close> (its role); the debug label appears in exceptions.
\<close>

record child_view =
  cv_preferred :: "int YBothDim"
  cv_weight :: "int YBothDim"
  cv_stretchable :: "bool YBothDim"
  cv_isSpacing :: bool
  cv_margins :: "int YBothDim option"
  cv_role :: "YButtonRole option"
  cv_debugLabel :: string

definition c_pref :: "YUIDimension \<Rightarrow> child_view \<Rightarrow> int" where
  "c_pref dir c = at_dim (cv_preferred c) dir"

definition c_weight :: "YUIDimension \<Rightarrow> child_view \<Rightarrow> int" where
  "c_weight dir c = at_dim (cv_weight c) dir"

definition c_hasWeight :: "YUIDimension \<Rightarrow> child_view \<Rightarrow> bool" where
  "c_hasWeight dir c \<longleftrightarrow> c_weight dir c > 0"

definition c_stretchable :: "YUIDimension \<Rightarrow> child_view \<Rightarrow> bool" where
  "c_stretchable dir c = at_dim (cv_stretchable c) dir"

definition c_margins :: "YUIDimension \<Rightarrow> child_view \<Rightarrow> int" where
  "c_margins dir c = (case cv_margins c of None \<Rightarrow> 0 | Some m \<Rightarrow> at_dim m dir)"

section \<open>Sums and counts over the children\<close>

fun childrenMaxPreferredSize :: "YUIDimension \<Rightarrow> child_view list \<Rightarrow> int" where
  "childrenMaxPreferredSize dir cs = fold (\<lambda>c m. max (c_pref dir c) m) cs 0"

definition childrenTotalWeight :: "YUIDimension \<Rightarrow> child_view list \<Rightarrow> int" where
  "childrenTotalWeight dir cs = sum_list (map (c_weight dir) cs)"

definition totalNonWeightedChildrenPreferredSize :: "YUIDimension \<Rightarrow> child_view list \<Rightarrow> int" where
  "totalNonWeightedChildrenPreferredSize dir cs =
     sum_list (map (c_pref dir) (filter (\<lambda>c. \<not> c_hasWeight dir c) cs))"

definition countNonWeightedChildren :: "YUIDimension \<Rightarrow> child_view list \<Rightarrow> int" where
  "countNonWeightedChildren dir cs = int (length (filter (\<lambda>c. \<not> c_hasWeight dir c) cs))"

definition countStretchableChildren :: "YUIDimension \<Rightarrow> child_view list \<Rightarrow> int" where
  "countStretchableChildren dir cs =
     int (length (filter (\<lambda>c. \<not> c_hasWeight dir c \<and> c_stretchable dir c) cs))"

definition isLayoutStretch :: "YUIDimension \<Rightarrow> child_view \<Rightarrow> bool" where
  "isLayoutStretch dir c \<longleftrightarrow> cv_isSpacing c \<and> c_stretchable dir c"

definition countLayoutStretchChildren :: "YUIDimension \<Rightarrow> child_view list \<Rightarrow> int" where
  "countLayoutStretchChildren dir cs =
     int (length (filter (\<lambda>c. \<not> c_hasWeight dir c \<and> isLayoutStretch dir c) cs))"

definition box_stretchable :: "YUIDimension \<Rightarrow> child_view list \<Rightarrow> bool" where
  "box_stretchable dir cs = list_ex (\<lambda>c. c_stretchable dir c \<or> c_hasWeight dir c) cs"

section \<open>Preferred size\<close>

text \<open>
  The ratio of preferred size and weight is a \<^verbatim>\<open>double\<close> in the source. The model compares exact
  quotients: two different quotients of integers below \<open>2^26\<close> differ by more than the rounding
  error of a \<^verbatim>\<open>double\<close>, so the comparisons agree for all sizes a screen can have.
\<close>

fun findDominatingChild_loop ::
  "YUIDimension \<Rightarrow> child_view option \<Rightarrow> rat \<Rightarrow> child_view list \<Rightarrow> child_view option" where
  "findDominatingChild_loop p dominatingChild dominatingRatio [] = dominatingChild"
| "findDominatingChild_loop p dominatingChild dominatingRatio (c # cs) =
     (if c_weight p c \<noteq> 0
      then let ratio = of_int (c_pref p c) / of_int (c_weight p c)
           in if ratio > dominatingRatio then findDominatingChild_loop p (Some c) ratio cs
              else findDominatingChild_loop p dominatingChild dominatingRatio cs
      else findDominatingChild_loop p dominatingChild dominatingRatio cs)"

definition findDominatingChild :: "YUIDimension \<Rightarrow> child_view list \<Rightarrow> child_view option" where
  "findDominatingChild p cs = findDominatingChild_loop p None 0 cs"

definition box_preferredSize :: "YUIDimension \<Rightarrow> YUIDimension \<Rightarrow> child_view list \<Rightarrow> int" where
  "box_preferredSize primary dir cs =
     (if dir = other_dim primary then childrenMaxPreferredSize dir cs
      else
        (case findDominatingChild primary cs of
           None \<Rightarrow> 0
         | Some d \<Rightarrow> c_div (c_pref primary d * childrenTotalWeight primary cs) (c_weight primary d))
        + totalNonWeightedChildrenPreferredSize primary cs)"

section \<open>Primary geometry: enough space\<close>

definition normal_extras :: "YUIDimension \<Rightarrow> int \<Rightarrow> child_view list \<Rightarrow> int \<times> int \<times> int" where
  "normal_extras p newSize cs =
     (let distributableSize = newSize - totalNonWeightedChildrenPreferredSize p cs;
          totalWeight = childrenTotalWeight p cs
      in if totalWeight \<le> 0
         then let stretchableChildren = countStretchableChildren p cs
              in (if stretchableChildren > 0 then c_div distributableSize stretchableChildren else 0,
                  0, distributableSize)
         else let surplusSize = newSize - box_preferredSize p p cs
              in if surplusSize > 0
                 then let rubberBands = countLayoutStretchChildren p cs
                      in if rubberBands > 0
                         then let rubberBandExtra = c_div surplusSize rubberBands
                              in (0, rubberBandExtra, distributableSize - rubberBandExtra * rubberBands)
                         else (0, 0, distributableSize)
                 else (0, 0, distributableSize))"

definition normal_size :: "YUIDimension \<Rightarrow> int \<times> int \<times> int \<Rightarrow> int \<Rightarrow> child_view \<Rightarrow> int" where
  "normal_size p extras totalWeight c =
     (case extras of (nonWeightedExtra, rubberBandExtra, distributableSize) \<Rightarrow>
        if c_hasWeight p c then c_div (distributableSize * c_weight p c) totalWeight
        else c_pref p c
             + (if c_stretchable p c then nonWeightedExtra else 0)
             + (if isLayoutStretch p c then rubberBandExtra else 0))"

definition normal_sizes :: "YUIDimension \<Rightarrow> int \<Rightarrow> child_view list \<Rightarrow> int list" where
  "normal_sizes p newSize cs =
     map (normal_size p (normal_extras p newSize cs) (childrenTotalWeight p cs)) cs"

section \<open>Primary geometry: not enough space\<close>

text \<open>\<^verbatim>\<open>(int) x\<close> of a floating point number.\<close>

definition trunc :: "rat \<Rightarrow> int" where
  "trunc q = (if q \<ge> 0 then \<lfloor>q\<rfloor> else \<lceil>q\<rceil>)"

definition total_margins :: "YUIDimension \<Rightarrow> child_view list \<Rightarrow> int" where
  "total_margins p cs = sum_list (map (c_margins p) (filter (\<lambda>c. \<not> c_hasWeight p c) cs))"

fun initial_sizes :: "YUIDimension \<Rightarrow> rat \<Rightarrow> int \<Rightarrow> child_view list \<Rightarrow> int list" where
  "initial_sizes p marginScale remainingMargins [] = []"
| "initial_sizes p marginScale remainingMargins (c # cs) =
     (if \<not> c_hasWeight p c
      then (case cv_margins c of
              None \<Rightarrow> c_pref p c # initial_sizes p marginScale remainingMargins cs
            | Some m \<Rightarrow>
                if remainingMargins > 0
                then let margins = trunc marginScale * at_dim m p
                     in (c_pref p c - at_dim m p + margins)
                        # initial_sizes p marginScale (remainingMargins - margins) cs
                else (c_pref p c - at_dim m p) # initial_sizes p marginScale remainingMargins cs)
      else 0 # initial_sizes p marginScale remainingMargins cs)"

text \<open>
  One pass over the children that takes a share of the loss from each. The share is recomputed
  when a child is used up and others are left.
\<close>

definition next_share :: "int \<Rightarrow> int \<Rightarrow> int \<Rightarrow> int" where
  "next_share tooSmall loserCount dividedLoss =
     (if loserCount > 0 then max (c_div tooSmall loserCount) 1 else dividedLoss)"

fun loss_pass :: "int \<Rightarrow> int \<Rightarrow> int \<Rightarrow> int list \<Rightarrow> int \<times> int \<times> int list" where
  "loss_pass tooSmall loserCount dividedLoss [] = (tooSmall, loserCount, [])"
| "loss_pass tooSmall loserCount dividedLoss (x # xs) =
     (if tooSmall > 0
      then if x < dividedLoss
           then if x > 0
                then let (t, l, ys) =
                           loss_pass (tooSmall - x) (loserCount - 1)
                             (next_share (tooSmall - x) (loserCount - 1) dividedLoss) xs
                     in (t, l, 0 # ys)
                else let (t, l, ys) = loss_pass tooSmall loserCount dividedLoss xs in (t, l, x # ys)
           else let (t, l, ys) = loss_pass (tooSmall - dividedLoss) loserCount dividedLoss xs
                in (t, l, (x - dividedLoss) # ys)
      else (tooSmall, loserCount, x # xs))"

lemma loss_pass_Cons:
  "t \<le> 0 \<Longrightarrow> loss_pass t l d (x # xs) = (t, l, x # xs)"
  "0 < t \<Longrightarrow> x < d \<Longrightarrow> 0 < x \<Longrightarrow> loss_pass t l d (x # xs) =
     (let r = loss_pass (t - x) (l - 1) (next_share (t - x) (l - 1) d) xs in (fst r, fst (snd r), 0 # snd (snd r)))"
  "0 < t \<Longrightarrow> x < d \<Longrightarrow> x \<le> 0 \<Longrightarrow> loss_pass t l d (x # xs) =
     (let r = loss_pass t l d xs in (fst r, fst (snd r), x # snd (snd r)))"
  "0 < t \<Longrightarrow> d \<le> x \<Longrightarrow> loss_pass t l d (x # xs) =
     (let r = loss_pass (t - d) l d xs in (fst r, fst (snd r), (x - d) # snd (snd r)))"
  by (simp_all add: split_beta Let_def)

lemma next_share_pos: "0 < d \<Longrightarrow> 0 < next_share t l d"
  by (simp add: next_share_def less_max_iff_disj)

text \<open>A pass is over, or it takes all of a child, skips an empty one, or takes the share.\<close>

lemma loss_pass_induct [consumes 1, case_names Nil finished used_up skip share]:
  assumes "0 < d"
    and "\<And>t l d. 0 < d \<Longrightarrow> P t l d []"
    and "\<And>t l d x xs. 0 < d \<Longrightarrow> t \<le> 0 \<Longrightarrow> P t l d (x # xs)"
    and "\<And>t l d x xs. 0 < d \<Longrightarrow> 0 < t \<Longrightarrow> x < d \<Longrightarrow> 0 < x \<Longrightarrow>
       P (t - x) (l - 1) (next_share (t - x) (l - 1) d) xs \<Longrightarrow> P t l d (x # xs)"
    and "\<And>t l d x xs. 0 < d \<Longrightarrow> 0 < t \<Longrightarrow> x < d \<Longrightarrow> x \<le> 0 \<Longrightarrow> P t l d xs \<Longrightarrow> P t l d (x # xs)"
    and "\<And>t l d x xs. 0 < d \<Longrightarrow> 0 < t \<Longrightarrow> d \<le> x \<Longrightarrow> P (t - d) l d xs \<Longrightarrow> P t l d (x # xs)"
  shows "P t l d xs"
  using assms(1)
proof (induction xs arbitrary: t l d)
  case (Cons x xs)
  consider "t \<le> 0" | "0 < t" "x < d" "0 < x" | "0 < t" "x < d" "x \<le> 0" | "0 < t" "d \<le> x" by linarith
  then show ?case
  proof cases
    case 1
    then show ?thesis using assms(3) Cons.prems by simp
  next
    case 2
    then show ?thesis using assms(4)[OF Cons.prems] Cons.IH next_share_pos[OF Cons.prems] by simp
  next
    case 3
    then show ?thesis using assms(5)[OF Cons.prems] Cons.IH[OF Cons.prems] by simp
  next
    case 4
    then show ?thesis using assms(6)[OF Cons.prems] Cons.IH[OF Cons.prems] by simp
  qed
qed (rule assms(2))

lemma loss_pass_decreases:
  assumes "0 < d"
  shows "fst (loss_pass t l d xs) \<le> t \<and> fst (snd (loss_pass t l d xs)) \<le> l \<and>
     (fst (snd (loss_pass t l d xs)) < l \<longrightarrow> fst (loss_pass t l d xs) < t)"
  using assms
  by (induction t l d xs rule: loss_pass_induct)
    (auto simp: loss_pass_Cons Let_def simp del: loss_pass.simps(2))

text \<open>
  The loop that distributes the loss. The two variables that remember the previous state and
  prevent an endless loop are kept as in the source; they also give the termination measure.
\<close>

function loss_loop :: "int \<Rightarrow> int \<Rightarrow> int \<Rightarrow> int \<Rightarrow> int list \<Rightarrow> int list" where
  "loss_loop oldTooSmall oldLoserCount tooSmall loserCount sizes =
     (if tooSmall > 0 \<and> loserCount > 0
      then let r = loss_pass tooSmall loserCount (max (c_div tooSmall loserCount) 1) sizes
           in if oldTooSmall = fst r \<and> oldLoserCount = fst (snd r) then snd (snd r)
              else loss_loop (fst r) (fst (snd r)) (fst r) (fst (snd r)) (snd (snd r))
      else sizes)"
  by pat_completeness auto
termination
proof (relation "measure (\<lambda>(ot, ol, t, l, xs). 2 * (nat t + nat l) + (if ot = t \<and> ol = l then 0 else 1))")
  fix ot ol t l :: int and xs :: "int list" and r
  assume a: "t > 0 \<and> l > 0" "r = loss_pass t l (max (c_div t l) 1) xs"
    "\<not> (ot = fst r \<and> ol = fst (snd r))"
  from loss_pass_decreases[of "max (c_div t l) 1" t l xs] a(2)
  have "fst r \<le> t" "fst (snd r) \<le> l" "fst (snd r) < l \<longrightarrow> fst r < t" by auto
  moreover obtain t' l' ys where "r = (t', l', ys)" by (cases r)
  ultimately show "((fst r, fst (snd r), fst r, fst (snd r), snd (snd r)), ot, ol, t, l, xs)
      \<in> measure (\<lambda>(ot, ol, t, l, xs). 2 * (nat t + nat l) + (if ot = t \<and> ol = l then 0 else 1))"
    using a(1,3) by auto
qed simp

declare loss_loop.simps [simp del]

definition shrunk_sizes :: "YUIDimension \<Rightarrow> int \<Rightarrow> child_view list \<Rightarrow> int list" where
  "shrunk_sizes p newSize cs =
     (let tooSmall = - (newSize - totalNonWeightedChildrenPreferredSize p cs);
          totalMargins = total_margins p cs;
          remainingMargins = (if totalMargins > tooSmall then totalMargins - tooSmall else 0);
          marginScale = (if totalMargins > tooSmall
                         then of_int remainingMargins / of_int totalMargins else 0);
          tooSmall' = (if totalMargins > tooSmall then 0 else tooSmall - totalMargins);
          loserCount = countNonWeightedChildren p cs
      in loss_loop tooSmall' loserCount tooSmall' loserCount
           (initial_sizes p marginScale remainingMargins cs))"

definition calcPrimaryGeometry ::
  "YUIDimension \<Rightarrow> int \<Rightarrow> child_view list \<Rightarrow> int list \<times> int list" where
  "calcPrimaryGeometry p newSize cs =
     (let distributableSize = newSize - totalNonWeightedChildrenPreferredSize p cs;
          childSize = (if distributableSize \<ge> 0 then normal_sizes p newSize cs
                       else shrunk_sizes p newSize cs)
      in (childSize, prefix_sums 0 childSize))"

section \<open>Secondary geometry and resizing\<close>

definition secondary_size :: "YUIDimension \<Rightarrow> int \<Rightarrow> child_view \<Rightarrow> int" where
  "secondary_size s newSize c =
     (if c_stretchable s c \<or> newSize < c_pref s c \<or> c_pref s c = 0 then newSize else c_pref s c)"

definition secondary_pos :: "YUIDimension \<Rightarrow> int \<Rightarrow> child_view \<Rightarrow> int" where
  "secondary_pos s newSize c =
     (if c_stretchable s c \<or> newSize < c_pref s c \<or> c_pref s c = 0 then 0
      else c_div (newSize - c_pref s c) 2)"

definition calcSecondaryGeometry ::
  "YUIDimension \<Rightarrow> int \<Rightarrow> child_view list \<Rightarrow> int list \<times> int list" where
  "calcSecondaryGeometry s newSize cs = (map (secondary_size s newSize) cs, map (secondary_pos s newSize) cs)"

text \<open>
  A rectangle inside the box: what \<^verbatim>\<open>child->setSize\<close> and \<^verbatim>\<open>moveChild\<close> are called with.
\<close>

record rect =
  r_x :: int
  r_y :: int
  r_w :: int
  r_h :: int

fun mk_rects :: "int list \<Rightarrow> int list \<Rightarrow> int list \<Rightarrow> int list \<Rightarrow> rect list" where
  "mk_rects (x # xs) (y # ys) (w # ws) (h # hs) =
     \<lparr>r_x = x, r_y = y, r_w = w, r_h = h\<rparr> # mk_rects xs ys ws hs"
| "mk_rects _ _ _ _ = []"

definition box_setSize ::
  "bool \<Rightarrow> YUIDimension \<Rightarrow> int \<Rightarrow> int \<Rightarrow> child_view list \<Rightarrow> rect list" where
  "box_setSize reverseLayout primary newWidth newHeight cs =
     (let (widths, x_pos, heights, y_pos) =
            (if primary = YD_HORIZ
             then (let (ws, xs) = calcPrimaryGeometry primary newWidth cs;
                       (hs, ys) = calcSecondaryGeometry (other_dim primary) newHeight cs
                   in (ws, xs, hs, ys))
             else (let (hs, ys) = calcPrimaryGeometry primary newHeight cs;
                       (ws, xs) = calcSecondaryGeometry (other_dim primary) newWidth cs
                   in (ws, xs, hs, ys)));
          x_pos' = (if reverseLayout then map2 (\<lambda>x w. newWidth - x - w) x_pos widths else x_pos)
      in mk_rects x_pos' y_pos widths heights)"

section \<open>Sharing a loss\<close>

definition positives :: "int list \<Rightarrow> int" where
  "positives xs = int (length (filter (\<lambda>x. 0 < x) xs))"

lemma positives_simps [simp]:
  "positives [] = 0" "positives (x # xs) = (if 0 < x then 1 else 0) + positives xs"
  by (simp_all add: positives_def)

lemma positives_nonneg [simp]: "0 \<le> positives xs"
  by (simp add: positives_def)

lemma sum_list_pos_positives:
  "\<forall>x\<in>set xs. 0 \<le> x \<Longrightarrow> 0 < sum_list xs \<Longrightarrow> 0 < positives xs"
  by (induction xs) (auto simp: add_pos_nonneg)

abbreviation pass_sizes :: "int \<Rightarrow> int \<Rightarrow> int \<Rightarrow> int list \<Rightarrow> int list" where
  "pass_sizes t l d xs \<equiv> snd (snd (loss_pass t l d xs))"

text \<open>What is taken from the children is taken from the loss, and only from what they have.\<close>

lemma loss_pass_conserves:
  assumes "0 < d"
  shows "sum_list (pass_sizes t l d xs) - fst (loss_pass t l d xs) = sum_list xs - t"
  using assms
  by (induction t l d xs rule: loss_pass_induct)
    (auto simp: loss_pass_Cons Let_def simp del: loss_pass.simps(2))

lemma loss_pass_between:
  assumes "0 < d" "\<forall>x\<in>set xs. 0 \<le> x"
  shows "list_all2 (\<lambda>y x. 0 \<le> y \<and> y \<le> x) (pass_sizes t l d xs) xs"
  using assms
  by (induction t l d xs rule: loss_pass_induct)
    (auto simp: loss_pass_Cons Let_def list_all2_same simp del: loss_pass.simps(2))

lemma loss_pass_losers:
  assumes "0 < d"
  shows "positives (pass_sizes t l d xs) - fst (snd (loss_pass t l d xs)) \<le> positives xs - l"
  using assms
  by (induction t l d xs rule: loss_pass_induct)
    (auto simp: loss_pass_Cons Let_def simp del: loss_pass.simps(2))

lemma loss_pass_progress:
  assumes "0 < d" "0 < t" "0 < positives xs"
  shows "fst (loss_pass t l d xs) < t"
  using assms
proof (induction t l d xs rule: loss_pass_induct)
  case (used_up t l d x xs)
  have "fst (loss_pass (t - x) (l - 1) (next_share (t - x) (l - 1) d) xs) \<le> t - x"
    using loss_pass_decreases[OF next_share_pos[OF used_up(1)]] by blast
  then show ?case
    using used_up by (simp add: loss_pass_Cons Let_def del: loss_pass.simps(2))
next
  case (share t l d x xs)
  have "fst (loss_pass (t - d) l d xs) \<le> t - d"
    using loss_pass_decreases[OF share(1)] by blast
  then show ?case
    using share by (simp add: loss_pass_Cons Let_def del: loss_pass.simps(2))
qed (auto simp: loss_pass_Cons Let_def simp del: loss_pass.simps(2))

text \<open>A share times the children that can take it never exceeds the loss.\<close>

lemma next_share_bound:
  assumes "0 \<le> t" "0 \<le> k" "k \<le> l" "0 < d"
  shows "next_share t l d = 1 \<or> next_share t l d * k \<le> t"
proof (cases "0 < l")
  case True
  show ?thesis
  proof (cases "c_div t l \<le> 1")
    case True
    with \<open>0 < l\<close> show ?thesis by (simp add: next_share_def max_def)
  next
    case False
    then have "next_share t l d = c_div t l" using \<open>0 < l\<close> by (simp add: next_share_def)
    moreover have "c_div t l * k \<le> c_div t l * l" using False assms(3) by (intro mult_left_mono) auto
    ultimately show ?thesis using c_div_mult_le[OF assms(1) \<open>0 < l\<close>] by (intro disjI2) simp
  qed
next
  case False
  then have "k = 0" using assms by simp
  then show ?thesis using assms(1) by simp
qed

lemma share_le:
  fixes d k t :: int
  assumes "0 < d" "0 \<le> k" "d * (1 + k) \<le> t"
  shows "d \<le> t"
proof -
  have "d * 1 \<le> d * (1 + k)" using assms(1,2) by (intro mult_left_mono) simp_all
  then show ?thesis using assms(3) by simp
qed

lemma loss_pass_nonneg:
  assumes "0 < d" "0 \<le> t" "d = 1 \<or> d * positives xs \<le> t" "positives xs \<le> l"
  shows "0 \<le> fst (loss_pass t l d xs)"
  using assms
proof (induction t l d xs rule: loss_pass_induct)
  case (used_up t l d x xs)
  have "d \<noteq> 1" using used_up(3,4) by linarith
  then have "d * (1 + positives xs) \<le> t" using used_up(4,7) by simp
  then have "d \<le> t" by (rule share_le[OF used_up(1) positives_nonneg])
  then have t: "0 \<le> t - x" using used_up(3) by simp
  have k: "positives xs \<le> l - 1" using used_up(4,8) by simp
  show ?case
    using used_up(5)[OF t next_share_bound[OF t positives_nonneg k used_up(1)] k] used_up(2-4)
    by (simp add: loss_pass_Cons Let_def del: loss_pass.simps(2))
next
  case (share t l d x xs)
  have pos: "0 < x" using share(1,3) by simp
  have "0 \<le> t - d"
  proof (cases "d = 1")
    case False
    then have "d * (1 + positives xs) \<le> t" using share(6) pos by simp
    then show ?thesis using share_le[OF share(1) positives_nonneg] by simp
  qed (use share(2) in simp)
  moreover have "d = 1 \<or> d * positives xs \<le> t - d"
    using share(6) pos by (auto simp: algebra_simps)
  ultimately show ?case
    using share(2-4,7) pos by (simp add: loss_pass_Cons Let_def del: loss_pass.simps(2))
qed (auto simp: loss_pass_Cons Let_def simp del: loss_pass.simps(2))

lemma between_trans:
  "list_all2 (\<lambda>y x. 0 \<le> y \<and> y \<le> x) zs ys \<Longrightarrow> list_all2 (\<lambda>y x. 0 \<le> y \<and> y \<le> (x::int)) ys xs \<Longrightarrow>
     list_all2 (\<lambda>y x. 0 \<le> y \<and> y \<le> x) zs xs"
  by (rule list_all2_trans[where ?P1.0 = "\<lambda>y x. 0 \<le> y \<and> y \<le> x" and ?P2.0 = "\<lambda>y x. 0 \<le> y \<and> y \<le> x"]) auto

text \<open>
  The loop takes exactly the loss, and its guard against endless looping never fires.
\<close>

lemma loss_loop_exact:
  assumes "\<forall>x\<in>set xs. 0 \<le> x" "0 \<le> t" "t \<le> sum_list xs" "positives xs \<le> l"
  shows "sum_list (loss_loop t l t l xs) = sum_list xs - t
     \<and> list_all2 (\<lambda>y x. 0 \<le> y \<and> y \<le> x) (loss_loop t l t l xs) xs"
  using assms
proof (induction "nat t" arbitrary: t l xs rule: less_induct)
  case less
  have refl: "list_all2 (\<lambda>y x. 0 \<le> y \<and> y \<le> x) xs xs" using less(2) by (simp add: list_all2_same)
  show ?case
  proof (cases "0 < t")
    case False
    then show ?thesis using refl less(3) by (subst (1 2) loss_loop.simps) auto
  next
    case True
    have pos: "0 < positives xs" using sum_list_pos_positives[OF less(2)] less(4) True by simp
    then have l: "0 < l" using less(5) by simp
    define d where "d = max (c_div t l) 1"
    have d: "0 < d" by (simp add: d_def less_max_iff_disj)
    let ?r = "loss_pass t l d xs"
    have lt: "fst ?r < t" by (rule loss_pass_progress[OF d True pos])
    have "d = next_share t l d" using l by (simp add: d_def next_share_def)
    then have db: "d = 1 \<or> d * positives xs \<le> t"
      using next_share_bound[OF less(3) positives_nonneg less(5) d] by simp
    have nn: "0 \<le> fst ?r" by (rule loss_pass_nonneg[OF d less(3) db less(5)])
    note bt = loss_pass_between[OF d less(2), of t l]
    have nny: "\<forall>x\<in>set (pass_sizes t l d xs). 0 \<le> x"
      using bt by (auto simp: list_all2_conv_all_nth in_set_conv_nth)
    have cons: "sum_list (pass_sizes t l d xs) - fst ?r = sum_list xs - t"
      by (rule loss_pass_conserves[OF d])
    have kl: "positives (pass_sizes t l d xs) \<le> fst (snd ?r)"
      using loss_pass_losers[OF d, of t l xs] less(5) by simp
    have step: "loss_loop t l t l xs =
        loss_loop (fst ?r) (fst (snd ?r)) (fst ?r) (fst (snd ?r)) (pass_sizes t l d xs)"
      using True l lt by (subst loss_loop.simps) (simp add: d_def[symmetric] Let_def)
    have "nat (fst ?r) < nat t" "fst ?r \<le> sum_list (pass_sizes t l d xs)"
      using lt nn less(4) cons by auto
    from less(1)[OF this(1) nny nn this(2) kl] show ?thesis
      unfolding step using cons between_trans[OF _ bt] by simp
  qed
qed

section \<open>Sizes when there is not enough space\<close>

text \<open>
  Sizes and weights of the toolkits are not negative, and the margins of an alignment are part of
  its preferred size.
\<close>

definition good_child :: "YUIDimension \<Rightarrow> child_view \<Rightarrow> bool" where
  "good_child p c \<longleftrightarrow> 0 \<le> c_pref p c \<and> 0 \<le> c_weight p c \<and> 0 \<le> c_margins p c \<and> c_margins p c \<le> c_pref p c"

definition stripped :: "YUIDimension \<Rightarrow> child_view \<Rightarrow> int" where
  "stripped p c = (if c_hasWeight p c then 0 else c_pref p c - c_margins p c)"

lemma initial_sizes_stripped:
  assumes "trunc q = 0 \<or> r \<le> 0"
  shows "initial_sizes p q r cs = map (stripped p) cs"
  using assms
proof (induction cs arbitrary: r)
  case (Cons c cs)
  have "trunc q = 0 \<or> r - trunc q * m \<le> 0" if "r > 0" for m using Cons.prems that by auto
  then show ?case
    using Cons by (auto simp: stripped_def c_margins_def Let_def split: option.splits)
qed simp

lemma sum_list_if:
  "sum_list (map (\<lambda>c. if P c then f c else g c) cs)
     = sum_list (map f (filter P cs)) + (sum_list (map g (filter (\<lambda>c. \<not> P c) cs)) :: int)"
  by (induction cs) auto

lemma sum_list_const: "sum_list (map (\<lambda>_. k) cs) = (k::int) * int (length cs)"
  by (induction cs) (simp_all add: algebra_simps)

lemma sum_list_minus:
  "sum_list (map (\<lambda>c. f c - g c) cs) = sum_list (map f cs) - (sum_list (map g cs) :: int)"
  by (induction cs) simp_all

lemma sum_stripped:
  "sum_list (map (stripped p) cs) = totalNonWeightedChildrenPreferredSize p cs - total_margins p cs"
  unfolding stripped_def[abs_def] sum_list_if
  by (simp add: sum_list_minus totalNonWeightedChildrenPreferredSize_def total_margins_def)

lemma trunc_fraction: "0 < r \<Longrightarrow> r < t \<Longrightarrow> trunc (of_int r / of_int t) = 0"
  by (simp add: trunc_def floor_divide_of_int_eq[where 'a = rat] div_pos_pos_trivial)

lemma positives_stripped:
  assumes "\<forall>c\<in>set cs. good_child p c"
  shows "positives (map (stripped p) cs) \<le> countNonWeightedChildren p cs"
  unfolding countNonWeightedChildren_def by (induction cs) (auto simp: stripped_def)

lemma stripped_nonneg: "\<forall>c\<in>set cs. good_child p c \<Longrightarrow> \<forall>x\<in>set (map (stripped p) cs). 0 \<le> x"
  by (auto simp: stripped_def good_child_def)

lemma shrunk_sizes_loss:
  assumes "\<forall>c\<in>set cs. good_child p c" "0 \<le> newSize"
    "newSize + total_margins p cs \<le> totalNonWeightedChildrenPreferredSize p cs"
  shows "sum_list (shrunk_sizes p newSize cs) = newSize
     \<and> list_all2 (\<lambda>y c. 0 \<le> y \<and> y \<le> stripped p c) (shrunk_sizes p newSize cs) cs"
proof -
  let ?xs = "map (stripped p) cs" and ?t = "totalNonWeightedChildrenPreferredSize p cs - newSize - total_margins p cs"
  have sh: "shrunk_sizes p newSize cs =
      loss_loop ?t (countNonWeightedChildren p cs) ?t (countNonWeightedChildren p cs) ?xs"
    using assms(3) initial_sizes_stripped[of 0 0 p cs] by (simp add: shrunk_sizes_def Let_def)
  have "0 \<le> ?t" "?t \<le> sum_list ?xs" using assms(2,3) by (simp_all add: sum_stripped)
  from loss_loop_exact[OF stripped_nonneg[OF assms(1)] this positives_stripped[OF assms(1)]]
  show ?thesis
    unfolding sh by (simp add: sum_stripped list_all2_map2)
qed

lemma shrunk_sizes_margins:
  assumes "\<forall>c\<in>set cs. good_child p c"
    "newSize < totalNonWeightedChildrenPreferredSize p cs"
    "totalNonWeightedChildrenPreferredSize p cs < newSize + total_margins p cs"
  shows "shrunk_sizes p newSize cs = map (stripped p) cs"
proof -
  let ?ts = "totalNonWeightedChildrenPreferredSize p cs - newSize"
  let ?r = "total_margins p cs - ?ts"
  have "trunc (of_int ?r / of_int (total_margins p cs)) = 0"
    using assms(2,3) by (intro trunc_fraction) simp_all
  then have "initial_sizes p (of_int ?r / of_int (total_margins p cs)) ?r cs = map (stripped p) cs"
    by (intro initial_sizes_stripped) simp
  then show ?thesis
    using assms(2,3) by (simp add: shrunk_sizes_def Let_def loss_loop.simps algebra_simps)
qed

section \<open>Sizes when there is enough space\<close>

text \<open>Weighted shares are rounded down; together they fall short by less than one unit each.\<close>

lemma sum_shares:
  fixes D T :: int and ws :: "int list"
  assumes "0 \<le> D" "0 < T" "\<forall>w\<in>set ws. 0 \<le> w"
  shows "sum_list (map (\<lambda>w. c_div (D * w) T) ws) * T \<le> D * sum_list ws
     \<and> D * sum_list ws \<le> (sum_list (map (\<lambda>w. c_div (D * w) T) ws) + int (length ws)) * T
     \<and> (ws \<noteq> [] \<longrightarrow> D * sum_list ws < (sum_list (map (\<lambda>w. c_div (D * w) T) ws) + int (length ws)) * T)"
  using assms(3)
proof (induction ws)
  case (Cons w ws)
  have "0 \<le> D * w" using assms(1) Cons.prems by simp
  note le = c_div_mult_le[OF this assms(2)] and gt = c_div_mult_gt[OF this assms(2)]
  then show ?case using Cons by (simp add: algebra_simps)
qed simp

text \<open>The weights add up over the weighted children.\<close>

lemma total_weight_weighted:
  "\<forall>c\<in>set cs. good_child p c \<Longrightarrow>
     childrenTotalWeight p cs = sum_list (map (c_weight p) (filter (c_hasWeight p) cs))"
  unfolding childrenTotalWeight_def by (induction cs) (auto simp: c_hasWeight_def good_child_def)

lemma total_weight_nonneg: "\<forall>c\<in>set cs. good_child p c \<Longrightarrow> 0 \<le> childrenTotalWeight p cs"
  unfolding childrenTotalWeight_def by (intro sum_list_nonneg) (auto simp: good_child_def)

lemma no_weighted:
  assumes "\<forall>c\<in>set cs. good_child p c" "childrenTotalWeight p cs \<le> 0"
  shows "\<forall>c\<in>set cs. \<not> c_hasWeight p c"
proof
  fix c assume c: "c \<in> set cs"
  have nn: "\<forall>w\<in>set (map (c_weight p) cs). 0 \<le> w" using assms(1) by (auto simp: good_child_def)
  have "sum_list (map (c_weight p) cs) = 0"
    using assms total_weight_nonneg[OF assms(1)] by (simp add: childrenTotalWeight_def)
  then have "\<forall>w\<in>set (map (c_weight p) cs). w = 0"
    using sum_list_nonneg_eq_0_iff[of "map (c_weight p) cs"] nn by auto
  then show "\<not> c_hasWeight p c" using c by (auto simp: c_hasWeight_def)
qed

lemma nonweighted_pref_nonneg:
  "\<forall>c\<in>set cs. good_child p c \<Longrightarrow> 0 \<le> totalNonWeightedChildrenPreferredSize p cs"
  unfolding totalNonWeightedChildrenPreferredSize_def
  by (intro sum_list_nonneg) (auto simp: good_child_def)

text \<open>The dominating child is a weighted one whose ratio of size and weight is the largest.\<close>

definition ratio :: "YUIDimension \<Rightarrow> child_view \<Rightarrow> rat" where
  "ratio p c = of_int (c_pref p c) / of_int (c_weight p c)"

definition ratio_of :: "YUIDimension \<Rightarrow> child_view option \<Rightarrow> rat" where
  "ratio_of p dc = (case dc of None \<Rightarrow> 0 | Some d \<Rightarrow> ratio p d)"

lemma dominating_loop_simp:
  "findDominatingChild_loop p dc (ratio_of p dc) (c # cs) =
     (if c_weight p c \<noteq> 0 \<and> ratio p c > ratio_of p dc
      then findDominatingChild_loop p (Some c) (ratio_of p (Some c)) cs
      else findDominatingChild_loop p dc (ratio_of p dc) cs)"
  by (simp add: ratio_def ratio_of_def Let_def)

lemma dominating_loop_max:
  "ratio_of p dc \<le> ratio_of p (findDominatingChild_loop p dc (ratio_of p dc) cs) \<and>
   (\<forall>c\<in>set cs. c_weight p c \<noteq> 0 \<longrightarrow>
      ratio p c \<le> ratio_of p (findDominatingChild_loop p dc (ratio_of p dc) cs))"
proof (induction cs arbitrary: dc)
  case (Cons c cs)
  have rs: "ratio_of p (Some c) = ratio p c" by (simp add: ratio_of_def)
  show ?case
  proof (cases "c_weight p c \<noteq> 0 \<and> ratio p c > ratio_of p dc")
    case True
    show ?thesis
      unfolding dominating_loop_simp if_P[OF True] using Cons.IH[of "Some c"] True rs by auto
  next
    case False
    show ?thesis
      unfolding dominating_loop_simp if_not_P[OF False] using Cons.IH[of dc] False by auto
  qed
qed simp

lemma dominating_loop_member:
  "findDominatingChild_loop p dc (ratio_of p dc) cs = dc \<or>
   (\<exists>d\<in>set cs. findDominatingChild_loop p dc (ratio_of p dc) cs = Some d \<and> c_weight p d \<noteq> 0)"
proof (induction cs arbitrary: dc)
  case (Cons c cs)
  show ?case
  proof (cases "c_weight p c \<noteq> 0 \<and> ratio p c > ratio_of p dc")
    case True
    show ?thesis
      unfolding dominating_loop_simp if_P[OF True] using Cons.IH[of "Some c"] True by auto
  next
    case False
    show ?thesis
      unfolding dominating_loop_simp if_not_P[OF False] using Cons.IH[of dc] by auto
  qed
qed simp

text \<open>
  The dominating child is a weighted child of largest ratio; without one, weighted children want
  no space at all.
\<close>

lemma findDominatingChild_Some:
  assumes "findDominatingChild p cs = Some d" "\<forall>c\<in>set cs. good_child p c"
  shows "d \<in> set cs" "0 < c_weight p d"
    "\<And>c. c \<in> set cs \<Longrightarrow> c_hasWeight p c \<Longrightarrow> c_pref p c * c_weight p d \<le> c_pref p d * c_weight p c"
proof -
  have f: "findDominatingChild_loop p None (ratio_of p None) cs = Some d"
    using assms(1) by (simp add: findDominatingChild_def ratio_of_def)
  from dominating_loop_member[of p None cs] have d: "d \<in> set cs" "c_weight p d \<noteq> 0" unfolding f by auto
  then show "d \<in> set cs" "0 < c_weight p d" using assms(2) by (auto simp: good_child_def)
  fix c assume c: "c \<in> set cs" "c_hasWeight p c"
  from dominating_loop_max[of p None cs] have "ratio p c \<le> ratio p d"
    unfolding f using c by (auto simp: ratio_of_def c_hasWeight_def)
  then have "of_int (c_pref p c * c_weight p d) \<le> (of_int (c_pref p d * c_weight p c) :: rat)"
    using c(2) \<open>0 < c_weight p d\<close> by (simp add: ratio_def c_hasWeight_def divide_le_eq le_divide_eq field_simps)
  then show "c_pref p c * c_weight p d \<le> c_pref p d * c_weight p c" by linarith
qed

lemma findDominatingChild_None:
  assumes "findDominatingChild p cs = None" "\<forall>c\<in>set cs. good_child p c" "c \<in> set cs" "c_hasWeight p c"
  shows "c_pref p c = 0"
proof -
  have f: "findDominatingChild_loop p None (ratio_of p None) cs = None"
    using assms(1) by (simp add: findDominatingChild_def ratio_of_def)
  from dominating_loop_max[of p None cs] have "ratio p c \<le> 0"
    unfolding f using assms(3,4) by (auto simp: ratio_of_def c_hasWeight_def)
  then have "of_int (c_pref p c) \<le> (0::rat)"
    using assms(4) by (simp add: ratio_def c_hasWeight_def divide_le_0_iff)
  then show ?thesis using assms(2,3) by (force simp: good_child_def)
qed

text \<open>The part of the preferred size that the weighted children need.\<close>

definition weighted_pref :: "YUIDimension \<Rightarrow> child_view list \<Rightarrow> int" where
  "weighted_pref p cs =
     (case findDominatingChild p cs of
        None \<Rightarrow> 0
      | Some d \<Rightarrow> c_div (c_pref p d * childrenTotalWeight p cs) (c_weight p d))"

lemma box_preferredSize_primary:
  "box_preferredSize p p cs = weighted_pref p cs + totalNonWeightedChildrenPreferredSize p cs"
  by (simp add: box_preferredSize_def weighted_pref_def)

lemma weighted_pref_nonneg:
  assumes "\<forall>c\<in>set cs. good_child p c"
  shows "0 \<le> weighted_pref p cs"
proof (cases "findDominatingChild p cs")
  case (Some d)
  note d = findDominatingChild_Some[OF Some assms]
  then have "0 \<le> c_pref p d * childrenTotalWeight p cs"
    using assms total_weight_nonneg[OF assms] by (auto simp: good_child_def)
  then show ?thesis using d(2) by (simp add: weighted_pref_def Some c_div_nonneg)
qed (simp add: weighted_pref_def)

lemma weighted_pref_enough:
  assumes good: "\<forall>c\<in>set cs. good_child p c" and c: "c \<in> set cs" "c_hasWeight p c"
  shows "c_pref p c * childrenTotalWeight p cs < (weighted_pref p cs + 1) * c_weight p c"
proof (cases "findDominatingChild p cs")
  case None
  then show ?thesis
    using findDominatingChild_None[OF None good c] c(2) by (simp add: weighted_pref_def c_hasWeight_def)
next
  case (Some d)
  note d = findDominatingChild_Some[OF Some good]
  let ?T = "childrenTotalWeight p cs" and ?w = "c_weight p c" and ?dw = "c_weight p d"
  have T: "0 \<le> ?T" by (rule total_weight_nonneg[OF good])
  have w: "0 < ?w" using c(2) by (simp add: c_hasWeight_def)
  have "0 \<le> c_pref p d * ?T" using d(1) good T by (auto simp: good_child_def)
  from c_div_mult_gt[OF this d(2)] have gt: "c_pref p d * ?T < (weighted_pref p cs + 1) * ?dw"
    by (simp add: weighted_pref_def Some algebra_simps)
  have "c_pref p c * ?T * ?dw \<le> c_pref p d * ?T * ?w"
    using mult_right_mono[OF d(3)[OF c] T] by (simp add: algebra_simps)
  also have "\<dots> < (weighted_pref p cs + 1) * ?dw * ?w"
    using mult_strict_right_mono[OF gt w] by simp
  finally have "(c_pref p c * ?T) * ?dw < ((weighted_pref p cs + 1) * ?w) * ?dw"
    by (simp add: algebra_simps)
  then show ?thesis using d(2) by (simp add: mult_less_cancel_right_pos)
qed

lemma count_nonneg [simp]:
  "0 \<le> countLayoutStretchChildren p cs" "0 \<le> countStretchableChildren p cs"
  by (simp_all add: countLayoutStretchChildren_def countStretchableChildren_def)

lemma normal_extras_weighted:
  assumes "\<forall>c\<in>set cs. good_child p c" "0 < childrenTotalWeight p cs"
    "totalNonWeightedChildrenPreferredSize p cs \<le> newSize"
  obtains r D where "normal_extras p newSize cs = (0, r, D)" "0 \<le> r" "0 \<le> D"
    "D + r * countLayoutStretchChildren p cs = newSize - totalNonWeightedChildrenPreferredSize p cs"
    "box_preferredSize p p cs \<le> newSize \<longrightarrow> weighted_pref p cs \<le> D"
proof (cases "newSize - box_preferredSize p p cs > 0 \<and> countLayoutStretchChildren p cs > 0")
  case True
  let ?R = "countLayoutStretchChildren p cs" and ?s = "newSize - box_preferredSize p p cs"
  let ?r = "c_div ?s ?R" and ?D = "newSize - totalNonWeightedChildrenPreferredSize p cs"
  have "normal_extras p newSize cs = (0, ?r, ?D - ?r * ?R)"
    using True assms(2) by (simp add: normal_extras_def Let_def)
  moreover have "0 \<le> ?r" using True by (simp add: c_div_nonneg)
  moreover have "?r * ?R \<le> ?s" using c_div_mult_le[of ?s ?R] True by simp
  then have "weighted_pref p cs \<le> ?D - ?r * ?R" by (simp add: box_preferredSize_primary)
  ultimately show thesis
    using that[of ?r "?D - ?r * ?R"] weighted_pref_nonneg[OF assms(1)] by simp
next
  case False
  have "normal_extras p newSize cs = (0, 0, newSize - totalNonWeightedChildrenPreferredSize p cs)"
    using False assms(2) by (auto simp: normal_extras_def Let_def)
  then show thesis
    using that[of 0 "newSize - totalNonWeightedChildrenPreferredSize p cs"] assms(3)
    by (auto simp: box_preferredSize_primary)
qed

lemma sum_list_indicator: "sum_list (map (\<lambda>c. if P c then k else 0) cs) = (k::int) * int (length (filter P cs))"
  by (induction cs) (simp_all add: algebra_simps)

lemma sum_list_add:
  "sum_list (map (\<lambda>c. f c + g c) cs) = sum_list (map f cs) + (sum_list (map g cs) :: int)"
  by (induction cs) simp_all

text \<open>The sizes add up to what is handed out: the shares, the preferred sizes and the extras.\<close>

lemma sum_normal_sizes:
  assumes "normal_extras p newSize cs = (e, r, D)"
  shows "sum_list (normal_sizes p newSize cs) =
     sum_list (map (\<lambda>w. c_div (D * w) (childrenTotalWeight p cs)) (map (c_weight p) (filter (c_hasWeight p) cs)))
     + totalNonWeightedChildrenPreferredSize p cs + e * countStretchableChildren p cs
     + r * countLayoutStretchChildren p cs"
proof -
  have "normal_size p (e, r, D) (childrenTotalWeight p cs) =
      (\<lambda>c. if c_hasWeight p c then c_div (D * c_weight p c) (childrenTotalWeight p cs)
        else c_pref p c + (if c_stretchable p c then e else 0) + (if isLayoutStretch p c then r else 0))"
    by (rule ext) (simp add: normal_size_def)
  then show ?thesis
    unfolding normal_sizes_def assms
    by (simp add: sum_list_if sum_list_add sum_list_indicator totalNonWeightedChildrenPreferredSize_def
        countStretchableChildren_def countLayoutStretchChildren_def sum_list_const comp_def conj_commute)
qed

text \<open>Who takes part in sharing extra space: weighted children, or stretchable ones without weights.\<close>

definition takers :: "YUIDimension \<Rightarrow> child_view list \<Rightarrow> int" where
  "takers p cs =
     (if childrenTotalWeight p cs > 0 then int (length (filter (c_hasWeight p) cs))
      else countStretchableChildren p cs)"

lemma normal_sum_weighted:
  assumes good: "\<forall>c\<in>set cs. good_child p c" and T: "0 < childrenTotalWeight p cs"
    and N: "totalNonWeightedChildrenPreferredSize p cs \<le> newSize"
  shows "sum_list (normal_sizes p newSize cs) \<le> newSize
     \<and> newSize - sum_list (normal_sizes p newSize cs) < takers p cs"
proof -
  obtain r D where ex: "normal_extras p newSize cs = (0, r, D)" and D: "0 \<le> D"
    and split: "D + r * countLayoutStretchChildren p cs = newSize - totalNonWeightedChildrenPreferredSize p cs"
    using normal_extras_weighted[OF good T N] .
  let ?T = "childrenTotalWeight p cs" and ?ws = "map (c_weight p) (filter (c_hasWeight p) cs)"
  let ?S = "sum_list (map (\<lambda>w. c_div (D * w) ?T) ?ws)"
  have ws: "\<forall>w\<in>set ?ws. 0 \<le> w" by (auto simp: c_hasWeight_def)
  have sT: "sum_list ?ws = ?T" using total_weight_weighted[OF good] by simp
  then have ne: "?ws \<noteq> []" using T by auto
  have "?S * ?T \<le> D * ?T" "D * ?T < (?S + int (length ?ws)) * ?T"
    using sum_shares[OF D T ws] ne unfolding sT by auto
  then have "?S \<le> D" "D < ?S + int (length ?ws)"
    using T by (simp_all add: mult_le_cancel_right_pos mult_less_cancel_right_pos)
  then show ?thesis
    using split T unfolding sum_normal_sizes[OF ex] takers_def by (simp add: sum_list_map_eq_sum_count)
qed

lemma normal_sum_unweighted:
  assumes good: "\<forall>c\<in>set cs. good_child p c" and T: "\<not> 0 < childrenTotalWeight p cs"
    and N: "totalNonWeightedChildrenPreferredSize p cs \<le> newSize"
  shows "sum_list (normal_sizes p newSize cs) \<le> newSize
     \<and> (0 < takers p cs \<longrightarrow> newSize - sum_list (normal_sizes p newSize cs) < takers p cs)"
proof -
  let ?D = "newSize - totalNonWeightedChildrenPreferredSize p cs" and ?S = "countStretchableChildren p cs"
  define e where "e = (if ?S > 0 then c_div ?D ?S else 0)"
  have ex: "normal_extras p newSize cs = (e, 0, ?D)"
    using T by (simp add: normal_extras_def Let_def e_def)
  have none: "filter (c_hasWeight p) cs = []"
    using no_weighted[OF good] T by (simp add: filter_empty_conv)
  have "e * ?S \<le> ?D" using c_div_mult_le[of ?D ?S] N by (simp add: e_def)
  moreover have "?D - ?S < e * ?S" if "?S > 0" using c_div_mult_gt[of ?D ?S] N that by (simp add: e_def)
  ultimately show ?thesis
    using T unfolding sum_normal_sizes[OF ex] takers_def by (simp add: none) linarith
qed

lemma normal_sizes_nonneg:
  assumes good: "\<forall>c\<in>set cs. good_child p c" and N: "totalNonWeightedChildrenPreferredSize p cs \<le> newSize"
    and c: "c \<in> set cs"
  shows "0 \<le> normal_size p (normal_extras p newSize cs) (childrenTotalWeight p cs) c"
    "\<not> c_hasWeight p c \<longrightarrow> c_pref p c \<le> normal_size p (normal_extras p newSize cs) (childrenTotalWeight p cs) c"
proof -
  obtain e r D where ex: "normal_extras p newSize cs = (e, r, D)" by (cases "normal_extras p newSize cs")
  have gc: "0 \<le> c_pref p c" "0 \<le> c_weight p c" using good c by (auto simp: good_child_def)
  have nn: "0 \<le> e \<and> 0 \<le> r \<and> (c_hasWeight p c \<longrightarrow> 0 \<le> D \<and> 0 < childrenTotalWeight p cs)"
  proof (cases "0 < childrenTotalWeight p cs")
    case True
    then show ?thesis using normal_extras_weighted[OF good True N] ex by (metis order_refl prod.inject)
  next
    case False
    have "\<not> c_hasWeight p c" using no_weighted[OF good] False c by simp
    then show ?thesis
      using ex False N c_div_nonneg[of "newSize - totalNonWeightedChildrenPreferredSize p cs"]
      by (auto simp: normal_extras_def Let_def split: if_splits)
  qed
  then show "0 \<le> normal_size p (normal_extras p newSize cs) (childrenTotalWeight p cs) c"
    using gc by (simp add: normal_size_def ex c_div_nonneg)
  show "\<not> c_hasWeight p c \<longrightarrow> c_pref p c \<le> normal_size p (normal_extras p newSize cs) (childrenTotalWeight p cs) c"
    using nn by (simp add: normal_size_def ex)
qed

section \<open>Placing children one after another\<close>

text \<open>
  Children are placed in order: each starts where the one before ends or later, and all lie in
  the first \<open>n\<close> units.
\<close>

definition in_order :: "int \<Rightarrow> int list \<Rightarrow> int list \<Rightarrow> bool" where
  "in_order n sizes pos \<longleftrightarrow> length pos = length sizes \<and>
     (\<forall>i<length sizes. 0 \<le> sizes ! i \<and> 0 \<le> pos ! i \<and> pos ! i + sizes ! i \<le> n) \<and>
     (\<forall>i j. i < j \<and> j < length sizes \<longrightarrow> pos ! i + sizes ! i \<le> pos ! j)"

lemma prefix_sums_in_order:
  assumes "\<forall>x\<in>set xs. 0 \<le> x" "sum_list xs \<le> n"
  shows "in_order n xs (prefix_sums 0 xs)"
proof -
  have end_at: "prefix_sums 0 xs ! i + xs ! i = sum_list (take (Suc i) xs)" if "i < length xs" for i
    using that by (simp add: prefix_sums_nth sum_list_take_Suc)
  have start: "0 \<le> prefix_sums 0 xs ! i" if "i < length xs" for i
    using that assms(1) by (auto simp: prefix_sums_nth intro!: sum_list_nonneg dest: in_set_takeD)
  have "sum_list (take (Suc i) xs) \<le> n" for i
    using sum_list_take_le[OF assms(1), of "Suc i"] assms(2) by linarith
  moreover have "sum_list (take (Suc i) xs) \<le> prefix_sums 0 xs ! j" if "i < j" "j < length xs" for i j
    using that sum_list_take_mono[OF assms(1), of "Suc i" j] by (simp add: prefix_sums_nth)
  ultimately show ?thesis
    using assms(1) end_at start by (simp add: in_order_def)
qed

lemma primary_sizes_ok:
  assumes good: "\<forall>c\<in>set cs. good_child p c" and n: "0 \<le> newSize"
  defines "sizes \<equiv> fst (calcPrimaryGeometry p newSize cs)"
  shows "length sizes = length cs" "\<forall>x\<in>set sizes. 0 \<le> x" "sum_list sizes \<le> newSize"
proof -
  let ?N = "totalNonWeightedChildrenPreferredSize p cs"
  consider (normal) "?N \<le> newSize" | (margins) "newSize < ?N" "?N < newSize + total_margins p cs"
    | (loss) "newSize < ?N" "newSize + total_margins p cs \<le> ?N" by linarith
  then have "length sizes = length cs \<and> (\<forall>x\<in>set sizes. 0 \<le> x) \<and> sum_list sizes \<le> newSize"
  proof cases
    case normal
    then have s: "sizes = normal_sizes p newSize cs" by (simp add: sizes_def calcPrimaryGeometry_def Let_def)
    have "\<forall>x\<in>set sizes. 0 \<le> x"
      using normal_sizes_nonneg(1)[OF good normal] by (auto simp: s normal_sizes_def)
    moreover have "sum_list sizes \<le> newSize"
      using normal_sum_weighted[OF good _ normal] normal_sum_unweighted[OF good _ normal]
      unfolding s by (cases "0 < childrenTotalWeight p cs") simp_all
    ultimately show ?thesis by (simp add: s normal_sizes_def)
  next
    case margins
    then have s: "sizes = map (stripped p) cs"
      using shrunk_sizes_margins[OF good margins] by (simp add: sizes_def calcPrimaryGeometry_def Let_def)
    show ?thesis
      using margins stripped_nonneg[OF good] unfolding s by (simp add: sum_stripped)
  next
    case loss
    then have s: "sizes = shrunk_sizes p newSize cs" by (simp add: sizes_def calcPrimaryGeometry_def Let_def)
    show ?thesis
      using shrunk_sizes_loss[OF good n loss(2)] unfolding s
      by (auto simp: list_all2_conv_all_nth in_set_conv_nth)
  qed
  then show "length sizes = length cs" "\<forall>x\<in>set sizes. 0 \<le> x" "sum_list sizes \<le> newSize" by auto
qed

lemma primary_in_order:
  assumes "\<forall>c\<in>set cs. good_child p c" "0 \<le> newSize"
  shows "in_order newSize (fst (calcPrimaryGeometry p newSize cs)) (snd (calcPrimaryGeometry p newSize cs))"
proof -
  have "snd (calcPrimaryGeometry p newSize cs) = prefix_sums 0 (fst (calcPrimaryGeometry p newSize cs))"
    by (simp add: calcPrimaryGeometry_def Let_def)
  then show ?thesis using prefix_sums_in_order primary_sizes_ok[OF assms] by simp
qed

lemma secondary_inside:
  assumes "0 \<le> newSize" "0 \<le> c_pref s c"
  shows "0 \<le> secondary_size s newSize c \<and> 0 \<le> secondary_pos s newSize c
     \<and> secondary_pos s newSize c + secondary_size s newSize c \<le> newSize"
  using assms c_div_nonneg[of "newSize - c_pref s c" 2] c_div_mult_le[of "newSize - c_pref s c" 2]
  by (simp add: secondary_size_def secondary_pos_def) linarith

text \<open>Rectangles inside a box, and rectangles side by side.\<close>

definition inside :: "int \<Rightarrow> int \<Rightarrow> rect \<Rightarrow> bool" where
  "inside width height r \<longleftrightarrow> 0 \<le> r_x r \<and> 0 \<le> r_y r \<and> 0 \<le> r_w r \<and> 0 \<le> r_h r
     \<and> r_x r + r_w r \<le> width \<and> r_y r + r_h r \<le> height"

definition apart :: "rect \<Rightarrow> rect \<Rightarrow> bool" where
  "apart a b \<longleftrightarrow> r_x a + r_w a \<le> r_x b \<or> r_x b + r_w b \<le> r_x a
     \<or> r_y a + r_h a \<le> r_y b \<or> r_y b + r_h b \<le> r_y a"

lemma mk_rects_nth:
  assumes "length xs = n" "length ys = n" "length ws = n" "length hs = n"
  shows "length (mk_rects xs ys ws hs) = n \<and>
    (\<forall>i<n. mk_rects xs ys ws hs ! i = \<lparr>r_x = xs ! i, r_y = ys ! i, r_w = ws ! i, r_h = hs ! i\<rparr>)"
  using assms
proof (induction xs ys ws hs arbitrary: n rule: mk_rects.induct)
  case (1 x xs y ys w ws h hs)
  then obtain m where n: "n = Suc m" "length xs = m" "length ys = m" "length ws = m" "length hs = m" by auto
  show ?case
    using 1(1)[OF n(2-5)] n(1) by (auto simp: nth_Cons split: nat.split)
qed auto

lemma secondary_geometry:
  assumes "\<forall>c\<in>set cs. 0 \<le> c_pref s c" "0 \<le> newSize" "i < length cs"
  shows "0 \<le> fst (calcSecondaryGeometry s newSize cs) ! i \<and> 0 \<le> snd (calcSecondaryGeometry s newSize cs) ! i
    \<and> snd (calcSecondaryGeometry s newSize cs) ! i + fst (calcSecondaryGeometry s newSize cs) ! i \<le> newSize"
  using secondary_inside[OF assms(2), of s "cs ! i"] assms(1,3) by (simp add: calcSecondaryGeometry_def)

lemma secondary_lengths [simp]:
  "length (fst (calcSecondaryGeometry s n cs)) = length cs" "length (snd (calcSecondaryGeometry s n cs)) = length cs"
  by (simp_all add: calcSecondaryGeometry_def)

lemma mirror_inside:
  fixes x w n :: int
  assumes "0 \<le> x" "0 \<le> w" "x + w \<le> n"
  shows "0 \<le> (if b then n - x - w else x) \<and> (if b then n - x - w else x) + w \<le> n"
  using assms by auto

lemma box_setSize_ok:
  fixes rl
  assumes good: "\<forall>c\<in>set cs. good_child p c" and sec: "\<forall>c\<in>set cs. 0 \<le> c_pref (other_dim p) c"
    and n: "0 \<le> width" "0 \<le> height"
  defines "rs \<equiv> box_setSize rl p width height cs"
  shows "length rs = length cs" "\<forall>i<length cs. inside width height (rs ! i)"
    "\<forall>i j. i < j \<and> j < length cs \<longrightarrow> apart (rs ! i) (rs ! j)"
proof -
  define np where "np = (if p = YD_HORIZ then width else height)"
  define ns where "ns = (if p = YD_HORIZ then height else width)"
  define P where "P = calcPrimaryGeometry p np cs"
  define S where "S = calcSecondaryGeometry (other_dim p) ns cs"
  have np: "0 \<le> np" "0 \<le> ns" using n by (auto simp: np_def ns_def)
  note ord = primary_in_order[OF good np(1), folded P_def] and len = primary_sizes_ok(1)[OF good np(1), folded P_def]
  note so = secondary_geometry[OF sec np(2), folded S_def]
  let ?ws = "if p = YD_HORIZ then fst P else fst S" and ?hs = "if p = YD_HORIZ then fst S else fst P"
  let ?xs0 = "if p = YD_HORIZ then snd P else snd S" and ?ys = "if p = YD_HORIZ then snd S else snd P"
  define xs where "xs = (if rl then map2 (\<lambda>x w. width - x - w) ?xs0 ?ws else ?xs0)"
  have rs: "rs = mk_rects xs ?ys ?ws ?hs"
    by (simp add: rs_def box_setSize_def xs_def P_def S_def np_def ns_def split_beta Let_def)
  have ls: "length (fst S) = length cs" "length (snd S) = length cs" by (simp_all add: S_def)
  have lp: "length (snd P) = length cs" using ord len by (simp add: in_order_def)
  have lens: "length xs = length cs" "length ?ys = length cs" "length ?ws = length cs" "length ?hs = length cs"
    using len lp ls by (simp_all add: xs_def)
  note nth = mk_rects_nth[OF lens, folded rs]
  have x: "xs ! i = (if rl then width - ?xs0 ! i - ?ws ! i else ?xs0 ! i)" if "i < length cs" for i
    using that len lp ls by (simp add: xs_def)
  show "length rs = length cs" using nth by simp
  show "\<forall>i<length cs. inside width height (rs ! i)"
  proof (intro allI impI)
    fix i assume i: "i < length cs"
    have pr: "0 \<le> fst P ! i \<and> 0 \<le> snd P ! i \<and> snd P ! i + fst P ! i \<le> np"
      using ord len i by (simp add: in_order_def)
    have X: "0 \<le> ?xs0 ! i \<and> 0 \<le> ?ws ! i \<and> ?xs0 ! i + ?ws ! i \<le> width"
      using pr so[OF i] by (cases "p = YD_HORIZ") (simp_all add: np_def ns_def)
    have Y: "0 \<le> ?ys ! i \<and> 0 \<le> ?hs ! i \<and> ?ys ! i + ?hs ! i \<le> height"
      using pr so[OF i] by (cases "p = YD_HORIZ") (simp_all add: np_def ns_def)
    have "0 \<le> xs ! i \<and> xs ! i + ?ws ! i \<le> width"
      unfolding x[OF i] by (rule mirror_inside) (use X in blast)+
    then show "inside width height (rs ! i)"
      unfolding nth[THEN conjunct2, rule_format, OF i] inside_def rect.simps using X Y by blast
  qed
  show "\<forall>i j. i < j \<and> j < length cs \<longrightarrow> apart (rs ! i) (rs ! j)"
  proof (intro allI impI)
    fix i j assume ij: "i < j \<and> j < length cs"
    then have i: "i < length cs" and j: "j < length cs" by auto
    have "i < j \<and> j < length (fst P)" using ij len by simp
    then have "snd P ! i + fst P ! i \<le> snd P ! j" using ord unfolding in_order_def by blast
    then show "apart (rs ! i) (rs ! j)"
      unfolding nth[THEN conjunct2, rule_format, OF i] nth[THEN conjunct2, rule_format, OF j]
        apart_def rect.simps x[OF i] x[OF j]
      by (cases "p = YD_HORIZ"; cases rl) simp_all
  qed
qed

section \<open>Properties of the box layout\<close>

text \<open>A box with a weighted pair, a stretchable spacing and an alignment with margins.\<close>

definition view :: "int \<Rightarrow> int \<Rightarrow> int \<Rightarrow> bool \<Rightarrow> bool \<Rightarrow> int option \<Rightarrow> child_view" where
  "view w h wt st sp ms =
     \<lparr>cv_preferred = YBothDim w h, cv_weight = YBothDim wt 0, cv_stretchable = YBothDim st False,
      cv_isSpacing = sp, cv_margins = map_option (\<lambda>m. YBothDim m 0) ms, cv_role = None, cv_debugLabel = []\<rparr>"

definition sample_box :: "child_view list" where
  "sample_box = [view 10 5 3 False False None, view 2 5 1 False False None,
     view 4 0 0 True True None, view 20 5 0 False False (Some 6)]"

lemmas view_simps = view_def c_pref_def c_weight_def c_hasWeight_def c_stretchable_def c_margins_def
  isLayoutStretch_def good_child_def

lemma sample_box_good: "\<forall>c\<in>set sample_box. good_child YD_HORIZ c"
  by (simp add: sample_box_def view_simps)

lemma sample_box_sums:
  "totalNonWeightedChildrenPreferredSize YD_HORIZ sample_box = 24" "total_margins YD_HORIZ sample_box = 6"
  "childrenTotalWeight YD_HORIZ sample_box = 4" "takers YD_HORIZ sample_box = 2"
  "box_preferredSize YD_HORIZ YD_HORIZ sample_box = 37"
  by (simp_all add: sample_box_def view_simps totalNonWeightedChildrenPreferredSize_def total_margins_def
      childrenTotalWeight_def takers_def box_preferredSize_def findDominatingChild_def c_div_def)

text \<open>
  In the primary dimension a box places its children one after another, in order, without
  overlap, with no negative size, and within the space it was given, whether that space is plenty
  or too small.
\<close>

theorem calcPrimaryGeometry_in_order:
  assumes "\<forall>c\<in>set cs. good_child p c" "0 \<le> newSize"
  shows "in_order newSize (fst (calcPrimaryGeometry p newSize cs)) (snd (calcPrimaryGeometry p newSize cs))
     \<and> length (fst (calcPrimaryGeometry p newSize cs)) = length cs"
  using primary_in_order[OF assms] primary_sizes_ok(1)[OF assms] by simp

theorem calcPrimaryGeometry_in_order_witness:
  "in_order 20 (fst (calcPrimaryGeometry YD_HORIZ 20 sample_box)) (snd (calcPrimaryGeometry YD_HORIZ 20 sample_box))"
  using calcPrimaryGeometry_in_order[OF sample_box_good, of 20] by simp

text \<open>
  When there is enough space for the children without a weight, all of it is handed out up to
  rounding: less than one unit per child that takes a share (the weighted children, or without
  weights the stretchable ones) is left over, and no child without a weight gets less than its
  preferred size.
\<close>

theorem calcPrimaryGeometry_rounding:
  assumes "\<forall>c\<in>set cs. good_child p c" "totalNonWeightedChildrenPreferredSize p cs \<le> newSize" "0 < takers p cs"
  defines "sizes \<equiv> fst (calcPrimaryGeometry p newSize cs)"
  shows "0 \<le> newSize - sum_list sizes \<and> newSize - sum_list sizes < takers p cs
     \<and> (\<forall>i<length cs. \<not> c_hasWeight p (cs ! i) \<longrightarrow> c_pref p (cs ! i) \<le> sizes ! i)"
proof -
  have s: "sizes = normal_sizes p newSize cs"
    using assms(2) by (simp add: sizes_def calcPrimaryGeometry_def Let_def)
  have "0 \<le> newSize - sum_list sizes \<and> newSize - sum_list sizes < takers p cs"
    using normal_sum_weighted[OF assms(1) _ assms(2)] normal_sum_unweighted[OF assms(1) _ assms(2)] assms(3)
    unfolding s by (cases "0 < childrenTotalWeight p cs") simp_all
  then show ?thesis
    using normal_sizes_nonneg(2)[OF assms(1,2)] by (simp add: s normal_sizes_def)
qed

theorem calcPrimaryGeometry_rounding_witness:
  "30 - sum_list (fst (calcPrimaryGeometry YD_HORIZ 30 sample_box)) < 2"
  using calcPrimaryGeometry_rounding[OF sample_box_good, of 30] by (simp add: sample_box_sums)

text \<open>
  C24: A box that gets at least its preferred size in its primary dimension gives every child its
  preferred size in this dimension, up to one unit of rounding for children with a weight. The preferred
  sizes, weights and margins of the children are not negative, and no margin exceeds the preferred size.
\<close>

theorem preferredSize_sufficient:
  assumes good: "\<forall>c\<in>set cs. good_child p c" and n: "box_preferredSize p p cs \<le> newSize"
    and i: "i < length cs"
  shows "fst (calcPrimaryGeometry p newSize cs) ! i \<ge>
     (if c_hasWeight p (cs ! i) then c_pref p (cs ! i) - 1 else c_pref p (cs ! i))"
proof -
  let ?c = "cs ! i" and ?T = "childrenTotalWeight p cs"
  have N: "totalNonWeightedChildrenPreferredSize p cs \<le> newSize"
    using n weighted_pref_nonneg[OF good] by (simp add: box_preferredSize_primary)
  have nth: "fst (calcPrimaryGeometry p newSize cs) ! i = normal_size p (normal_extras p newSize cs) ?T ?c"
    using N i by (simp add: calcPrimaryGeometry_def Let_def normal_sizes_def)
  have c: "?c \<in> set cs" using i by simp
  show ?thesis
  proof (cases "c_hasWeight p ?c")
    case False
    then show ?thesis using normal_sizes_nonneg(2)[OF good N c] nth by simp
  next
    case True
    have T: "0 < ?T" using no_weighted[OF good] c True by force
    obtain r D where ex: "normal_extras p newSize cs = (0, r, D)" and D: "0 \<le> D" "weighted_pref p cs \<le> D"
      using normal_extras_weighted[OF good T N] n by metis
    let ?w = "c_weight p ?c"
    have w: "0 < ?w" using True by (simp add: c_hasWeight_def)
    have wT: "?w \<le> ?T"
      using member_le_sum_list[of ?w "map (c_weight p) cs"] c good
      by (auto simp: childrenTotalWeight_def good_child_def)
    have "c_pref p ?c * ?T < (D + 1) * ?w"
      using weighted_pref_enough[OF good c True] mult_right_mono[of "weighted_pref p cs + 1" "D + 1" ?w] D(2) w
      by linarith
    then have "(c_pref p ?c - 1) * ?T < D * ?w" using wT by (simp add: algebra_simps)
    moreover have "D * ?w < (c_div (D * ?w) ?T + 1) * ?T"
      using c_div_mult_gt[of "D * ?w" ?T] D(1) w T by (simp add: algebra_simps)
    ultimately have "(c_pref p ?c - 1) * ?T < (c_div (D * ?w) ?T + 1) * ?T" by linarith
    then have "c_pref p ?c - 1 < c_div (D * ?w) ?T + 1" using T by (simp add: mult_less_cancel_right_pos)
    then show ?thesis using True nth by (simp add: ex normal_size_def)
  qed
qed

theorem preferredSize_sufficient_witness:
  "fst (calcPrimaryGeometry YD_HORIZ 37 sample_box) ! 0 \<ge> 9"
  using preferredSize_sufficient[OF sample_box_good, of 37 0] sample_box_sums(5)
  by (simp add: sample_box_def view_simps)

text \<open>
  The unit of rounding is really lost: in a box that gets exactly its preferred size, the very
  child that determines that size can come out one unit short of its own preferred size.
\<close>

theorem preferredSize_one_short:
  "box_preferredSize YD_HORIZ YD_HORIZ sample_box = 37
   \<and> fst (calcPrimaryGeometry YD_HORIZ 37 sample_box) = [9, 3, 4, 20]
   \<and> c_pref YD_HORIZ (sample_box ! 0) = 10"
  unfolding sample_box_sums(5)
  by (simp add: calcPrimaryGeometry_def sample_box_sums normal_sizes_def normal_extras_def Let_def)
    (simp add: sample_box_def view_simps normal_size_def c_div_def)

text \<open>
  C25: When there is not enough space even without margins, the loss is shared exactly: the sizes
  add up to the space the box was given, no child gets a negative size or more than its preferred
  size without margins, children with a weight get nothing, and the loop that shares the loss ends
  without its guard against endless looping.
\<close>

theorem calcPrimaryGeometry_loss:
  assumes "\<forall>c\<in>set cs. good_child p c" "0 \<le> newSize" "newSize < totalNonWeightedChildrenPreferredSize p cs"
    "newSize + total_margins p cs \<le> totalNonWeightedChildrenPreferredSize p cs"
  defines "sizes \<equiv> fst (calcPrimaryGeometry p newSize cs)"
  shows "sum_list sizes = newSize \<and> length sizes = length cs
     \<and> (\<forall>i<length cs. 0 \<le> sizes ! i \<and> sizes ! i \<le> (if c_hasWeight p (cs ! i) then 0
          else c_pref p (cs ! i) - c_margins p (cs ! i)))"
proof -
  have "sizes = shrunk_sizes p newSize cs"
    using assms(3) by (simp add: sizes_def calcPrimaryGeometry_def Let_def)
  then show ?thesis
    using shrunk_sizes_loss[OF assms(1,2,4)] by (simp add: list_all2_conv_all_nth stripped_def)
qed

theorem calcPrimaryGeometry_loss_witness:
  "sum_list (fst (calcPrimaryGeometry YD_HORIZ 7 sample_box)) = 7"
  using calcPrimaryGeometry_loss[OF sample_box_good, of 7] by (simp add: sample_box_sums)

text \<open>
  When the space is too small only because of margins, the box does not scale the margins down
  as announced but drops them all: every child without a weight gets its preferred size without
  margins, and the space that was meant for the remaining margins is left unused.
\<close>

theorem calcPrimaryGeometry_margins_dropped:
  assumes "\<forall>c\<in>set cs. good_child p c" "newSize < totalNonWeightedChildrenPreferredSize p cs"
    "totalNonWeightedChildrenPreferredSize p cs < newSize + total_margins p cs"
  defines "sizes \<equiv> fst (calcPrimaryGeometry p newSize cs)"
  shows "sizes = map (\<lambda>c. if c_hasWeight p c then 0 else c_pref p c - c_margins p c) cs
     \<and> newSize - sum_list sizes = newSize + total_margins p cs - totalNonWeightedChildrenPreferredSize p cs
     \<and> 0 < newSize - sum_list sizes"
proof -
  have "sizes = map (stripped p) cs"
    using shrunk_sizes_margins[OF assms(1-3)] assms(2) by (simp add: sizes_def calcPrimaryGeometry_def Let_def)
  then show ?thesis
    using assms(3) sum_stripped[of p cs] by (simp add: stripped_def[abs_def])
qed

theorem calcPrimaryGeometry_margins_dropped_witness:
  "fst (calcPrimaryGeometry YD_HORIZ 21 sample_box) = [0, 0, 4, 14]"
  using calcPrimaryGeometry_margins_dropped[OF sample_box_good, of 21]
  by (simp add: sample_box_sums) (simp add: sample_box_def view_simps)

text \<open>
  C14: A layout box of any size places all its children inside itself and no two of them overlap,
  in the normal and in the mirrored layout for right-to-left languages.
\<close>

theorem box_setSize_inside:
  fixes reverseLayout
  assumes "\<forall>c\<in>set cs. good_child p c" "\<forall>c\<in>set cs. 0 \<le> c_pref (other_dim p) c" "0 \<le> width" "0 \<le> height"
  defines "rs \<equiv> box_setSize reverseLayout p width height cs"
  shows "length rs = length cs \<and> (\<forall>i<length cs. inside width height (rs ! i))
     \<and> (\<forall>i j. i < j \<and> j < length cs \<longrightarrow> apart (rs ! i) (rs ! j))"
  unfolding rs_def using box_setSize_ok[OF assms(1-4)] by blast

theorem box_setSize_inside_witness:
  "list_all (inside 30 5) (box_setSize True YD_HORIZ 30 5 sample_box)"
proof -
  have "\<forall>c\<in>set sample_box. 0 \<le> c_pref (other_dim YD_HORIZ) c" "length sample_box = 4"
    by (simp_all add: sample_box_def view_simps)
  then show ?thesis using box_setSize_inside[OF sample_box_good, of 30 5 True] by (simp add: list_all_length)
qed

end
