(* ===== verification/Yui_Alignment.thy ===== *)
theory Yui_Alignment
  imports Yui_LayoutBox
begin

text \<open>
  \<^verbatim>\<open>YAlignment.cc\<close>: margins, minimum sizes and the alignment of a single child in both dimensions.
  The child always lies inside the alignment, keeps its margins when there is room for them, and
  the class name is never null.
\<close>

section \<open>Margins and preferred size\<close>

definition firstMargin :: "alignment_data \<Rightarrow> YUIDimension \<Rightarrow> int" where
  "firstMargin a dir = (if dir = YD_HORIZ then al_leftMargin a else al_topMargin a)"

definition totalMargins :: "alignment_data \<Rightarrow> YUIDimension \<Rightarrow> int" where
  "totalMargins a dir =
     (if dir = YD_HORIZ then al_leftMargin a + al_rightMargin a
      else al_topMargin a + al_bottomMargin a)"

definition minSize :: "alignment_data \<Rightarrow> YUIDimension \<Rightarrow> int" where
  "minSize a dir = (if dir = YD_HORIZ then al_minWidth a else al_minHeight a)"

text \<open>The child, if any, is seen through its answers to the virtual functions.\<close>

definition al_preferredSize :: "alignment_data \<Rightarrow> YUIDimension \<Rightarrow> child_view option \<Rightarrow> int" where
  "al_preferredSize a dir child =
     (case child of
        None \<Rightarrow> minSize a dir
      | Some c \<Rightarrow> max (minSize a dir) (c_pref dir c + totalMargins a dir))"

definition al_stretchable :: "alignment_data \<Rightarrow> YUIDimension \<Rightarrow> child_view option \<Rightarrow> bool" where
  "al_stretchable a dir child =
     (case child of
        Some c \<Rightarrow> if at_dim (al_alignment a) dir = YAlignUnchanged then c_stretchable dir c else True
      | None \<Rightarrow> True)"

text \<open>\<^verbatim>\<open>YAlignment::addChild\<close>: a minimum size makes the child stretchable.\<close>

definition al_addChild :: "alignment_data \<Rightarrow> widget_data \<Rightarrow> widget_data" where
  "al_addChild a w =
     (let w1 = (if al_minWidth a > 0 then setStretchable YD_HORIZ True w else w)
      in if al_minHeight a > 0 then setStretchable YD_VERT True w1 else w1)"

section \<open>Placing the child\<close>

text \<open>One round of the loop of \<^verbatim>\<open>setSize\<close>: the size and position of the child in one dimension.\<close>

definition al_dim :: "alignment_data \<Rightarrow> YUIDimension \<Rightarrow> int \<Rightarrow> child_view \<Rightarrow> int \<times> int" where
  "al_dim a dir newSize c =
     (let childPreferredSize = c_pref dir c;
          preferredSize = childPreferredSize + totalMargins a dir;
          (newChildSize, offset, totalMargin) =
            (if newSize \<ge> preferredSize then
               (if c_stretchable dir c \<and>
                   (at_dim (al_alignment a) dir = YAlignUnchanged \<or> al_stretchable a dir (Some c))
                then newSize - totalMargins a dir else childPreferredSize,
                firstMargin a dir, totalMargins a dir)
             else if newSize \<ge> childPreferredSize then
               (childPreferredSize,
                if totalMargins a dir > 0
                then c_div ((newSize - childPreferredSize) * firstMargin a dir) (totalMargins a dir)
                else firstMargin a dir,
                if totalMargins a dir > 0 then newSize - childPreferredSize else totalMargins a dir)
             else (newSize, 0, 0));
          newChildPos =
            (case at_dim (al_alignment a) dir of
               YAlignCenter \<Rightarrow> c_div (newSize - newChildSize - totalMargin) 2
             | YAlignUnchanged \<Rightarrow> 0
             | YAlignBegin \<Rightarrow> 0
             | YAlignEnd \<Rightarrow> newSize - newChildSize - totalMargin)
      in (newChildSize, newChildPos + offset))"

definition al_setSize :: "alignment_data \<Rightarrow> int \<Rightarrow> int \<Rightarrow> child_view option \<Rightarrow> rect option" where
  "al_setSize a newWidth newHeight child =
     (case child of
        None \<Rightarrow> None
      | Some c \<Rightarrow>
          let (w, x) = al_dim a YD_HORIZ newWidth c; (h, y) = al_dim a YD_VERT newHeight c
          in Some \<lparr>r_x = x, r_y = y, r_w = w, r_h = h\<rparr>)"

section \<open>Class names\<close>

text \<open>The table of \<^verbatim>\<open>widgetClass\<close>; \<open>None\<close> is a null pointer in the table.\<close>

definition YAlignment_classes :: "string option list list" where
  "YAlignment_classes =
     [[Some ''YAlignment_Left'', Some ''YAlignment_HCenter'', Some ''YAlignment_Right'', Some ''YMarginBox'', Some ''YMinWidth''],
      [Some ''YAlignment_Top'', Some ''YAlignment_VCenter'', Some ''YAlignment_Bottom'', Some ''YMarginBox'', Some ''YMinHeight''],
      [None, Some ''YAlignment_HVCenter'', None, Some ''YAlignment'', Some ''YMinSize'']]"

definition al_class_index :: "alignment_data \<Rightarrow> nat \<times> nat" where
  "al_class_index a =
     (let h = hor (al_alignment a); v = vert (al_alignment a);
          (vIndex, hIndex) =
            (if h = YAlignBegin then (0, 0)
             else if h = YAlignEnd then (0, 2)
             else if h = YAlignCenter then (if v = YAlignCenter then (2, 1) else (0, 1))
             else if v = YAlignBegin then (1, 0)
             else if v = YAlignEnd then (1, 2)
             else if v = YAlignCenter then (1, 1)
             else (2, 3))
      in if h = YAlignUnchanged \<and> v = YAlignUnchanged
         then let (vIndex1, hIndex1) =
                    (if al_leftMargin a > 0 \<or> al_rightMargin a > 0 \<or> al_topMargin a > 0 \<or> al_bottomMargin a > 0
                     then (0, 3) else (vIndex, hIndex))
              in if al_minWidth a > 0 \<or> al_minHeight a > 0
                 then if al_minWidth a = 0 then (1, 4)
                      else if al_minHeight a = 0 then (0, 4)
                      else (2, 4)
                 else (vIndex1, hIndex1)
         else (vIndex, hIndex))"

definition al_widgetClass :: "alignment_data \<Rightarrow> string option" where
  "al_widgetClass a = (case al_class_index a of (v, h) \<Rightarrow> YAlignment_classes ! v ! h)"

lemma al_class_index_cases:
  "al_class_index a \<in> {(0,0),(0,1),(0,2),(0,3),(0,4),(1,0),(1,1),(1,2),(1,4),(2,1),(2,3),(2,4)}"
  by (auto simp: al_class_index_def Let_def)

section \<open>Where the child lies\<close>

definition good_margins :: "alignment_data \<Rightarrow> bool" where
  "good_margins a \<longleftrightarrow> 0 \<le> al_leftMargin a \<and> 0 \<le> al_rightMargin a \<and> 0 \<le> al_topMargin a \<and> 0 \<le> al_bottomMargin a"

lemma good_margins_dim: "good_margins a \<Longrightarrow> 0 \<le> firstMargin a dir \<and> firstMargin a dir \<le> totalMargins a dir"
  by (simp add: good_margins_def firstMargin_def totalMargins_def)

lemma half_bounds: "0 \<le> (n::int) \<Longrightarrow> 0 \<le> c_div n 2 \<and> c_div n 2 \<le> n"
  using c_div_nonneg[of n 2] c_div_le[of n 2] by simp

lemma al_dim_enough:
  assumes "good_margins a" "c_pref dir c + totalMargins a dir \<le> newSize"
  shows "firstMargin a dir \<le> snd (al_dim a dir newSize c)
     \<and> snd (al_dim a dir newSize c) + fst (al_dim a dir newSize c)
         + (totalMargins a dir - firstMargin a dir) \<le> newSize
     \<and> c_pref dir c \<le> fst (al_dim a dir newSize c)"
  using assms(2) half_bounds[of "newSize - c_pref dir c - totalMargins a dir"]
  by (auto simp: al_dim_def Let_def c_div_def split: YAlignmentType.split)

lemma scaled_offset:
  fixes r f t :: int
  assumes "0 \<le> r" "0 \<le> f" "f \<le> t" "0 < t"
  shows "0 \<le> c_div (r * f) t \<and> c_div (r * f) t \<le> r"
proof -
  have rf: "0 \<le> r * f" using assms by simp
  have "c_div (r * f) t * t \<le> r * t"
    using c_div_mult_le[OF rf assms(4)] mult_left_mono[OF assms(3,1)] by linarith
  then have "c_div (r * f) t \<le> r" using assms(4) by (simp add: mult_le_cancel_right_pos)
  then show ?thesis using c_div_nonneg[OF rf assms(4)] by simp
qed

lemma al_dim_inside:
  assumes good: "good_margins a" and n: "0 \<le> newSize" and c: "0 \<le> c_pref dir c"
  shows "0 \<le> snd (al_dim a dir newSize c) \<and> 0 \<le> fst (al_dim a dir newSize c)
     \<and> snd (al_dim a dir newSize c) + fst (al_dim a dir newSize c) \<le> newSize"
proof -
  note m = good_margins_dim[OF good, of dir]
  consider (enough) "c_pref dir c + totalMargins a dir \<le> newSize"
    | (tight) "newSize < c_pref dir c + totalMargins a dir" "c_pref dir c \<le> newSize"
    | (small) "newSize < c_pref dir c" by linarith
  then show ?thesis
  proof cases
    case enough
    from al_dim_enough[OF good enough] m c show ?thesis by linarith
  next
    case tight
    have t: "0 < totalMargins a dir" "0 \<le> newSize - c_pref dir c" using tight by simp_all
    have "al_dim a dir newSize c = (c_pref dir c,
        c_div ((newSize - c_pref dir c) * firstMargin a dir) (totalMargins a dir))"
      using tight t by (auto simp: al_dim_def Let_def c_div_def split: YAlignmentType.split)
    then show ?thesis
      using scaled_offset[OF t(2) _ _ t(1), of "firstMargin a dir"] m c by simp
  next
    case small
    then have "al_dim a dir newSize c = (newSize, 0)"
      using m by (auto simp: al_dim_def Let_def c_div_def split: YAlignmentType.split)
    then show ?thesis using n by simp
  qed
qed

section \<open>Properties of alignments\<close>

definition sample_alignment :: alignment_data where
  "sample_alignment =
     \<lparr>al_leftMargin = 2, al_rightMargin = 3, al_topMargin = 1, al_bottomMargin = 1, al_minWidth = 0,
      al_minHeight = 0, al_alignment = YBothDim YAlignEnd YAlignCenter\<rparr>"

text \<open>
  An alignment of any size places its child inside itself, however large margins and child are.
\<close>

theorem al_setSize_inside:
  assumes "good_margins a" "0 \<le> newWidth" "0 \<le> newHeight" "0 \<le> c_pref YD_HORIZ c" "0 \<le> c_pref YD_VERT c"
  shows "\<exists>r. al_setSize a newWidth newHeight (Some c) = Some r \<and> inside newWidth newHeight r"
  using al_dim_inside[OF assms(1,2,4)] al_dim_inside[OF assms(1,3,5)]
  by (simp add: al_setSize_def split_beta inside_def Let_def)

theorem al_setSize_inside_witness:
  "\<exists>r. al_setSize sample_alignment 12 4 (Some (view 10 5 0 False False None)) = Some r \<and> inside 12 4 r"
  using al_setSize_inside[of sample_alignment 12 4 "view 10 5 0 False False None"]
  by (simp add: good_margins_def sample_alignment_def view_simps)

text \<open>
  An alignment that gets at least its preferred size gives its child at least the child's
  preferred size and keeps both margins in full.
\<close>

theorem al_preferredSize_sufficient:
  assumes "good_margins a" "al_preferredSize a dir (Some c) \<le> newSize"
  shows "c_pref dir c \<le> fst (al_dim a dir newSize c) \<and> firstMargin a dir \<le> snd (al_dim a dir newSize c)
     \<and> snd (al_dim a dir newSize c) + fst (al_dim a dir newSize c)
         + (totalMargins a dir - firstMargin a dir) \<le> newSize"
  using al_dim_enough[OF assms(1), of dir c newSize] assms(2) by (simp add: al_preferredSize_def)

theorem al_preferredSize_sufficient_witness:
  "2 \<le> snd (al_dim sample_alignment YD_HORIZ 20 (view 10 5 0 False False None))"
  using al_preferredSize_sufficient[of sample_alignment YD_HORIZ "view 10 5 0 False False None" 20]
  by (simp add: good_margins_def sample_alignment_def view_simps al_preferredSize_def minSize_def
      totalMargins_def firstMargin_def)

text \<open>
  The class name of an alignment is never one of the null pointers of the table.
\<close>

lemma al_widgetClass_not_null: "al_widgetClass a \<noteq> None"
  using al_class_index_cases[of a]
  by (auto simp: al_widgetClass_def YAlignment_classes_def eval_nat_numeral)

end
