(* ===== verification/Yui_ButtonBox.thy ===== *)
theory Yui_ButtonBox
  imports Yui_LayoutBox "HOL-Library.Multiset"
begin

text \<open>
  \<^verbatim>\<open>YButtonBox.cc\<close>: the layout policies, the order of buttons by role, preferred sizes, the sanity
  check and the layout of the buttons. The theory shows which children are ordered and placed
  (release-notes buttons never are), that a box of its preferred width places its buttons in order
  inside itself at their preferred sizes, and how reducing unequal margins pushes buttons out.
\<close>

section \<open>Policies\<close>

record YButtonBoxLayoutPolicy =
  lp_buttonOrder :: YButtonOrder
  lp_equalSizeButtons :: bool
  lp_addExcessSpaceToHelpButtonExtraMargin :: bool
  lp_alignment :: "YAlignmentType YBothDim"

definition kdeLayoutPolicy :: YButtonBoxLayoutPolicy where
  "kdeLayoutPolicy =
     \<lparr>lp_buttonOrder = YKDEButtonOrder, lp_equalSizeButtons = False,
      lp_addExcessSpaceToHelpButtonExtraMargin = False,
      lp_alignment = YBothDim YAlignCenter YAlignBegin\<rparr>"

definition gnomeLayoutPolicy :: YButtonBoxLayoutPolicy where
  "gnomeLayoutPolicy =
     \<lparr>lp_buttonOrder = YGnomeButtonOrder, lp_equalSizeButtons = True,
      lp_addExcessSpaceToHelpButtonExtraMargin = True,
      lp_alignment = YBothDim YAlignEnd YAlignBegin\<rparr>"

section \<open>Order of the buttons\<close>

text \<open>
  The children are numbered; the two vectors of \<^verbatim>\<open>buttonsByButtonOrder\<close> hold numbers. A child that
  is no push button has no role.
\<close>

fun collect_buttons ::
  "nat \<Rightarrow> child_view list \<Rightarrow> (YButtonRole \<Rightarrow> nat option) \<Rightarrow> nat list
     \<Rightarrow> ((YButtonRole \<Rightarrow> nat option) \<times> nat list) result" where
  "collect_buttons i [] special custom = return (special, custom)"
| "collect_buttons i (c # cs) special custom =
     (case cv_role c of
        None \<Rightarrow> throw YUIInvalidChildException
      | Some YCustomButton \<Rightarrow> collect_buttons (i + 1) cs special (custom @ [i])
      | Some YMaxButtonRole \<Rightarrow> throw (YUIButtonRoleMismatchException ''Invalid button role'')
      | Some role \<Rightarrow>
          (case special role of
             Some _ \<Rightarrow> throw (YUIButtonRoleMismatchException
               (''Multiple buttons with that role ['' @ cv_debugLabel c @ '']''))
           | None \<Rightarrow> collect_buttons (i + 1) cs (special(role := Some i)) custom))"

definition push_opt :: "nat option \<Rightarrow> nat list" where
  "push_opt x = (case x of None \<Rightarrow> [] | Some i \<Rightarrow> [i])"

definition order_buttons :: "YButtonOrder \<Rightarrow> (YButtonRole \<Rightarrow> nat option) \<Rightarrow> nat list \<Rightarrow> nat list" where
  "order_buttons ord special custom =
     (if ord = YKDEButtonOrder
      then push_opt (special YOKButton) @ push_opt (special YApplyButton)
           @ push_opt (special YCancelButton) @ custom @ push_opt (special YHelpButton)
      else push_opt (special YHelpButton) @ custom @ push_opt (special YApplyButton)
           @ push_opt (special YCancelButton) @ push_opt (special YOKButton))"

definition buttonsByButtonOrder :: "YButtonOrder \<Rightarrow> child_view list \<Rightarrow> nat list result" where
  "buttonsByButtonOrder ord cs =
     bind_result (collect_buttons 0 cs (\<lambda>_. None) [])
       (\<lambda>(special, custom). return (order_buttons ord special custom))"

section \<open>Sizes\<close>

fun findButton_from :: "nat \<Rightarrow> YButtonRole \<Rightarrow> child_view list \<Rightarrow> nat option" where
  "findButton_from i role [] = None"
| "findButton_from i role (c # cs) =
     (if cv_role c = Some role then Some i else findButton_from (i + 1) role cs)"

definition findButton :: "YButtonRole \<Rightarrow> child_view list \<Rightarrow> nat option" where
  "findButton role cs = findButton_from 0 role cs"

definition maxChildSize :: "YUIDimension \<Rightarrow> child_view list \<Rightarrow> int" where
  "maxChildSize dir cs = fold (\<lambda>c m. max m (c_pref dir c)) cs 0"

definition totalChildrenWidth :: "child_view list \<Rightarrow> int" where
  "totalChildrenWidth cs = sum_list (map (c_pref YD_HORIZ) cs)"

definition bb_preferredWidth :: "bool \<Rightarrow> YButtonBoxMargins \<Rightarrow> child_view list \<Rightarrow> int" where
  "bb_preferredWidth equalSizeButtons m cs =
     (if length cs < 1 then 0
      else
        (int (length cs) - 1) * m_spacing m
        + (if equalSizeButtons then maxChildSize YD_HORIZ cs * int (length cs) else totalChildrenWidth cs)
        + m_left m + m_right m
        + (if m_helpButtonExtraSpacing m \<noteq> 0 \<and> findButton YHelpButton cs \<noteq> None
           then m_helpButtonExtraSpacing m else 0))"

definition bb_preferredHeight :: "YButtonBoxMargins \<Rightarrow> child_view list \<Rightarrow> int" where
  "bb_preferredHeight m cs = maxChildSize YD_VERT cs + m_top m + m_bottom m"

fun bb_stretchable :: "YUIDimension \<Rightarrow> bool" where
  "bb_stretchable YD_HORIZ = True"
| "bb_stretchable YD_VERT = False"

section \<open>Sanity check\<close>

fun sanity_loop :: "child_view list \<Rightarrow> bool \<Rightarrow> bool \<Rightarrow> (bool \<times> bool) result" where
  "sanity_loop [] ok cancel = return (ok, cancel)"
| "sanity_loop (c # cs) ok cancel =
     (case cv_role c of
        None \<Rightarrow> throw YUIInvalidChildException
      | Some role \<Rightarrow>
          if role = YOKButton
          then if ok then throw (YUIButtonRoleMismatchException ''Multiple buttons with role [OK]'')
               else sanity_loop cs True cancel
          else if role = YCancelButton
          then if cancel then throw (YUIButtonRoleMismatchException ''Multiple buttons with role [Cancel]'')
               else sanity_loop cs ok True
          else sanity_loop cs ok cancel)"

definition sanityCheck :: "bool \<Rightarrow> child_view list \<Rightarrow> unit result" where
  "sanityCheck sanityCheckRelaxed cs =
     bind_result (sanity_loop cs False False)
       (\<lambda>(ok, cancel).
          if length cs > 1 \<and> \<not> sanityCheckRelaxed \<and> (\<not> ok \<or> \<not> cancel)
          then throw (YUIButtonRoleMismatchException
                 ''Button role mismatch: Must have both [OK] and [Cancel] roles'')
          else return ())"

section \<open>Layout\<close>

text \<open>Dropping the equal width when not even the buttons fit (first part of \<^verbatim>\<open>doLayout\<close>).\<close>

definition fit_equal ::
  "bool \<Rightarrow> int \<Rightarrow> nat \<Rightarrow> YButtonBoxMargins \<Rightarrow> child_view list \<Rightarrow> bool \<times> int" where
  "fit_equal equalSizeButtons width n m cs =
     (let prefWidth = bb_preferredWidth equalSizeButtons m cs
      in if width < prefWidth \<and> equalSizeButtons \<and> width < maxChildSize YD_HORIZ cs * int n
         then (False, bb_preferredWidth False m cs) else (equalSizeButtons, prefWidth))"

text \<open>Reducing margins, spacing, the extra spacing of the help button, and at last the buttons.\<close>

definition reduce_side_margins :: "int \<Rightarrow> YButtonBoxMargins \<Rightarrow> int \<times> YButtonBoxMargins" where
  "reduce_side_margins missing m =
     (if missing \<le> m_left m + m_right m
      then (0, m\<lparr>m_left := m_left m - c_div missing 2, m_right := m_right m - c_div missing 2\<rparr>)
      else (missing - m_left m - m_right m, m\<lparr>m_left := 0, m_right := 0\<rparr>))"

definition reduce_spacing :: "int \<Rightarrow> nat \<Rightarrow> YButtonBoxMargins \<Rightarrow> int \<times> YButtonBoxMargins" where
  "reduce_spacing missing n m =
     (if missing > 0 \<and> n > 1
      then let totalSpacing = (int n - 1) * m_spacing m
           in if missing \<le> totalSpacing
              then (0, m\<lparr>m_spacing := c_div (totalSpacing - missing) (int n - 1)\<rparr>)
              else (missing - totalSpacing, m\<lparr>m_spacing := 0\<rparr>)
      else (missing, m))"

definition reduce_help :: "int \<Rightarrow> bool \<Rightarrow> YButtonBoxMargins \<Rightarrow> int \<times> YButtonBoxMargins" where
  "reduce_help missing hasHelp m =
     (if missing > 0 \<and> hasHelp
      then if missing \<le> m_helpButtonExtraSpacing m
           then (0, m\<lparr>m_helpButtonExtraSpacing := m_helpButtonExtraSpacing m - missing\<rparr>)
           else (missing - m_helpButtonExtraSpacing m, m\<lparr>m_helpButtonExtraSpacing := 0\<rparr>)
      else (missing, m))"

definition reduce_width :: "int \<Rightarrow> int \<Rightarrow> nat \<Rightarrow> bool \<Rightarrow> YButtonBoxMargins \<Rightarrow> int \<times> YButtonBoxMargins" where
  "reduce_width width prefWidth n hasHelp m =
     (if width < prefWidth
      then let (missing1, m1) = reduce_side_margins (prefWidth - width) m;
               (missing2, m2) = reduce_spacing missing1 n m1;
               (missing3, m3) = reduce_help missing2 hasHelp m2
           in (if missing3 > 0 then c_div missing3 (int n) else 0, m3)
      else (0, m))"

definition add_excess ::
  "YButtonBoxLayoutPolicy \<Rightarrow> int \<Rightarrow> int \<Rightarrow> bool \<Rightarrow> YButtonBoxMargins \<Rightarrow> YButtonBoxMargins" where
  "add_excess policy width prefWidth hasHelp m =
     (if width > prefWidth
      then let excessWidth = width - prefWidth
           in if lp_addExcessSpaceToHelpButtonExtraMargin policy \<and> hasHelp
              then m\<lparr>m_helpButtonExtraSpacing := m_helpButtonExtraSpacing m + excessWidth\<rparr>
              else (case hor (lp_alignment policy) of
                      YAlignCenter \<Rightarrow> m\<lparr>m_left := m_left m + c_div excessWidth 2,
                                         m_right := m_right m + c_div excessWidth 2\<rparr>
                    | YAlignBegin \<Rightarrow> m\<lparr>m_right := m_right m + excessWidth\<rparr>
                    | YAlignUnchanged \<Rightarrow> m\<lparr>m_right := m_right m + excessWidth\<rparr>
                    | YAlignEnd \<Rightarrow> m\<lparr>m_left := m_left m + excessWidth\<rparr>)
      else m)"

text \<open>Vertical layout: height and position of all buttons.\<close>

definition vert_layout :: "YButtonBoxLayoutPolicy \<Rightarrow> int \<Rightarrow> YButtonBoxMargins \<Rightarrow> child_view list \<Rightarrow> int \<times> int" where
  "vert_layout policy height m cs =
     (let prefHeight = bb_preferredHeight m cs;
          missing = prefHeight - height;
          (top, bottom) =
            (if height < prefHeight
             then if missing < m_top m + m_bottom m
                  then (m_top m - c_div missing 2, m_bottom m - c_div missing 2) else (0, 0)
             else (m_top m, m_bottom m));
          buttonHeight = (if height < maxChildSize YD_VERT cs then height else maxChildSize YD_VERT cs);
          excessHeight = height - buttonHeight - top - bottom;
          y_pos = (if height > prefHeight
                   then (case vert (lp_alignment policy) of
                           YAlignBegin \<Rightarrow> top | YAlignUnchanged \<Rightarrow> top
                         | YAlignCenter \<Rightarrow> top + c_div excessHeight 2
                         | YAlignEnd \<Rightarrow> top + excessHeight)
                   else top)
      in (buttonHeight, y_pos))"

text \<open>
  The final loop from left to right; \<open>width_of\<close> gives the width of a button, \<open>first\<close> tells whether
  it is the front of the list. The result has the position and width of each button.
\<close>

fun place_buttons ::
  "(nat \<Rightarrow> int) \<Rightarrow> YButtonBoxMargins \<Rightarrow> nat option \<Rightarrow> bool \<Rightarrow> int \<Rightarrow> nat list \<Rightarrow> (nat \<times> int \<times> int) list" where
  "place_buttons width_of m help first x_pos [] = []"
| "place_buttons width_of m help first x_pos (b # bs) =
     (let x1 = (if help = Some b \<and> \<not> first then x_pos + m_helpButtonExtraSpacing m else x_pos);
          w = width_of b;
          x2 = x1 + w + m_spacing m;
          x3 = (if help = Some b then x2 + m_helpButtonExtraSpacing m else x2)
      in (b, x1, w) # place_buttons width_of m help False x3 bs)"

definition bb_doLayout ::
  "YButtonBoxLayoutPolicy \<Rightarrow> bool \<Rightarrow> YButtonBoxMargins \<Rightarrow> int \<Rightarrow> int \<Rightarrow> child_view list
     \<Rightarrow> (nat \<times> rect) list result" where
  "bb_doLayout policy reverseLayout m0 width height cs =
     bind_result (buttonsByButtonOrder (lp_buttonOrder policy) cs)
       (\<lambda>buttons.
          if buttons = [] then return []
          else
            let help = findButton YHelpButton cs;
                n = length buttons;
                (equalSize, prefWidth) = fit_equal (lp_equalSizeButtons policy) width n m0 cs;
                (widthLoss, m1) = reduce_width width prefWidth n (help \<noteq> None) m0;
                m2 = add_excess policy width prefWidth (help \<noteq> None) m1;
                (buttonHeight, y_pos) = vert_layout policy height m0 cs;
                width_of = (\<lambda>b. (if equalSize then maxChildSize YD_HORIZ cs
                                 else c_pref YD_HORIZ (cs ! b)) - widthLoss)
            in return (map (\<lambda>(b, x, w). (b, \<lparr>r_x = (if reverseLayout then width - x - w else x),
                                              r_y = y_pos, r_w = w, r_h = buttonHeight\<rparr>))
                         (place_buttons width_of m2 help True (m_left m2) buttons)))"

definition bb_setSize ::
  "YButtonBoxLayoutPolicy \<Rightarrow> bool \<Rightarrow> bool \<Rightarrow> YButtonBoxMargins \<Rightarrow> int \<Rightarrow> int \<Rightarrow> child_view list
     \<Rightarrow> (nat \<times> rect) list result" where
  "bb_setSize policy reverseLayout relaxed m newWidth newHeight cs =
     bind_result (sanityCheck relaxed cs)
       (\<lambda>_. bb_doLayout policy reverseLayout m newWidth newHeight cs)"

section \<open>Which children are placed\<close>

text \<open>The numbers of the children, from \<open>i\<close> on, that are not release-notes buttons.\<close>

fun placed_from :: "nat \<Rightarrow> child_view list \<Rightarrow> nat list" where
  "placed_from i [] = []"
| "placed_from i (c # cs) =
     (if cv_role c = Some YRelNotesButton then placed_from (i + 1) cs else i # placed_from (i + 1) cs)"

lemma placed_from_filter:
  "placed_from i cs = filter (\<lambda>k. cv_role (cs ! (k - i)) \<noteq> Some YRelNotesButton) [i..<i + length cs]"
proof (induction cs arbitrary: i)
  case (Cons c cs)
  have "[i..<i + length (c # cs)] = i # [i + 1..<(i + 1) + length cs]" by (simp add: upt_rec)
  moreover have "filter (\<lambda>k. cv_role ((c # cs) ! (k - i)) \<noteq> Some YRelNotesButton) [i + 1..<(i + 1) + length cs]
      = filter (\<lambda>k. cv_role (cs ! (k - (i + 1))) \<noteq> Some YRelNotesButton) [i + 1..<(i + 1) + length cs]"
    by (rule filter_cong) (auto simp: nth_Cons' Suc_diff_Suc)
  ultimately show ?case using Cons.IH[of "i + 1"] by simp
qed simp

text \<open>Putting one more button into the two vectors adds it to the order, unless it is for release notes.\<close>

lemma order_custom: "mset (order_buttons ord special (custom @ [i])) = add_mset i (mset (order_buttons ord special custom))"
  by (simp add: order_buttons_def)

lemma order_special:
  assumes "special role = None" "role \<in> {YOKButton, YApplyButton, YCancelButton, YHelpButton}"
  shows "mset (order_buttons ord (special(role := Some i)) custom) = add_mset i (mset (order_buttons ord special custom))"
  using assms by (auto simp: order_buttons_def push_opt_def)

lemma order_relnotes:
  "order_buttons ord (special(YRelNotesButton := x)) custom = order_buttons ord special custom"
  by (simp add: order_buttons_def)

lemma collect_buttons_ConsE:
  assumes "collect_buttons i (c # cs) special custom = Inr r"
  obtains (custom) "cv_role c = Some YCustomButton" "collect_buttons (i + 1) cs special (custom @ [i]) = Inr r"
  | (special) role where "cv_role c = Some role" "role \<noteq> YCustomButton" "role \<noteq> YMaxButtonRole" "special role = None"
      "collect_buttons (i + 1) cs (special(role := Some i)) custom = Inr r"
proof (cases "cv_role c")
  case None
  then show ?thesis using assms by simp
next
  case (Some role)
  then show ?thesis
    using assms that by (cases role) (auto simp del: fun_upd_apply split: option.splits)
qed

lemma collect_buttons_mset:
  "collect_buttons i cs special custom = Inr (special', custom') \<Longrightarrow>
     mset (order_buttons ord special' custom') = mset (order_buttons ord special custom) + mset (placed_from i cs)"
proof (induction cs arbitrary: i special custom)
  case (Cons c cs)
  from Cons.prems show ?case
  proof (cases rule: collect_buttons_ConsE)
    case custom
    then show ?thesis using Cons.IH[OF custom(2)] by (simp add: order_custom)
  next
    case (special role)
    show ?thesis
    proof (cases "role = YRelNotesButton")
      case True
      then show ?thesis using Cons.IH[OF special(5)] special(1) by (simp add: order_relnotes del: fun_upd_apply)
    next
      case False
      then have "role \<in> {YOKButton, YApplyButton, YCancelButton, YHelpButton}"
        using special(2,3) by (cases role) auto
      from order_special[of special role, OF special(4) this] show ?thesis
        using Cons.IH[OF special(5)] special(1) False by (simp del: fun_upd_apply)
    qed
  qed
qed simp

text \<open>The help button of the order is the one \<^verbatim>\<open>findButton\<close> finds.\<close>

lemma collect_buttons_help:
  "collect_buttons i cs special custom = Inr (special', custom') \<Longrightarrow>
     special' YHelpButton = (case special YHelpButton of Some h \<Rightarrow> Some h | None \<Rightarrow> findButton_from i YHelpButton cs)"
proof (induction cs arbitrary: i special custom)
  case (Cons c cs)
  from Cons.prems show ?case
  proof (cases rule: collect_buttons_ConsE)
    case custom
    then show ?thesis using Cons.IH[OF custom(2)] by (simp split: option.split)
  next
    case (special role)
    then show ?thesis using Cons.IH[OF special(5)] by (auto split: option.splits)
  qed
qed (simp split: option.split)

lemma buttonsByButtonOrder_mset:
  "buttonsByButtonOrder ord cs = Inr bs \<Longrightarrow> mset bs = mset (placed_from 0 cs)"
  using collect_buttons_mset[of 0 cs "\<lambda>_. None" "[]"]
  by (auto simp: buttonsByButtonOrder_def bind_result_Inr_iff order_buttons_def push_opt_def split: prod.splits)

lemma placed_from_distinct: "distinct (placed_from i cs)"
  by (simp add: placed_from_filter)

lemma buttonsByButtonOrder_distinct: "buttonsByButtonOrder ord cs = Inr bs \<Longrightarrow> distinct bs"
  using buttonsByButtonOrder_mset placed_from_distinct by (metis mset_eq_imp_distinct_iff)

text \<open>The help button is at the end in the KDE order and at the front in the GNOME order.\<close>

lemma buttons_help_position:
  assumes "buttonsByButtonOrder ord cs = Inr bs"
  obtains rest where
    "bs = (if ord = YKDEButtonOrder then rest @ push_opt (findButton YHelpButton cs)
           else push_opt (findButton YHelpButton cs) @ rest)"
    "\<forall>h. findButton YHelpButton cs = Some h \<longrightarrow> h \<notin> set rest"
proof -
  obtain special custom where c: "collect_buttons 0 cs (\<lambda>_. None) [] = Inr (special, custom)"
    and bs: "bs = order_buttons ord special custom"
    using assms by (auto simp: buttonsByButtonOrder_def bind_result_Inr_iff)
  have h: "special YHelpButton = findButton YHelpButton cs"
    using collect_buttons_help[OF c] by (simp add: findButton_def)
  define rest where "rest = (if ord = YKDEButtonOrder
    then push_opt (special YOKButton) @ push_opt (special YApplyButton) @ push_opt (special YCancelButton) @ custom
    else custom @ push_opt (special YApplyButton) @ push_opt (special YCancelButton) @ push_opt (special YOKButton))"
  have eq: "bs = (if ord = YKDEButtonOrder then rest @ push_opt (findButton YHelpButton cs)
           else push_opt (findButton YHelpButton cs) @ rest)"
    by (simp add: bs order_buttons_def h rest_def)
  moreover have "distinct bs" by (rule buttonsByButtonOrder_distinct[OF assms])
  ultimately have "\<forall>h. findButton YHelpButton cs = Some h \<longrightarrow> h \<notin> set rest"
    by (auto simp: push_opt_def split: if_splits)
  with eq show thesis by (rule that)
qed

section \<open>Where the buttons lie\<close>

text \<open>Buttons side by side between \<open>lo\<close> and \<open>hi\<close>.\<close>

definition laid :: "int \<Rightarrow> int \<Rightarrow> (nat \<times> int \<times> int) list \<Rightarrow> bool" where
  "laid lo hi ps \<longleftrightarrow> (\<forall>(b, x, w)\<in>set ps. lo \<le> x \<and> 0 \<le> w \<and> x + w \<le> hi)
     \<and> sorted_wrt (\<lambda>(_, x, w) (_, x', _). x + w \<le> x') ps"

lemma laid_Nil [simp]: "laid lo hi []"
  by (simp add: laid_def)

lemma laid_append: "laid lo mid ps \<Longrightarrow> laid mid hi qs \<Longrightarrow> lo \<le> mid \<Longrightarrow> mid \<le> hi \<Longrightarrow> laid lo hi (ps @ qs)"
  unfolding laid_def sorted_wrt_append by (fastforce simp: split_beta)

lemma laid_single: "lo \<le> x \<Longrightarrow> 0 \<le> w \<Longrightarrow> x + w \<le> hi \<Longrightarrow> laid lo hi [(b, x, w)]"
  by (simp add: laid_def)

lemma laid_Cons: "laid (x + w) hi ps \<Longrightarrow> 0 \<le> w \<Longrightarrow> x + w \<le> hi \<Longrightarrow> laid x hi ((b, x, w) # ps)"
  using laid_append[of x "x + w" "[(b, x, w)]" hi ps] by (simp add: laid_single)

lemma laid_mono: "laid lo hi ps \<Longrightarrow> lo' \<le> lo \<Longrightarrow> hi \<le> hi' \<Longrightarrow> laid lo' hi' ps"
  unfolding laid_def by fastforce

text \<open>The width a row of buttons takes, with the spacing after each.\<close>

definition row :: "(nat \<Rightarrow> int) \<Rightarrow> int \<Rightarrow> nat list \<Rightarrow> int" where
  "row w sp bs = sum_list (map w bs) + sp * int (length bs)"

lemma row_simps [simp]: "row w sp [] = 0" "row w sp (b # bs) = w b + sp + row w sp bs"
  by (simp_all add: row_def algebra_simps)

lemma row_nonneg: "\<forall>b\<in>set bs. 0 \<le> w b \<Longrightarrow> 0 \<le> sp \<Longrightarrow> 0 \<le> row w sp bs"
  unfolding row_def by (intro add_nonneg_nonneg sum_list_nonneg) auto

lemma place_buttons_append:
  "help \<notin> Some ` set as \<Longrightarrow>
     place_buttons w m help f0 x (as @ bs) =
     place_buttons w m help f0 x as @
     place_buttons w m help (f0 \<and> as = []) (x + row w (m_spacing m) as) bs"
  by (induction as arbitrary: f0 x) (auto simp: Let_def algebra_simps)

lemma place_buttons_laid:
  assumes "help \<notin> Some ` set bs" "\<forall>b\<in>set bs. 0 \<le> w b" "0 \<le> m_spacing m"
  shows "laid x (x + row w (m_spacing m) bs - (if bs = [] then 0 else m_spacing m))
     (place_buttons w m help f0 x bs)"
  using assms(1,2)
proof (induction bs arbitrary: f0 x)
  case (Cons b bs)
  let ?sp = "m_spacing m"
  have ih: "laid (x + w b + ?sp) (x + w b + ?sp + row w ?sp bs - (if bs = [] then 0 else ?sp))
      (place_buttons w m help False (x + w b + ?sp) bs)"
    using Cons by (intro Cons.IH) auto
  have r: "0 \<le> row w ?sp bs" using Cons.prems assms(3) by (intro row_nonneg) auto
  have hi: "x + w b + ?sp + row w ?sp bs - (if bs = [] then 0 else ?sp) \<le>
      (if bs = [] then x + w b + ?sp else x + w b + row w ?sp bs)" by simp
  have "laid (x + w b) (x + row w ?sp (b # bs) - ?sp) (place_buttons w m help False (x + w b + ?sp) bs)"
  proof (cases "bs = []")
    case False
    then show ?thesis using laid_mono[OF ih, of "x + w b"] assms(3) by simp
  qed simp
  from laid_Cons[OF this, of b] show ?case
    using Cons.prems r by (auto simp: Let_def)
qed simp

text \<open>The end of the row, with the extra spacing of a help button that is not alone.\<close>

definition row_end :: "(nat \<Rightarrow> int) \<Rightarrow> YButtonBoxMargins \<Rightarrow> nat option \<Rightarrow> nat list \<Rightarrow> int" where
  "row_end w m help bs = m_left m + row w (m_spacing m) bs - (if bs = [] then 0 else m_spacing m)
     + (if help \<noteq> None \<and> length bs > 1 then m_helpButtonExtraSpacing m else 0)"

lemma buttons_laid:
  assumes bs: "bs = (if kde then rest @ push_opt help else push_opt help @ rest)"
    and nh: "\<forall>h. help = Some h \<longrightarrow> h \<notin> set rest"
    and w: "\<forall>b\<in>set bs. 0 \<le> w b" and sp: "0 \<le> m_spacing m" "0 \<le> m_helpButtonExtraSpacing m"
  shows "laid (m_left m) (row_end w m help bs) (place_buttons w m help True (m_left m) bs)"
proof (cases "help")
  case None
  then show ?thesis
    using place_buttons_laid[of None bs w m "m_left m" True] w sp by (auto simp: row_end_def)
next
  case (Some h)
  let ?sp = "m_spacing m" and ?x = "m_left m" and ?e = "m_helpButtonExtraSpacing m"
  have hr: "help \<notin> Some ` set rest" using nh Some by auto
  have wr: "\<forall>b\<in>set rest. 0 \<le> w b" "0 \<le> w h" using w bs Some by (auto simp: push_opt_def split: if_splits)
  have r0: "0 \<le> row w ?sp rest" using wr sp by (intro row_nonneg) auto
  note lr = place_buttons_laid[OF hr wr(1) sp(1)]
  show ?thesis
  proof (cases kde)
    case True
    let ?y = "?x + row w ?sp rest + (if rest = [] then 0 else ?e)"
    have b: "bs = rest @ [h]" using bs True Some by (simp add: push_opt_def)
    have "place_buttons w m help True ?x bs = place_buttons w m help True ?x rest @ [(h, ?y, w h)]"
      unfolding b place_buttons_append[OF hr] by (auto simp: Some Let_def)
    moreover have "laid ?x ?y (place_buttons w m help True ?x rest)"
      by (rule laid_mono[OF lr]) (use sp in auto)
    moreover have "row_end w m help bs = ?y + w h"
      using b Some by (auto simp: row_end_def row_def algebra_simps)
    ultimately show ?thesis
      using laid_append[of ?x ?y _ "?y + w h" "[(h, ?y, w h)]"] wr r0 sp by (simp add: laid_single)
  next
    case False
    have b: "bs = h # rest" using bs False Some by (simp add: push_opt_def)
    have pl: "place_buttons w m help True ?x bs = (h, ?x, w h) # place_buttons w m help False (?x + w h + ?sp + ?e) rest"
      using b Some by (simp add: Let_def)
    have "laid (?x + w h) (row_end w m help bs) (place_buttons w m help False (?x + w h + ?sp + ?e) rest)"
    proof (cases "rest = []")
      case False
      then show ?thesis
        using laid_mono[OF lr[of "?x + w h + ?sp + ?e" False], of "?x + w h"] b Some sp
        by (simp add: row_end_def)
    qed simp
    moreover have "?x + w h \<le> row_end w m help bs"
      using b Some r0 sp wr by (auto simp: row_end_def)
    ultimately show ?thesis unfolding pl using laid_Cons wr(2) by blast
  qed
qed

section \<open>A box of its preferred size\<close>

definition good_buttons :: "YButtonBoxMargins \<Rightarrow> child_view list \<Rightarrow> bool" where
  "good_buttons m cs \<longleftrightarrow> 0 \<le> m_left m \<and> 0 \<le> m_right m \<and> 0 \<le> m_top m \<and> 0 \<le> m_bottom m
     \<and> 0 \<le> m_spacing m \<and> 0 \<le> m_helpButtonExtraSpacing m
     \<and> (\<forall>c\<in>set cs. 0 \<le> c_pref YD_HORIZ c \<and> 0 \<le> c_pref YD_VERT c)"

lemma sum_list_filter_le:
  "\<forall>x\<in>set xs. (0::int) \<le> g x \<Longrightarrow> sum_list (map g (filter P xs)) \<le> sum_list (map g xs)"
  by (induction xs) auto

lemma fold_max_ge: "c \<in> set cs \<Longrightarrow> (f c :: int) \<le> fold (\<lambda>c m. max m (f c)) cs a" 
  "a \<le> fold (\<lambda>c m. max m (f c)) cs a"
proof (induction cs arbitrary: a)
  case (Cons d cs)
  {
    case 1
    show ?case
    proof (cases "c = d")
      case True
      then show ?thesis using Cons(2)[of "max a (f d)"] by simp
    next
      case False
      then show ?thesis using Cons(1) 1 by simp
    qed
  next
    case 2
    then show ?case using Cons(2)[of "max a (f d)"] by simp
  }
qed simp_all

lemma maxChildSize_ge: "c \<in> set cs \<Longrightarrow> c_pref dir c \<le> maxChildSize dir cs" "0 \<le> maxChildSize dir cs"
  unfolding maxChildSize_def by (erule fold_max_ge(1), rule fold_max_ge(2))

lemma placed_sum:
  fixes f :: "child_view \<Rightarrow> int"
  assumes "mset bs = mset (placed_from 0 cs)" "\<forall>c\<in>set cs. 0 \<le> f c"
  shows "sum_list (map (\<lambda>b. f (cs ! b)) bs) \<le> sum_list (map f cs)" "length bs \<le> length cs"
    "\<forall>b\<in>set bs. b < length cs"
proof -
  have p: "placed_from 0 cs = filter (\<lambda>k. cv_role (cs ! k) \<noteq> Some YRelNotesButton) [0..<length cs]"
    by (simp add: placed_from_filter)
  have "sum_list (map (\<lambda>b. f (cs ! b)) bs) = sum_list (map (\<lambda>b. f (cs ! b)) (placed_from 0 cs))"
  proof -
    have "mset (map (\<lambda>b. f (cs ! b)) bs) = mset (map (\<lambda>b. f (cs ! b)) (placed_from 0 cs))"
      using assms(1) by simp
    from arg_cong[OF this, of sum_mset] show ?thesis by (simp only: sum_mset_sum_list)
  qed
  also have "\<dots> \<le> sum_list (map (\<lambda>b. f (cs ! b)) [0..<length cs])"
    unfolding p using assms(2) by (intro sum_list_filter_le) auto
  also have "map (\<lambda>b. f (cs ! b)) [0..<length cs] = map f cs"
    by (rule nth_equalityI) simp_all
  finally show "sum_list (map (\<lambda>b. f (cs ! b)) bs) \<le> sum_list (map f cs)" .
  have "length bs = length (placed_from 0 cs)" using assms(1) by (rule mset_eq_length)
  then show "length bs \<le> length cs" unfolding p using length_filter_le[of _ "[0..<length cs]"] by simp
  have "set bs = set (placed_from 0 cs)" using assms(1) by (rule mset_eq_setD)
  then show "\<forall>b\<in>set bs. b < length cs" by (simp add: p)
qed

text \<open>The width of button \<open>b\<close> when nothing has to be cut off.\<close>

definition full_width :: "bool \<Rightarrow> child_view list \<Rightarrow> nat \<Rightarrow> int" where
  "full_width eq cs b = (if eq then maxChildSize YD_HORIZ cs else c_pref YD_HORIZ (cs ! b))"

lemma row_fits:
  assumes good: "good_buttons m cs" and bs: "mset bs = mset (placed_from 0 cs)" "bs \<noteq> []"
  shows "row (full_width eq cs) (m_spacing m) bs - m_spacing m + m_left m + m_right m
     + (if findButton YHelpButton cs \<noteq> None then m_helpButtonExtraSpacing m else 0) \<le> bb_preferredWidth eq m cs"
proof -
  have nn: "\<forall>c\<in>set cs. 0 \<le> c_pref YD_HORIZ c" and sp: "0 \<le> m_spacing m"
    using good by (auto simp: good_buttons_def)
  note pl = placed_sum[OF bs(1) nn]
  have cs: "cs \<noteq> []" using pl(2) bs(2) by auto
  have sum: "sum_list (map (full_width eq cs) bs) \<le>
      (if eq then maxChildSize YD_HORIZ cs * int (length cs) else totalChildrenWidth cs)"
  proof (cases eq)
    case True
    have "sum_list (map (full_width eq cs) bs) = maxChildSize YD_HORIZ cs * int (length bs)"
      using True by (simp add: full_width_def[abs_def] sum_list_const)
    also have "\<dots> \<le> maxChildSize YD_HORIZ cs * int (length cs)"
      using maxChildSize_ge(2) pl(2) by (intro mult_left_mono) auto
    finally show ?thesis using True by simp
  next
    case False
    then show ?thesis using pl(1) by (simp add: full_width_def[abs_def] totalChildrenWidth_def)
  qed
  have "(int (length bs) - 1) * m_spacing m \<le> (int (length cs) - 1) * m_spacing m"
    using mult_right_mono[of "int (length bs) - 1" "int (length cs) - 1" "m_spacing m"] pl(2) sp by simp
  moreover have "row (full_width eq cs) (m_spacing m) bs - m_spacing m
      = sum_list (map (full_width eq cs) bs) + (int (length bs) - 1) * m_spacing m"
    by (simp add: row_def algebra_simps)
  moreover have "bb_preferredWidth eq m cs = (int (length cs) - 1) * m_spacing m
      + (if eq then maxChildSize YD_HORIZ cs * int (length cs) else totalChildrenWidth cs)
      + m_left m + m_right m + (if findButton YHelpButton cs \<noteq> None then m_helpButtonExtraSpacing m else 0)"
    using cs by (simp add: bb_preferredWidth_def)
  ultimately show ?thesis using sum by linarith
qed

text \<open>Excess space moves the row by at most the excess.\<close>

lemma add_excess_margins:
  fixes policy width prefWidth hasHelp m
  assumes "prefWidth \<le> width"
  defines "m' \<equiv> add_excess policy width prefWidth hasHelp m"
  shows "m_spacing m' = m_spacing m" "m_left m \<le> m_left m'"
    "m_helpButtonExtraSpacing m \<le> m_helpButtonExtraSpacing m'"
    "m_left m' + m_helpButtonExtraSpacing m' \<le> m_left m + m_helpButtonExtraSpacing m + (width - prefWidth)"
    "\<not> hasHelp \<Longrightarrow> m_helpButtonExtraSpacing m' = m_helpButtonExtraSpacing m"
proof -
  have h: "0 \<le> c_div (width - prefWidth) 2 \<and> c_div (width - prefWidth) 2 \<le> width - prefWidth"
    using assms(1) c_div_nonneg[of "width - prefWidth" 2] c_div_le[of "width - prefWidth" 2] by simp
  consider "width = prefWidth"
    | "width > prefWidth" "lp_addExcessSpaceToHelpButtonExtraMargin policy \<and> hasHelp"
    | "width > prefWidth" "\<not> (lp_addExcessSpaceToHelpButtonExtraMargin policy \<and> hasHelp)"
    using assms(1) by linarith
  then have "m_spacing m' = m_spacing m \<and> m_left m \<le> m_left m'
    \<and> m_helpButtonExtraSpacing m \<le> m_helpButtonExtraSpacing m'
    \<and> m_left m' + m_helpButtonExtraSpacing m' \<le> m_left m + m_helpButtonExtraSpacing m + (width - prefWidth)
    \<and> (\<not> hasHelp \<longrightarrow> m_helpButtonExtraSpacing m' = m_helpButtonExtraSpacing m)"
  proof cases
    case 3
    then show ?thesis
      using h unfolding m'_def by (cases "hor (lp_alignment policy)") (simp_all add: add_excess_def Let_def)
  qed (simp_all add: m'_def add_excess_def Let_def)
  then show "m_spacing m' = m_spacing m" "m_left m \<le> m_left m'"
    "m_helpButtonExtraSpacing m \<le> m_helpButtonExtraSpacing m'"
    "m_left m' + m_helpButtonExtraSpacing m' \<le> m_left m + m_helpButtonExtraSpacing m + (width - prefWidth)"
    "\<not> hasHelp \<Longrightarrow> m_helpButtonExtraSpacing m' = m_helpButtonExtraSpacing m" by auto
qed


text \<open>With room enough nothing is reduced.\<close>

lemma doLayout_wide:
  assumes bs: "buttonsByButtonOrder (lp_buttonOrder policy) cs = Inr bs" "bs \<noteq> []"
    and wide: "bb_preferredWidth (lp_equalSizeButtons policy) m cs \<le> width"
  shows "bb_doLayout policy reverseLayout m width height cs =
    (let help = findButton YHelpButton cs;
         m' = add_excess policy width (bb_preferredWidth (lp_equalSizeButtons policy) m cs) (help \<noteq> None) m;
         (h, y) = vert_layout policy height m cs
     in Inr (map (\<lambda>(b, x, w). (b, \<lparr>r_x = (if reverseLayout then width - x - w else x),
                                       r_y = y, r_w = w, r_h = h\<rparr>))
               (place_buttons (full_width (lp_equalSizeButtons policy) cs) m' help True (m_left m') bs)))"
  using assms
  by (simp add: bb_doLayout_def fit_equal_def reduce_width_def Let_def full_width_def[abs_def] split: prod.split)

lemma wide_row_end:
  assumes good: "good_buttons m cs" and bs: "mset bs = mset (placed_from 0 cs)" "bs \<noteq> []"
    and wide: "bb_preferredWidth eq m cs \<le> width"
  shows "row_end (full_width eq cs)
      (add_excess policy width (bb_preferredWidth eq m cs) (findButton YHelpButton cs \<noteq> None) m)
      (findButton YHelpButton cs) bs \<le> width"
proof -
  define m' where "m' = add_excess policy width (bb_preferredWidth eq m cs) (findButton YHelpButton cs \<noteq> None) m"
  note ex = add_excess_margins[OF wide, where m = m and policy = policy
    and hasHelp = "findButton YHelpButton cs \<noteq> None", folded m'_def]
  have "0 \<le> m_helpButtonExtraSpacing m" "0 \<le> m_right m" using good by (simp_all add: good_buttons_def)
  with row_fits[OF good bs, of eq] ex show ?thesis
    unfolding m'_def[symmetric] row_end_def using bs(2) by (cases "findButton YHelpButton cs = None") auto
qed

lemma vert_layout_high:
  assumes good: "good_buttons m cs" and high: "bb_preferredHeight m cs \<le> height"
  shows "\<exists>y. vert_layout policy height m cs = (maxChildSize YD_VERT cs, y)
    \<and> 0 \<le> y \<and> y + maxChildSize YD_VERT cs \<le> height"
proof -
  let ?h = "maxChildSize YD_VERT cs"
  let ?e = "height - ?h - m_top m - m_bottom m"
  have m: "0 \<le> m_top m" "0 \<le> m_bottom m" using good by (simp_all add: good_buttons_def)
  have e: "0 \<le> ?e" "0 \<le> c_div ?e 2" "c_div ?e 2 \<le> ?e"
    using high c_div_nonneg[of ?e 2] c_div_le[of ?e 2] by (simp_all add: bb_preferredHeight_def)
  have "\<not> height < bb_preferredHeight m cs" "\<not> height < ?h"
    using high m by (simp_all add: bb_preferredHeight_def)
  then show ?thesis
    using e m unfolding vert_layout_def by (cases "vert (lp_alignment policy)") (auto simp: Let_def)
qed

lemma place_buttons_fst [simp]: "map fst (place_buttons w m help f0 x bs) = bs"
  by (induction bs arbitrary: f0 x) (auto simp: Let_def)

lemma place_buttons_width: "(b, x', w') \<in> set (place_buttons w m help f0 x bs) \<Longrightarrow> b \<in> set bs \<and> w' = w b"
  by (induction bs arbitrary: f0 x) (auto simp: Let_def)

lemma wide_laid:
  fixes policy
  assumes good: "good_buttons m cs" and bs: "buttonsByButtonOrder ord cs = Inr bs" "bs \<noteq> []"
    and wide: "bb_preferredWidth eq m cs \<le> width"
  defines "m' \<equiv> add_excess policy width (bb_preferredWidth eq m cs) (findButton YHelpButton cs \<noteq> None) m"
  shows "laid 0 width (place_buttons (full_width eq cs) m' (findButton YHelpButton cs) True (m_left m') bs)"
proof -
  note ms = buttonsByButtonOrder_mset[OF bs(1)]
  have nn: "\<forall>c\<in>set cs. 0 \<le> c_pref YD_HORIZ c" using good by (simp add: good_buttons_def)
  note ex = add_excess_margins[OF wide, where m = m and policy = policy
    and hasHelp = "findButton YHelpButton cs \<noteq> None", folded m'_def]
  have m: "0 \<le> m_spacing m" "0 \<le> m_helpButtonExtraSpacing m" "0 \<le> m_left m"
    using good by (simp_all add: good_buttons_def)
  have w: "\<forall>b\<in>set bs. 0 \<le> full_width eq cs b"
    using placed_sum(3)[OF ms nn] nn maxChildSize_ge(2) by (auto simp: full_width_def)
  obtain rest where "bs = (if ord = YKDEButtonOrder then rest @ push_opt (findButton YHelpButton cs)
           else push_opt (findButton YHelpButton cs) @ rest)"
    "\<forall>h. findButton YHelpButton cs = Some h \<longrightarrow> h \<notin> set rest"
    by (rule buttons_help_position[OF bs(1)])
  from buttons_laid[OF this w, of m'] ex m
  have "laid (m_left m') (row_end (full_width eq cs) m' (findButton YHelpButton cs) bs)
      (place_buttons (full_width eq cs) m' (findButton YHelpButton cs) True (m_left m') bs)" by simp
  moreover have "row_end (full_width eq cs) m' (findButton YHelpButton cs) bs \<le> width"
    unfolding m'_def by (rule wide_row_end[OF good ms bs(2) wide])
  ultimately show ?thesis using ex(2) m(3) by (elim laid_mono) auto
qed


section \<open>When ordering and sanity check succeed\<close>

definition usable_role :: "child_view \<Rightarrow> bool" where
  "usable_role c \<longleftrightarrow> cv_role c \<noteq> None \<and> cv_role c \<noteq> Some YMaxButtonRole"

definition special_roles :: "child_view list \<Rightarrow> YButtonRole option list" where
  "special_roles cs = filter (\<lambda>r. r \<noteq> Some YCustomButton) (map cv_role cs)"

lemma collect_buttons_Cons:
  "cv_role c = Some YCustomButton \<Longrightarrow>
     collect_buttons i (c # cs) special custom = collect_buttons (i + 1) cs special (custom @ [i])"
  "cv_role c = Some role \<Longrightarrow> role \<noteq> YCustomButton \<Longrightarrow> role \<noteq> YMaxButtonRole \<Longrightarrow> special role = None \<Longrightarrow>
     collect_buttons i (c # cs) special custom = collect_buttons (i + 1) cs (special(role := Some i)) custom"
  by (simp, cases role) (simp_all del: fun_upd_apply)

lemma collect_buttons_succeeds:
  "(\<exists>r. collect_buttons i cs special custom = Inr r) \<longleftrightarrow>
     (\<forall>c\<in>set cs. usable_role c) \<and> distinct (special_roles cs)
     \<and> (\<forall>role. Some role \<in> set (special_roles cs) \<longrightarrow> special role = None)"
  (is "?ok i cs special custom \<longleftrightarrow> ?spec cs special")
proof (induction cs arbitrary: i special custom)
  case (Cons c cs)
  show ?case
  proof (cases "usable_role c")
    case False
    then show ?thesis by (auto elim: collect_buttons_ConsE simp: usable_role_def)
  next
    case True
    then obtain role where r: "cv_role c = Some role" "role \<noteq> YMaxButtonRole" by (auto simp: usable_role_def)
    show ?thesis
    proof (cases "role = YCustomButton")
      case True
      then show ?thesis
        using r Cons.IH by (simp add: special_roles_def usable_role_def collect_buttons_Cons(1) del: collect_buttons.simps)
    next
      case False
      have sr: "special_roles (c # cs) = Some role # special_roles cs" using r False by (simp add: special_roles_def)
      show ?thesis
      proof (cases "special role")
        case None
        have "?ok i (c # cs) special custom \<longleftrightarrow> ?ok (i + 1) cs (special(role := Some i)) custom"
          by (simp only: collect_buttons_Cons(2)[where special = special and role = role, OF r(1) False r(2) None])
        also have "\<dots> \<longleftrightarrow> ?spec cs (special(role := Some i))" by (rule Cons.IH)
        also have "\<dots> \<longleftrightarrow> ?spec (c # cs) special"
          using True None unfolding sr by (auto split: if_splits)
        finally show ?thesis .
      next
        case (Some j)
        then show ?thesis using r False unfolding sr by (auto elim!: collect_buttons_ConsE simp del: collect_buttons.simps)
      qed
    qed
  qed
qed (simp add: special_roles_def)

lemma sanity_loop_succeeds:
  "sanity_loop cs ok cancel = Inr (ok', cancel') \<longleftrightarrow>
     (\<forall>c\<in>set cs. cv_role c \<noteq> None)
     \<and> length (filter (\<lambda>c. cv_role c = Some YOKButton) cs) + (if ok then 1 else 0) = (if ok' then 1 else 0)
     \<and> length (filter (\<lambda>c. cv_role c = Some YCancelButton) cs) + (if cancel then 1 else 0) = (if cancel' then 1 else 0)"
proof (induction cs arbitrary: ok cancel)
  case (Cons c cs)
  then show ?case by (cases "cv_role c") (auto split: if_splits)
qed auto

lemma length_filter_flag:
  "length (filter P xs) = (if b then 1 else 0) \<Longrightarrow> b \<longleftrightarrow> (\<exists>x\<in>set xs. P x)"
  using filter_empty_conv[of P xs] by (cases "filter P xs") (auto split: if_splits)

lemma sanity_loop_flags:
  "sanity_loop cs False False = Inr (ok, cancel) \<Longrightarrow>
     ok \<longleftrightarrow> (\<exists>c\<in>set cs. cv_role c = Some YOKButton)"
  "sanity_loop cs False False = Inr (ok, cancel) \<Longrightarrow>
     cancel \<longleftrightarrow> (\<exists>c\<in>set cs. cv_role c = Some YCancelButton)"
  unfolding sanity_loop_succeeds by (simp_all add: length_filter_flag)


section \<open>Properties\<close>

definition button :: "YButtonRole \<Rightarrow> int \<Rightarrow> child_view" where
  "button role w =
     \<lparr>cv_preferred = YBothDim w 3, cv_weight = YBothDim 0 0, cv_stretchable = YBothDim False False,
      cv_isSpacing = False, cv_margins = None, cv_role = Some role, cv_debugLabel = []\<rparr>"

definition sample_buttons :: "child_view list" where
  "sample_buttons = [button YOKButton 8, button YCustomButton 5, button YHelpButton 6,
     button YRelNotesButton 9, button YCancelButton 10]"

definition sample_margins :: YButtonBoxMargins where
  "sample_margins = \<lparr>m_left = 1, m_right = 2, m_top = 1, m_bottom = 0, m_spacing = 2, m_helpButtonExtraSpacing = 4\<rparr>"

text \<open>
  C27: Ordering the buttons of a box succeeds exactly when every child is a push button with a usable
  role and no role but that of a custom button occurs twice. The order then holds every child
  exactly once, except the release-notes button, which is collected and never placed.
\<close>

theorem buttonsByButtonOrder_spec:
  "((\<exists>bs. buttonsByButtonOrder ord cs = Inr bs) \<longleftrightarrow>
      (\<forall>c\<in>set cs. usable_role c) \<and> distinct (special_roles cs))
   \<and> (\<forall>bs. buttonsByButtonOrder ord cs = Inr bs \<longrightarrow>
        mset bs = mset (filter (\<lambda>k. cv_role (cs ! k) \<noteq> Some YRelNotesButton) [0..<length cs]))"
proof (intro conjI allI impI)
  have "(\<exists>bs. buttonsByButtonOrder ord cs = Inr bs) \<longleftrightarrow> (\<exists>r. collect_buttons 0 cs (\<lambda>_. None) [] = Inr r)"
    by (auto simp: buttonsByButtonOrder_def bind_result_Inr_iff)
  then show "(\<exists>bs. buttonsByButtonOrder ord cs = Inr bs) \<longleftrightarrow>
      (\<forall>c\<in>set cs. usable_role c) \<and> distinct (special_roles cs)"
    using collect_buttons_succeeds[of 0 cs "\<lambda>_. None" "[]"] by simp
  show "mset bs = mset (filter (\<lambda>k. cv_role (cs ! k) \<noteq> Some YRelNotesButton) [0..<length cs])"
    if "buttonsByButtonOrder ord cs = Inr bs" for bs
    using buttonsByButtonOrder_mset[OF that] by (simp add: placed_from_filter)
qed

theorem buttonsByButtonOrder_spec_witness:
  "buttonsByButtonOrder YKDEButtonOrder sample_buttons = Inr [0, 4, 1, 2]
   \<and> mset [0, 4, 1, 2 :: nat] = mset (filter (\<lambda>k. cv_role (sample_buttons ! k) \<noteq> Some YRelNotesButton) [0..<length sample_buttons])"
proof -
  have "buttonsByButtonOrder YKDEButtonOrder sample_buttons = Inr [0, 4, 1, 2]" by code_simp
  with buttonsByButtonOrder_spec[of YKDEButtonOrder sample_buttons] show ?thesis by blast
qed

text \<open>
  The sanity check of a button box passes exactly when all children are push buttons, there is at
  most one [OK] and at most one [Cancel] button, and, unless the check is relaxed, a box with several
  buttons has both.
\<close>

theorem sanityCheck_spec:
  "sanityCheck relaxed cs = Inr () \<longleftrightarrow>
     (\<forall>c\<in>set cs. cv_role c \<noteq> None)
     \<and> (let ok = length (filter (\<lambda>c. cv_role c = Some YOKButton) cs);
            cancel = length (filter (\<lambda>c. cv_role c = Some YCancelButton) cs)
        in ok \<le> 1 \<and> cancel \<le> 1 \<and> (length cs > 1 \<and> \<not> relaxed \<longrightarrow> ok = 1 \<and> cancel = 1))"
  (is "_ = ?spec")
proof -
  have "sanityCheck relaxed cs = Inr () \<longleftrightarrow> (\<exists>ok cancel. sanity_loop cs False False = Inr (ok, cancel)
      \<and> \<not> (length cs > 1 \<and> \<not> relaxed \<and> (\<not> ok \<or> \<not> cancel)))"
    by (auto simp: sanityCheck_def bind_result_Inr_iff split: if_splits)
  also have "\<dots> \<longleftrightarrow> ?spec"
    unfolding sanity_loop_succeeds Let_def
    by (auto simp: ex_bool_eq le_Suc_eq)
  finally show ?thesis .
qed

theorem sanityCheck_spec_witness:
  "sanityCheck False sample_buttons = Inr ()
   \<and> sanityCheck False [button YOKButton 8, button YCustomButton 5] \<noteq> Inr ()"
  using sanityCheck_spec[of False sample_buttons]
    sanityCheck_spec[of False "[button YOKButton 8, button YCustomButton 5]"]
  by (simp add: sample_buttons_def button_def Let_def)

text \<open>
  C26: A button box that gets at least its preferred size puts its buttons in the order of the policy
  inside itself, from left to right (from right to left in a mirrored layout), without overlap, each
  at least as large as it wants to be.
\<close>

theorem bb_doLayout_fits:
  assumes "good_buttons m cs" "bb_doLayout policy reverseLayout m width height cs = Inr ps"
    "bb_preferredWidth (lp_equalSizeButtons policy) m cs \<le> width" "bb_preferredHeight m cs \<le> height"
  shows "buttonsByButtonOrder (lp_buttonOrder policy) cs = Inr (map fst ps)
    \<and> (\<forall>(b, r)\<in>set ps. inside width height r \<and> c_pref YD_HORIZ (cs ! b) \<le> r_w r \<and> c_pref YD_VERT (cs ! b) \<le> r_h r)
    \<and> sorted_wrt (\<lambda>(_, r) (_, r'). if reverseLayout then r_x r' + r_w r' \<le> r_x r else r_x r + r_w r \<le> r_x r') ps"
proof -
  obtain bs where bs: "buttonsByButtonOrder (lp_buttonOrder policy) cs = Inr bs"
    using assms(2) by (auto simp: bb_doLayout_def bind_result_Inr_iff)
  show ?thesis
  proof (cases "bs = []")
    case True
    then have "ps = []" using assms(2) bs by (simp add: bb_doLayout_def)
    then show ?thesis using bs True by simp
  next
    case False
    define eq where "eq = lp_equalSizeButtons policy"
    define m' where "m' = add_excess policy width (bb_preferredWidth eq m cs) (findButton YHelpButton cs \<noteq> None) m"
    define qs where "qs = place_buttons (full_width eq cs) m' (findButton YHelpButton cs) True (m_left m') bs"
    obtain y where y: "vert_layout policy height m cs = (maxChildSize YD_VERT cs, y)"
      "0 \<le> y" "y + maxChildSize YD_VERT cs \<le> height"
      using vert_layout_high[OF assms(1,4)] by blast
    have ps: "ps = map (\<lambda>(b, x, w). (b, \<lparr>r_x = (if reverseLayout then width - x - w else x),
        r_y = y, r_w = w, r_h = maxChildSize YD_VERT cs\<rparr>)) qs"
      using assms(2) unfolding doLayout_wide[OF bs False assms(3)]
      by (simp add: Let_def y(1) eq_def m'_def qs_def)
    have l: "laid 0 width qs"
      unfolding qs_def m'_def by (rule wide_laid[OF assms(1) bs False]) (use assms(3) in \<open>simp add: eq_def\<close>)
    have nn: "\<forall>c\<in>set cs. 0 \<le> c_pref YD_HORIZ c" using assms(1) by (simp add: good_buttons_def)
    have idx: "\<forall>b\<in>set bs. b < length cs" by (rule placed_sum(3)[OF buttonsByButtonOrder_mset[OF bs] nn])
    have size: "b < length cs \<and> w = full_width eq cs b" if "(b, x, w) \<in> set qs" for b x w
      using place_buttons_width that idx unfolding qs_def by blast
    have "map fst ps = bs" by (simp add: ps split_beta comp_def) (simp add: qs_def)
    moreover have "inside width height r \<and> c_pref YD_HORIZ (cs ! b) \<le> r_w r \<and> c_pref YD_VERT (cs ! b) \<le> r_h r"
      if br: "(b, r) \<in> set ps" for b r
    proof -
      obtain x w where q: "(b, x, w) \<in> set qs" and r: "r = \<lparr>r_x = (if reverseLayout then width - x - w else x),
          r_y = y, r_w = w, r_h = maxChildSize YD_VERT cs\<rparr>" using br unfolding ps by auto
      have "0 \<le> x \<and> 0 \<le> w \<and> x + w \<le> width" using l q unfolding laid_def by fastforce
      then show ?thesis using size[OF q] y maxChildSize_ge[where cs = cs] by (simp add: r inside_def full_width_def)
    qed
    moreover have "sorted_wrt (\<lambda>(_, r) (_, r'). if reverseLayout then r_x r' + r_w r' \<le> r_x r else r_x r + r_w r \<le> r_x r') ps"
      using l unfolding ps laid_def sorted_wrt_map
      by (auto elim!: sorted_wrt_mono_rel[rotated] simp: split_beta)
    ultimately show ?thesis using bs by auto
  qed
qed

theorem bb_doLayout_fits_witness:
  "\<exists>ps. bb_doLayout kdeLayoutPolicy True sample_margins 70 6 sample_buttons = Inr ps
    \<and> map fst ps = [0, 4, 1, 2] \<and> list_all (\<lambda>(b, r). inside 70 6 r) ps"
proof -
  have g: "good_buttons sample_margins sample_buttons"
    "bb_preferredWidth (lp_equalSizeButtons kdeLayoutPolicy) sample_margins sample_buttons \<le> 70"
    "bb_preferredHeight sample_margins sample_buttons \<le> 6"
    by code_simp+
  obtain ps where ps: "bb_doLayout kdeLayoutPolicy True sample_margins 70 6 sample_buttons = Inr ps"
    "map fst ps = [0, 4, 1, 2]"
  proof -
    have "case bb_doLayout kdeLayoutPolicy True sample_margins 70 6 sample_buttons of
        Inl _ \<Rightarrow> False | Inr ps \<Rightarrow> map fst ps = [0, 4, 1, 2]" by code_simp
    then show thesis using that by (auto split: sum.splits)
  qed
  with bb_doLayout_fits[OF g(1) ps(1) g(2,3)] show ?thesis by (fastforce simp: list_all_iff)
qed

text \<open>
  A box that is too narrow takes half of the missing width from each side margin, whatever the
  margins are. With unequal margins the buttons leave the box: two buttons of width 10 in a box of
  width 22 with margins 10 and 0 end at 27.
\<close>

theorem bb_doLayout_unequal_margins:
  "bb_doLayout kdeLayoutPolicy False
     \<lparr>m_left = 10, m_right = 0, m_top = 0, m_bottom = 0, m_spacing = 2, m_helpButtonExtraSpacing = 0\<rparr> 22 3
     [button YOKButton 10, button YCancelButton 10]
   = Inr [(0, \<lparr>r_x = 5, r_y = 0, r_w = 10, r_h = 3\<rparr>), (1, \<lparr>r_x = 17, r_y = 0, r_w = 10, r_h = 3\<rparr>)]
   \<and> \<not> inside 22 3 \<lparr>r_x = 17, r_y = 0, r_w = 10, r_h = 3\<rparr>"
  by code_simp

end
