(* ===== verification/Yui_Heap.thy ===== *)
theory Yui_Heap
  imports Yui_Widget
begin

text \<open>
  The life of widget objects (\<^verbatim>\<open>YWidget.cc\<close>, \<^verbatim>\<open>YDialogHelpers.cc\<close>): construction below a parent,
  destruction with all children, and the two searches that climb from a widget to its ancestors
  (\<^verbatim>\<open>findDialog\<close>, \<^verbatim>\<open>showHelpText\<close>). Objects live in a heap, a map from addresses; using an address
  that is not allocated is \<^term>\<open>undefined_behaviour\<close>. The theory shows that every history of
  constructions and destructions keeps the links between parents and children consistent, that
  destroying a widget ends normally and frees exactly its subtree, and that the searches end.
\<close>

section \<open>Objects and the heap\<close>

text \<open>
  What the dynamic casts tell apart; for a push button whether it is a help button and whether it is
  a release-notes button.
\<close>

datatype widget_kind = KDialog | KPushButton bool bool | KOther

text \<open>The members of \<^verbatim>\<open>YWidgetPrivate\<close> that link the objects, and the help text.\<close>

record wobj =
  wo_kind :: widget_kind
  wo_manager :: "nat children_manager"
  wo_parent :: "nat option"
  wo_beingDestroyed :: bool
  wo_helpText :: string

type_synonym wheap = "nat \<rightharpoonup> wobj"

abbreviation kids :: "wobj \<Rightarrow> nat list" where
  "kids ob \<equiv> cm_children (wo_manager ob)"

abbreviation dangling :: "'a result" where
  "dangling \<equiv> throw (undefined_behaviour ''dangling pointer'')"

text \<open>
  The constructor: a widget starts with the children manager of its class and adds itself to its
  parent. When the parent refuses the child the exception leaves the constructor and the memory is
  released, so the heap does not change.
\<close>

definition new_wobj :: "widget_kind \<Rightarrow> manager_class \<Rightarrow> nat option \<Rightarrow> wobj" where
  "new_wobj kind mc parent =
     \<lparr>wo_kind = kind, wo_manager = \<lparr>cm_class = mc, cm_children = []\<rparr>, wo_parent = parent,
      wo_beingDestroyed = False, wo_helpText = []\<rparr>"

definition new_YWidget :: "nat \<Rightarrow> widget_kind \<Rightarrow> manager_class \<Rightarrow> nat option \<Rightarrow> wheap \<Rightarrow> wheap result" where
  "new_YWidget a kind mc parent h =
     (case parent of
        None \<Rightarrow> return (h(a \<mapsto> new_wobj kind mc None))
      | Some p \<Rightarrow>
          (case h p of
             None \<Rightarrow> dangling
           | Some po \<Rightarrow>
               bind_result (addChild a (wo_manager po))
                 (\<lambda>m. return (h(a \<mapsto> new_wobj kind mc parent, p \<mapsto> po\<lparr>wo_manager := m\<rparr>)))))"

definition setHelpText :: "nat \<Rightarrow> string \<Rightarrow> wheap \<Rightarrow> wheap result" where
  "setHelpText a txt h =
     (case h a of None \<Rightarrow> dangling | Some ob \<Rightarrow> return (h(a \<mapsto> ob\<lparr>wo_helpText := txt\<rparr>)))"

section \<open>Destruction\<close>

text \<open>
  The end of the destructor: the widget leaves its parent, unless the parent is being destroyed
  itself, and its memory is released.
\<close>

definition leave_parent :: "nat \<Rightarrow> wheap \<Rightarrow> wheap result" where
  "leave_parent a h =
     (case h a of
        None \<Rightarrow> dangling
      | Some ob \<Rightarrow>
          (case wo_parent ob of
             None \<Rightarrow> return (h(a := None))
           | Some p \<Rightarrow>
               (case h p of
                  None \<Rightarrow> dangling
                | Some po \<Rightarrow>
                    if wo_beingDestroyed po then return (h(a := None))
                    else return ((h(p \<mapsto> po\<lparr>wo_manager := removeChild (wo_beingDestroyed po) a (wo_manager po)\<rparr>))
                                   (a := None)))))"

text \<open>
  \<^verbatim>\<open>~YWidget\<close> and the loop of \<^verbatim>\<open>deleteChildren\<close>. The loop advances its iterator before it deletes a
  child, and a deleted child removes only itself from the list, so the loop runs over the children
  the widget had at its beginning. The first argument bounds the depth of nested calls; \<open>None\<close>
  is the value for a depth that is not enough.
\<close>

fun delete_widget :: "nat \<Rightarrow> nat \<Rightarrow> wheap \<Rightarrow> wheap result option"
  and delete_children :: "nat \<Rightarrow> nat list \<Rightarrow> wheap \<Rightarrow> wheap result option" where
  "delete_widget 0 a h = None"
| "delete_widget (Suc n) a h =
     (case h a of
        None \<Rightarrow> Some dangling
      | Some ob \<Rightarrow>
          (case delete_children n (kids ob) (h(a \<mapsto> ob\<lparr>wo_beingDestroyed := True\<rparr>)) of
             None \<Rightarrow> None
           | Some (Inl e) \<Rightarrow> Some (throw e)
           | Some (Inr h1) \<Rightarrow> Some (leave_parent a h1)))"
| "delete_children n [] h = Some (return h)"
| "delete_children n (c # cs) h =
     (case h c of
        None \<Rightarrow> Some dangling
      | Some _ \<Rightarrow>
          (case delete_widget n c h of
             None \<Rightarrow> None
           | Some (Inl e) \<Rightarrow> Some (throw e)
           | Some (Inr h1) \<Rightarrow> delete_children n cs h1))"

text \<open>\<^verbatim>\<open>deleteChildren\<close> called from outside, as \<^verbatim>\<open>YReplacePoint\<close> does: the list is cleared at last.\<close>

definition deleteChildren :: "nat \<Rightarrow> nat \<Rightarrow> wheap \<Rightarrow> wheap result option" where
  "deleteChildren n a h =
     (case h a of
        None \<Rightarrow> Some dangling
      | Some ob \<Rightarrow>
          (case delete_children n (kids ob) h of
             None \<Rightarrow> None
           | Some (Inl e) \<Rightarrow> Some (throw e)
           | Some (Inr h1) \<Rightarrow>
               (case h1 a of
                  None \<Rightarrow> Some dangling
                | Some ob1 \<Rightarrow> Some (return (h1(a \<mapsto> ob1\<lparr>wo_manager := cm_clear (wo_manager ob1)\<rparr>))))))"

section \<open>Searches among the ancestors\<close>

text \<open>
  The two loops end only where the links to the parents do; not ending is the value \<open>None\<close>.
\<close>

partial_function (option) findDialog :: "wheap \<Rightarrow> nat option \<Rightarrow> nat option result option" where
  "findDialog h w =
     (case w of
        None \<Rightarrow> Some (return None)
      | Some a \<Rightarrow>
          (case h a of
             None \<Rightarrow> Some dangling
           | Some ob \<Rightarrow>
               if wo_kind ob = KDialog then Some (return (Some a)) else findDialog h (wo_parent ob)))"

partial_function (option) find_helpText :: "wheap \<Rightarrow> nat option \<Rightarrow> string \<Rightarrow> string result option" where
  "find_helpText h w helpText =
     (case w of
        None \<Rightarrow> Some (return helpText)
      | Some a \<Rightarrow>
          (case h a of
             None \<Rightarrow> Some dangling
           | Some ob \<Rightarrow>
               find_helpText h (wo_parent ob) (if wo_helpText ob \<noteq> [] then wo_helpText ob else helpText)))"

text \<open>
  \<^verbatim>\<open>YDialog::showHelpText\<close> returns whether there is a help text; the text itself goes to a popup
  dialog.
\<close>

definition showHelpText :: "wheap \<Rightarrow> nat \<Rightarrow> (bool \<times> string) result option" where
  "showHelpText h a =
     map_option (\<lambda>r. bind_result r (\<lambda>helpText. return (helpText \<noteq> [], helpText))) (find_helpText h (Some a) [])"

section \<open>Consistent heaps\<close>

definition kid_rel :: "wheap \<Rightarrow> (nat \<times> nat) set" where
  "kid_rel h = {(p, c). \<exists>po. h p = Some po \<and> c \<in> set (kids po)}"

definition parent_rel :: "wheap \<Rightarrow> (nat \<times> nat) set" where
  "parent_rel h = {(p, c). \<exists>co. h c = Some co \<and> wo_parent co = Some p}"

definition heap_ok :: "wheap \<Rightarrow> bool" where
  "heap_ok h \<longleftrightarrow> finite (dom h) \<and> kid_rel h = parent_rel h \<and> acyclic (kid_rel h)
     \<and> (\<forall>a ob. h a = Some ob \<longrightarrow> manager_ok (wo_manager ob) \<and> \<not> wo_beingDestroyed ob)"

text \<open>The addresses of the subtree of a widget.\<close>

definition subtree :: "wheap \<Rightarrow> nat \<Rightarrow> nat set" where
  "subtree h a = {b. (a, b) \<in> (kid_rel h)\<^sup>*}"

text \<open>The heap after the subtree of \<open>a\<close> is gone and \<open>a\<close> has left its parent.\<close>

definition pruned :: "nat \<Rightarrow> wheap \<Rightarrow> wheap" where
  "pruned a h = (\<lambda>b. if b \<in> subtree h a then None
     else map_option (\<lambda>ob. ob\<lparr>wo_manager := cm_remove a (wo_manager ob)\<rparr>) (h b))"

lemma heap_okD:
  assumes "heap_ok h"
  shows "finite (dom h)" "kid_rel h = parent_rel h" "acyclic (kid_rel h)"
    "h a = Some ob \<Longrightarrow> manager_ok (wo_manager ob)" "h a = Some ob \<Longrightarrow> \<not> wo_beingDestroyed ob"
    "h a = Some ob \<Longrightarrow> distinct (kids ob)"
  using assms by (auto simp: heap_ok_def manager_ok_def)

lemma kid_alive:
  "heap_ok h \<Longrightarrow> (p, c) \<in> kid_rel h \<Longrightarrow> p \<in> dom h \<and> c \<in> dom h"
  using heap_okD(2)[of h] unfolding kid_rel_def parent_rel_def set_eq_iff by blast

lemma kid_rel_subset: "heap_ok h \<Longrightarrow> kid_rel h \<subseteq> dom h \<times> dom h"
  using kid_alive by auto

lemma kid_wf: "heap_ok h \<Longrightarrow> wf ((kid_rel h)\<inverse>)" "heap_ok h \<Longrightarrow> wf (kid_rel h)"
proof -
  assume ok: "heap_ok h"
  have "finite (kid_rel h)"
    using finite_subset[OF kid_rel_subset[OF ok]] heap_okD(1)[OF ok] by simp
  then show "wf ((kid_rel h)\<inverse>)" "wf (kid_rel h)"
    using heap_okD(3)[OF ok] by (simp_all add: finite_acyclic_wf_converse finite_acyclic_wf)
qed

lemma kid_single_parent: "heap_ok h \<Longrightarrow> single_valued ((kid_rel h)\<inverse>)"
  unfolding heap_okD(2)[of h] single_valued_def parent_rel_def by auto


section \<open>What destruction does\<close>

text \<open>The subtree of a widget as a list, in the order the destructors start.\<close>

inductive listing :: "wheap \<Rightarrow> nat \<Rightarrow> nat list \<Rightarrow> bool"
  and listings :: "wheap \<Rightarrow> nat \<Rightarrow> nat list \<Rightarrow> nat list \<Rightarrow> bool" for h :: wheap where
  widget: "h a = Some ob \<Longrightarrow> listings h a (kids ob) xs \<Longrightarrow> listing h a (a # xs)"
| no_kid: "listings h p [] []"
| kid: "h c = Some co \<Longrightarrow> wo_parent co = Some p \<Longrightarrow> listing h c xs \<Longrightarrow> listings h p cs ys
    \<Longrightarrow> listings h p (c # cs) (xs @ ys)"

inductive_cases listingE: "listing h a xs"

text \<open>Children leave a parent, unless it is being destroyed.\<close>

definition drop_kids :: "nat \<Rightarrow> nat list \<Rightarrow> wheap \<Rightarrow> wheap" where
  "drop_kids p cs h =
     (case h p of
        None \<Rightarrow> h
      | Some po \<Rightarrow> if wo_beingDestroyed po then h else h(p \<mapsto> po\<lparr>wo_manager := fold cm_remove cs (wo_manager po)\<rparr>))"

definition drop_from_parent :: "nat option \<Rightarrow> nat \<Rightarrow> wheap \<Rightarrow> wheap" where
  "drop_from_parent p a h = (case p of None \<Rightarrow> h | Some p \<Rightarrow> drop_kids p [a] h)"

lemma drop_kids_append: "drop_kids p ds (drop_kids p cs h) = drop_kids p (cs @ ds) h"
  by (auto simp: drop_kids_def split: option.split)

lemma drop_kids_restrict: "p \<in> S \<Longrightarrow> drop_kids p cs h |` S = drop_kids p cs (h |` S)"
  by (auto simp: drop_kids_def restrict_map_def fun_eq_iff split: option.split)

lemma drop_kids_other: "x \<noteq> p \<Longrightarrow> drop_kids p cs h x = h x"
  by (auto simp: drop_kids_def split: option.split)

lemma drop_kids_alive: "drop_kids p cs h x = None \<longleftrightarrow> h x = None"
  by (auto simp: drop_kids_def split: option.split)

lemma drop_kids_Nil [simp]: "drop_kids p [] h = h"
  by (auto simp: drop_kids_def split: option.split)

lemma leave_parent_drop:
  assumes "h a = Some ob" "\<And>p. wo_parent ob = Some p \<Longrightarrow> p \<noteq> a \<and> h p \<noteq> None"
  shows "leave_parent a h = Inr (drop_from_parent (wo_parent ob) a (h(a := None)))"
  using assms
  by (cases "wo_parent ob")
    (auto simp: leave_parent_def drop_from_parent_def drop_kids_def removeChild_def fun_upd_twist)

lemma delete_listing:
  "listing h a xs \<Longrightarrow> (\<And>g n. distinct xs \<Longrightarrow> (\<And>x. x \<in> set xs \<Longrightarrow> g x = h x) \<Longrightarrow> length xs \<le> n \<Longrightarrow>
     (\<And>p. wo_parent (the (h a)) = Some p \<Longrightarrow> p \<notin> set xs \<and> g p \<noteq> None) \<Longrightarrow>
     delete_widget n a g = Some (Inr (drop_from_parent (wo_parent (the (h a))) a (g |` (- set xs)))))"
  "listings h q cs ys \<Longrightarrow> (\<And>g n. distinct ys \<Longrightarrow> (\<And>x. x \<in> set ys \<Longrightarrow> g x = h x) \<Longrightarrow> length ys \<le> n \<Longrightarrow>
     q \<notin> set ys \<Longrightarrow> g q \<noteq> None \<Longrightarrow>
     delete_children n cs g = Some (Inr (drop_kids q cs (g |` (- set ys)))))"
proof (induction rule: listing_listings.inducts)
  case (widget a ob xs)
  obtain m where n: "n = Suc m" "length xs \<le> m" using widget.prems(3) by (cases n) auto
  have ga: "g a = Some ob" using widget.prems(2)[of a] widget.IH(1) by simp
  let ?g = "g(a \<mapsto> ob\<lparr>wo_beingDestroyed := True\<rparr>)"
  have "delete_children m (kids ob) ?g = Some (Inr (drop_kids a (kids ob) (?g |` (- set xs))))"
    using widget.prems(1,2) n(2) by (intro widget.IH(3)) auto
  also have "drop_kids a (kids ob) (?g |` (- set xs)) = ?g |` (- set xs)"
    using widget.prems(1) by (simp add: drop_kids_def)
  finally have d: "delete_children m (kids ob) ?g = Some (Inr (?g |` (- set xs)))" .
  have "leave_parent a (?g |` (- set xs)) =
      Inr (drop_from_parent (wo_parent ob) a ((?g |` (- set xs))(a := None)))"
    using widget.prems(1,4) widget.IH(1)
    by (subst leave_parent_drop[where ob = "ob\<lparr>wo_beingDestroyed := True\<rparr>"]) auto
  moreover have "(?g |` (- set xs))(a := None) = g |` (- set (a # xs))"
    by (auto simp: restrict_map_def fun_eq_iff)
  ultimately show ?case
    by (simp only: n(1) delete_widget.simps ga option.case d sum.case widget.IH(1) option.sel)
next
  case (no_kid p)
  then show ?case by simp
next
  case (kid c co p xs cs ys)
  have gc: "g c = Some co" and cxs: "c \<in> set xs"
    using kid.prems(2)[of c] kid.IH(1,2) by (auto elim: listingE)
  have "delete_widget n c g = Some (Inr (drop_from_parent (wo_parent (the (h c))) c (g |` (- set xs))))"
    using kid.prems kid.IH(1) kid.hyps by (intro kid.IH(3)) auto
  then have w: "delete_widget n c g = Some (Inr (drop_kids p [c] (g |` (- set xs))))"
    using kid.IH(1) kid.hyps by (simp add: drop_from_parent_def)
  let ?g = "drop_kids p [c] (g |` (- set xs))"
  have "delete_children n cs ?g = Some (Inr (drop_kids p cs (?g |` (- set ys))))"
  proof (rule kid.IH(5))
    fix x assume "x \<in> set ys"
    then show "?g x = h x"
      using kid.prems(1,2,4) by (subst drop_kids_other) (auto simp: restrict_map_def)
  qed (use kid.prems in \<open>auto simp: drop_kids_alive restrict_map_def\<close>)
  also have "drop_kids p cs (?g |` (- set ys)) = drop_kids p (c # cs) (g |` (- set (xs @ ys)))"
    using kid.prems(4) by (simp add: drop_kids_restrict drop_kids_append Int_commute)
  finally show ?case by (simp add: gc w)
qed


section \<open>Subtrees of a consistent heap\<close>

lemma subtree_self [simp]: "a \<in> subtree h a"
  by (simp add: subtree_def)

lemma subtree_unfold:
  "h a = Some ob \<Longrightarrow> subtree h a = insert a (\<Union>c\<in>set (kids ob). subtree h c)"
  unfolding subtree_def by (auto simp: kid_rel_def elim: converse_rtranclE intro: converse_rtrancl_into_rtrancl)

lemma subtree_alive: "heap_ok h \<Longrightarrow> a \<in> dom h \<Longrightarrow> subtree h a \<subseteq> dom h"
  unfolding subtree_def by (auto elim: rtranclE dest: kid_alive)

lemma parent_not_below:
  assumes "heap_ok h" "(p, c) \<in> kid_rel h"
  shows "p \<notin> subtree h c"
proof
  assume "p \<in> subtree h c"
  then have "(p, p) \<in> (kid_rel h)\<^sup>+" using assms(2) by (auto simp: subtree_def)
  then show False using heap_okD(3)[OF assms(1)] by (simp add: acyclic_def)
qed

lemma siblings_apart:
  assumes ok: "heap_ok h" and c: "(p, c) \<in> kid_rel h" and d: "(p, d) \<in> kid_rel h" and ne: "c \<noteq> d"
  shows "subtree h c \<inter> subtree h d = {}"
proof (rule ccontr)
  have below: "False" if "(p, x) \<in> kid_rel h" "(p, y) \<in> kid_rel h" "(x, y) \<in> (kid_rel h)\<^sup>*" "x \<noteq> y" for x y
  proof -
    from that(3,4) obtain z where z: "(x, z) \<in> (kid_rel h)\<^sup>*" "(z, y) \<in> kid_rel h" by (auto elim: rtranclE)
    then have "z = p" using kid_single_parent[OF ok] that(2) by (auto simp: single_valued_def)
    then show False using z(1) parent_not_below[OF ok that(1)] by (simp add: subtree_def)
  qed
  assume "\<not> ?thesis"
  then obtain x where "(c, x) \<in> (kid_rel h)\<^sup>*" "(d, x) \<in> (kid_rel h)\<^sup>*" by (auto simp: subtree_def)
  then have "(x, c) \<in> ((kid_rel h)\<inverse>)\<^sup>*" "(x, d) \<in> ((kid_rel h)\<inverse>)\<^sup>*"
    by (simp_all add: rtrancl_converse)
  from single_valued_confluent[OF kid_single_parent[OF ok] this]
  have "(c, d) \<in> (kid_rel h)\<^sup>* \<or> (d, c) \<in> (kid_rel h)\<^sup>*"
    by (auto simp: rtrancl_converse)
  then show False using below[OF c d] below[OF d c] ne by blast
qed

lemma listings_exist:
  assumes ok: "heap_ok h"
    and "\<And>c. c \<in> set cs \<Longrightarrow> (p, c) \<in> kid_rel h \<and> (\<exists>xs. listing h c xs \<and> distinct xs \<and> set xs = subtree h c)"
    and "distinct cs"
  shows "\<exists>ys. listings h p cs ys \<and> distinct ys \<and> set ys = (\<Union>c\<in>set cs. subtree h c)"
  using assms(2,3)
proof (induction cs)
  case Nil
  then show ?case using no_kid by fastforce
next
  case (Cons c cs)
  from Cons obtain ys where ys: "listings h p cs ys" "distinct ys" "set ys = (\<Union>d\<in>set cs. subtree h d)"
    by fastforce
  from Cons.prems(1)[of c] obtain xs where c: "(p, c) \<in> kid_rel h"
    and xs: "listing h c xs" "distinct xs" "set xs = subtree h c" by auto
  then obtain co where co: "h c = Some co" "wo_parent co = Some p"
    using heap_okD(2)[OF ok] by (auto simp: parent_rel_def)
  have "subtree h c \<inter> subtree h d = {}" if "d \<in> set cs" for d
    using siblings_apart[OF ok c] Cons.prems that by auto
  then have "distinct (xs @ ys)" using xs(2,3) ys(2,3) by auto
  moreover have "listings h p (c # cs) (xs @ ys)" by (rule kid[OF co xs(1) ys(1)])
  ultimately show ?case using xs(3) ys(3) by (intro exI[of _ "xs @ ys"]) simp
qed

lemma listing_exists:
  assumes ok: "heap_ok h"
  shows "a \<in> dom h \<Longrightarrow> \<exists>xs. listing h a xs \<and> distinct xs \<and> set xs = subtree h a"
proof (induction a rule: wf_induct_rule[OF kid_wf(1)[OF ok]])
  case (1 a)
  then obtain ob where ob: "h a = Some ob" by auto
  have k: "(a, c) \<in> kid_rel h" if "c \<in> set (kids ob)" for c using that ob by (auto simp: kid_rel_def)
  have "\<exists>ys. listings h a (kids ob) ys \<and> distinct ys \<and> set ys = (\<Union>c\<in>set (kids ob). subtree h c)"
    using 1(1) k kid_alive[OF ok] heap_okD(6)[OF ok ob] by (intro listings_exist[OF ok]) auto
  then obtain ys where ys: "listings h a (kids ob) ys" "distinct ys" "set ys = (\<Union>c\<in>set (kids ob). subtree h c)"
    by blast
  moreover have "a \<notin> set ys" using parent_not_below[OF ok] k ys(3) by auto
  ultimately show ?case
    using listing_listings.widget[of h a ob, OF ob ys(1)] subtree_unfold[of h a ob, OF ob] by (intro exI[of _ "a # ys"]) simp
qed

lemma removeAll_manager: "a \<notin> set (cm_children m) \<Longrightarrow> cm_remove a m = m"
  by (simp add: cm_remove_def)

lemma drop_from_parent_pruned:
  assumes ok: "heap_ok h" and ob: "h a = Some ob"
  shows "drop_from_parent (wo_parent ob) a (h |` (- subtree h a)) = pruned a h"
proof
  fix b
  have par: "(p, a) \<in> kid_rel h \<longleftrightarrow> wo_parent ob = Some p" for p
    using heap_okD(2)[OF ok] ob by (auto simp: parent_rel_def)
  show "drop_from_parent (wo_parent ob) a (h |` (- subtree h a)) b = pruned a h b"
  proof (cases "wo_parent ob = Some b")
    case True
    then obtain po where po: "h b = Some po" using par kid_alive[OF ok] by blast
    moreover have "b \<notin> subtree h a" using True par parent_not_below[OF ok] by blast
    ultimately show ?thesis
      using True heap_okD(5)[OF ok po] by (simp add: drop_from_parent_def drop_kids_def pruned_def)
  next
    case False
    have "a \<notin> set (kids bo)" if "h b = Some bo" for bo
      using False par that by (auto simp: kid_rel_def)
    then have "map_option (\<lambda>bo. bo\<lparr>wo_manager := cm_remove a (wo_manager bo)\<rparr>) (h b) = h b"
      by (cases "h b") (simp_all add: removeAll_manager)
    then show ?thesis
      using False by (auto simp: drop_from_parent_def drop_kids_other pruned_def split: option.split)
  qed
qed

lemma delete_widget_pruned:
  assumes ok: "heap_ok h" and a: "a \<in> dom h" and n: "card (dom h) \<le> n"
  shows "delete_widget n a h = Some (Inr (pruned a h))"
proof -
  obtain xs where xs: "listing h a xs" "distinct xs" "set xs = subtree h a"
    using listing_exists[OF ok a] by blast
  obtain ob where ob: "h a = Some ob" using a by auto
  have "length xs \<le> n"
    using distinct_card[OF xs(2)] card_mono[OF heap_okD(1)[OF ok] subtree_alive[OF ok a]] n xs(3) by simp
  moreover have "p \<notin> set xs \<and> h p \<noteq> None" if "wo_parent (the (h a)) = Some p" for p
  proof -
    have "(p, a) \<in> kid_rel h" using that ob heap_okD(2)[OF ok] by (auto simp: parent_rel_def)
    then show ?thesis using kid_alive[OF ok] parent_not_below[OF ok] xs(3) by blast
  qed
  ultimately have "delete_widget n a h = Some (Inr (drop_from_parent (wo_parent (the (h a))) a (h |` (- set xs))))"
    by (intro delete_listing(1)[OF xs(1,2)]) auto
  then show ?thesis using ob drop_from_parent_pruned[OF ok ob] xs(3) by simp
qed


section \<open>Operations keep the heap consistent\<close>

lemma subtree_closed: "p \<in> subtree h a \<Longrightarrow> (p, c) \<in> kid_rel h \<Longrightarrow> c \<in> subtree h a"
  by (auto simp: subtree_def)

lemma subtree_parent:
  assumes "heap_ok h" "c \<in> subtree h a" "c \<noteq> a" "(p, c) \<in> kid_rel h"
  shows "p \<in> subtree h a"
proof -
  from assms(2,3) obtain q where q: "(a, q) \<in> (kid_rel h)\<^sup>*" "(q, c) \<in> kid_rel h"
    by (auto simp: subtree_def elim: rtranclE)
  then have "q = p" using kid_single_parent[OF assms(1)] assms(4) by (auto simp: single_valued_def)
  then show ?thesis using q(1) by (simp add: subtree_def)
qed

lemma pruned_ok:
  assumes ok: "heap_ok h"
  shows "heap_ok (pruned a h)"
proof -
  have kid: "kid_rel (pruned a h) = {(p, c) \<in> kid_rel h. p \<notin> subtree h a \<and> c \<noteq> a}"
    by (auto simp: kid_rel_def pruned_def cm_remove_def split: if_splits)
  have par: "parent_rel (pruned a h) = {(p, c) \<in> parent_rel h. c \<notin> subtree h a}"
    by (auto simp: parent_rel_def pruned_def split: if_splits)
  have "kid_rel (pruned a h) = parent_rel (pruned a h)"
    unfolding kid par heap_okD(2)[OF ok, symmetric]
    using subtree_closed[of _ h a] subtree_parent[OF ok, of _ a] subtree_self[of a h] by blast
  moreover have "acyclic (kid_rel (pruned a h))"
    using heap_okD(3)[OF ok] by (rule acyclic_subset) (auto simp: kid)
  moreover have "finite (dom (pruned a h))"
    using heap_okD(1)[OF ok] by (rule finite_subset[rotated]) (auto simp: pruned_def split: if_splits)
  moreover have "manager_ok (wo_manager bo) \<and> \<not> wo_beingDestroyed bo" if "pruned a h b = Some bo" for b bo
    using that heap_okD(4,5)[OF ok] removeChild_manager_ok[where b = False and c = a]
    by (auto simp: pruned_def removeChild_def split: if_splits)
  ultimately show ?thesis by (simp add: heap_ok_def)
qed

lemma new_YWidget_ok:
  assumes ok: "heap_ok h" and a: "a \<notin> dom h" and new: "new_YWidget a kind mc parent h = Inr h'"
  shows "heap_ok h'"
proof (cases parent)
  case None
  have h': "h' = h(a \<mapsto> new_wobj kind mc None)" using new None by (simp add: new_YWidget_def)
  have "kid_rel h' = kid_rel h" "parent_rel h' = parent_rel h"
    using a by (auto simp: h' kid_rel_def parent_rel_def new_wobj_def split: if_splits)
  then show ?thesis
    using ok unfolding heap_ok_def by (auto simp: h' new_wobj_def manager_ok_empty)
next
  case (Some p)
  obtain po m where po: "h p = Some po" and m: "addChild a (wo_manager po) = Inr m"
    and h': "h' = h(a \<mapsto> new_wobj kind mc parent, p \<mapsto> po\<lparr>wo_manager := m\<rparr>)"
    using new Some by (auto simp: new_YWidget_def bind_result_Inr_iff split: option.splits)
  have ap: "a \<noteq> p" using a po by auto
  have m': "cm_children m = kids po @ [a]"
    using m cm.add_appends by (auto simp: addChild_def split: if_splits)
  have kid: "kid_rel h' = insert (p, a) (kid_rel h)"
    using a po ap by (auto simp: h' kid_rel_def new_wobj_def m' split: if_splits)
  have par: "parent_rel h' = insert (p, a) (parent_rel h)"
    using a po ap Some by (auto simp: h' parent_rel_def new_wobj_def split: if_splits)
  have "(a, p) \<notin> (kid_rel h)\<^sup>*"
  proof
    assume "(a, p) \<in> (kid_rel h)\<^sup>*"
    then show False using ap a by (cases rule: converse_rtranclE) (auto simp: kid_rel_def)
  qed
  then have "acyclic (kid_rel h')" using heap_okD(3)[OF ok] by (simp add: kid acyclic_insert)
  moreover have "kid_rel h' = parent_rel h'" using heap_okD(2)[OF ok] by (simp add: kid par)
  moreover have "manager_ok (wo_manager bo) \<and> \<not> wo_beingDestroyed bo" if "h' b = Some bo" for b bo
    using that heap_okD(4,5)[OF ok] addChild_manager_ok[OF heap_okD(4)[OF ok po] m] po ap
    by (auto simp: h' new_wobj_def manager_ok_empty split: if_splits)
  ultimately show ?thesis using heap_okD(1)[OF ok] by (simp add: heap_ok_def h')
qed

lemma setHelpText_ok: "heap_ok h \<Longrightarrow> setHelpText a txt h = Inr h' \<Longrightarrow> heap_ok h'"
proof -
  assume ok: "heap_ok h" and "setHelpText a txt h = Inr h'"
  then obtain ob where ob: "h a = Some ob" "h' = h(a \<mapsto> ob\<lparr>wo_helpText := txt\<rparr>)"
    by (auto simp: setHelpText_def split: option.splits)
  have "kid_rel h' = kid_rel h" "parent_rel h' = parent_rel h"
    using ob by (auto simp: kid_rel_def parent_rel_def split: if_splits)
  then show "heap_ok h'" using ok ob unfolding heap_ok_def by auto
qed

text \<open>Clearing a container.\<close>

lemma manager_ok_cleared: "manager_ok m \<Longrightarrow> manager_ok (cm_clear m)"
  by (auto simp: manager_ok_def cm_clear_def within_capacity_def split: option.splits)

definition emptied :: "nat \<Rightarrow> wheap \<Rightarrow> wheap" where
  "emptied a h = (\<lambda>b. if b = a then map_option (\<lambda>ob. ob\<lparr>wo_manager := cm_clear (wo_manager ob)\<rparr>) (h a)
     else if b \<in> subtree h a then None else h b)"

lemma emptied_ok:
  assumes ok: "heap_ok h" and a: "a \<in> dom h"
  shows "heap_ok (emptied a h)"
proof -
  have kid: "kid_rel (emptied a h) = {(p, c) \<in> kid_rel h. p \<notin> subtree h a}"
    by (auto simp: kid_rel_def emptied_def cm_clear_def split: if_splits)
  have par: "parent_rel (emptied a h) = {(p, c) \<in> parent_rel h. c \<notin> subtree h a \<or> c = a}"
    using a by (auto simp: parent_rel_def emptied_def split: if_splits)
  have "kid_rel (emptied a h) = parent_rel (emptied a h)"
    unfolding kid par heap_okD(2)[OF ok, symmetric]
    using subtree_closed[of _ h a] subtree_parent[OF ok, of _ a] parent_not_below[OF ok, of _ a] by blast
  moreover have "acyclic (kid_rel (emptied a h))"
    using heap_okD(3)[OF ok] by (rule acyclic_subset) (auto simp: kid)
  moreover have "finite (dom (emptied a h))"
    using heap_okD(1)[OF ok] by (rule finite_subset[rotated]) (auto simp: emptied_def split: if_splits)
  moreover have "manager_ok (wo_manager bo) \<and> \<not> wo_beingDestroyed bo" if "emptied a h b = Some bo" for b bo
    using that heap_okD(5)[OF ok]
      manager_ok_cleared[OF heap_okD(4)[OF ok]] heap_okD(4)[OF ok]
    by (auto simp: emptied_def split: if_splits)
  ultimately show ?thesis by (simp add: heap_ok_def)
qed

lemma clear_fold_remove: "cm_clear (fold cm_remove cs m) = cm_clear m"
  by (induction cs arbitrary: m) (simp_all add: cm_remove_def cm_clear_def)

lemma deleteChildren_emptied:
  assumes ok: "heap_ok h" and a: "a \<in> dom h" and n: "card (dom h) \<le> n"
  shows "deleteChildren n a h = Some (Inr (emptied a h))"
proof -
  obtain ob where ob: "h a = Some ob" using a by auto
  obtain xs where xs: "listing h a xs" "distinct xs" "set xs = subtree h a"
    using listing_exists[OF ok a] by blast
  from xs(1) ob obtain ys where ys: "xs = a # ys" "listings h a (kids ob) ys" by (auto elim: listingE)
  have "length xs \<le> n"
    using distinct_card[OF xs(2)] card_mono[OF heap_okD(1)[OF ok] subtree_alive[OF ok a]] n xs(3) by simp
  then have d: "delete_children n (kids ob) h = Some (Inr (drop_kids a (kids ob) (h |` (- set ys))))"
    using xs(2) a ys by (intro delete_listing(2)[OF ys(2)]) auto
  have k: "drop_kids a (kids ob) (h |` (- set ys)) =
      (h |` (- set ys))(a \<mapsto> ob\<lparr>wo_manager := fold cm_remove (kids ob) (wo_manager ob)\<rparr>)"
    using ob xs(2) ys heap_okD(5)[OF ok ob] by (simp add: drop_kids_def)
  have "b \<in> set ys \<longleftrightarrow> b \<in> subtree h a \<and> b \<noteq> a" for b using xs(2,3) ys(1) by auto
  then have "(h |` (- set ys))(a \<mapsto> ob\<lparr>wo_manager := cm_clear (wo_manager ob)\<rparr>) = emptied a h"
    using ob by (auto simp: emptied_def fun_eq_iff restrict_map_def)
  then show ?thesis
    by (simp add: deleteChildren_def ob d k clear_fold_remove)
qed


section \<open>Depth\<close>

text \<open>A depth that is enough stays enough and gives the same result.\<close>

lemma delete_depth:
  "delete_widget n a h = Some r \<Longrightarrow> n \<le> m \<Longrightarrow> delete_widget m a h = Some r"
  "delete_children n cs h = Some r \<Longrightarrow> n \<le> m \<Longrightarrow> delete_children m cs h = Some r"
proof (induction n a h and n cs h arbitrary: m r and m r rule: delete_widget_delete_children.induct)
  case (2 n a h)
  from "2.prems"(2) obtain k where m: "m = Suc k" "n \<le> k" by (cases m) auto
  show ?case
  proof (cases "h a")
    case (Some ob)
    then obtain r1 where "delete_children n (kids ob) (h(a \<mapsto> ob\<lparr>wo_beingDestroyed := True\<rparr>)) = Some r1"
      using "2.prems"(1) by (auto split: option.splits)
    with "2.IH"[OF Some this m(2)] show ?thesis using "2.prems"(1) Some m(1) by (simp del: fun_upd_apply)
  qed (use "2.prems" m in simp)
next
  case (4 n c cs h)
  show ?case
  proof (cases "h c")
    case (Some co)
    then obtain r1 where r1: "delete_widget n c h = Some r1"
      using "4.prems"(1) by (auto split: option.splits)
    note w = "4.IH"(1)[OF Some r1 "4.prems"(2)]
    show ?thesis
    proof (cases r1)
      case (Inl e)
      then have "r = Inl e" using "4.prems"(1) Some r1 by simp
      then show ?thesis using Some w Inl by simp
    next
      case (Inr h1)
      have "delete_children n cs h1 = Some r" using "4.prems"(1) Some r1 Inr by simp
      from "4.IH"(2)[OF Some r1 Inr this "4.prems"(2)] show ?thesis using Some w Inr by simp
    qed
  qed (use "4.prems" in simp)
qed simp_all

section \<open>Histories\<close>

text \<open>Every heap a program can reach by constructing, changing and destroying widgets.\<close>

inductive life :: "wheap \<Rightarrow> bool" where
  start: "life Map.empty"
| create: "life h \<Longrightarrow> a \<notin> dom h \<Longrightarrow> new_YWidget a kind mc parent h = Inr h' \<Longrightarrow> life h'"
| help_text: "life h \<Longrightarrow> setHelpText a txt h = Inr h' \<Longrightarrow> life h'"
| destroy: "life h \<Longrightarrow> delete_widget n a h = Some (Inr h') \<Longrightarrow> life h'"
| clear: "life h \<Longrightarrow> deleteChildren n a h = Some (Inr h') \<Longrightarrow> life h'"

lemma delete_widget_result:
  assumes ok: "heap_ok h" and d: "delete_widget n a h = Some (Inr h')"
  shows "a \<in> dom h \<and> h' = pruned a h"
proof -
  have a: "a \<in> dom h" using d by (cases n) (auto split: option.splits)
  have "delete_widget (max n (card (dom h))) a h = Some (Inr h')" by (rule delete_depth(1)[OF d]) simp
  then show ?thesis using delete_widget_pruned[OF ok a, of "max n (card (dom h))"] a by simp
qed

lemma deleteChildren_result:
  assumes ok: "heap_ok h" and d: "deleteChildren n a h = Some (Inr h')"
  shows "a \<in> dom h \<and> h' = emptied a h"
proof -
  obtain ob where ob: "h a = Some ob" using d by (auto simp: deleteChildren_def split: option.splits)
  obtain h1 where h1: "delete_children n (kids ob) h = Some (Inr h1)"
    using d ob by (auto simp: deleteChildren_def split: option.splits sum.splits)
  then have "deleteChildren (max n (card (dom h))) a h = deleteChildren n a h"
    using delete_depth(2)[OF h1, of "max n (card (dom h))"] by (simp add: deleteChildren_def ob)
  then show ?thesis using deleteChildren_emptied[OF ok, of a "max n (card (dom h))"] ob d by auto
qed

lemma life_heap_ok: "life h \<Longrightarrow> heap_ok h"
proof (induction rule: life.induct)
  case start
  then show ?case by (simp add: heap_ok_def kid_rel_def parent_rel_def acyclic_def)
next
  case (create h a kind mc parent h')
  then show ?case using new_YWidget_ok by blast
next
  case (help_text h a t h')
  then show ?case using setHelpText_ok by blast
next
  case (destroy h n a h')
  then show ?case using delete_widget_result pruned_ok by metis
next
  case (clear h n a h')
  then show ?case using deleteChildren_result emptied_ok by metis
qed

section \<open>Ancestors\<close>

text \<open>The way from a widget up to the root.\<close>

inductive up_path :: "wheap \<Rightarrow> nat option \<Rightarrow> nat list \<Rightarrow> bool" for h :: wheap where
  root: "up_path h None []"
| up: "h a = Some ob \<Longrightarrow> up_path h (wo_parent ob) as \<Longrightarrow> up_path h (Some a) (a # as)"

inductive_simps up_path_None: "up_path h None as"
inductive_simps up_path_Some: "up_path h (Some a) as"

definition is_dialog :: "wheap \<Rightarrow> nat \<Rightarrow> bool" where
  "is_dialog h a \<longleftrightarrow> (\<exists>ob. h a = Some ob \<and> wo_kind ob = KDialog)"

definition help_texts :: "wheap \<Rightarrow> nat list \<Rightarrow> string list" where
  "help_texts h as = filter (\<lambda>t. t \<noteq> []) (map (\<lambda>a. wo_helpText (the (h a))) as)"

lemma is_dialog_iff: "h a = Some ob \<Longrightarrow> is_dialog h a \<longleftrightarrow> wo_kind ob = KDialog"
  by (simp add: is_dialog_def)

lemma up_path_exists:
  assumes ok: "heap_ok h"
  shows "a \<in> dom h \<Longrightarrow> \<exists>as. up_path h (Some a) as"
proof (induction a rule: wf_induct_rule[OF kid_wf(2)[OF ok]])
  case (1 a)
  then obtain ob where ob: "h a = Some ob" by auto
  show ?case
  proof (cases "wo_parent ob")
    case None
    then show ?thesis using up[of h a ob, OF ob, of "[]"] root by auto
  next
    case (Some p)
    then have "(p, a) \<in> kid_rel h" using ob heap_okD(2)[OF ok] by (auto simp: parent_rel_def)
    then show ?thesis using 1(1)[of p] kid_alive[OF ok] up[of h a ob, OF ob] Some by auto
  qed
qed

lemma findDialog_up: "up_path h w as \<Longrightarrow> findDialog h w = Some (Inr (find (is_dialog h) as))"
  by (induction rule: up_path.induct) (subst findDialog.simps, simp add: is_dialog_iff)+

lemma find_helpText_up:
  "up_path h w as \<Longrightarrow> find_helpText h w t = Some (Inr (last (t # help_texts h as)))"
proof (induction arbitrary: t rule: up_path.induct)
  case root
  then show ?case by (subst find_helpText.simps) (simp add: help_texts_def)
next
  case (up a ob as)
  then show ?case by (subst find_helpText.simps) (simp add: help_texts_def)
qed


section \<open>Properties\<close>

text \<open>Building a heap from a list of new widgets with their help texts.\<close>

fun build :: "(nat \<times> widget_kind \<times> manager_class \<times> nat option \<times> string) list \<Rightarrow> wheap \<Rightarrow> wheap result" where
  "build [] h = return h"
| "build ((a, kind, mc, parent, t) # xs) h =
     (if h a \<noteq> None then dangling
      else bind_result (new_YWidget a kind mc parent h) (\<lambda>h1. bind_result (setHelpText a t h1) (build xs)))"

lemma build_life: "life h \<Longrightarrow> build xs h = Inr h' \<Longrightarrow> life h'"
proof (induction xs h rule: build.induct)
  case (2 a kind mc parent t xs h)
  then obtain h1 h2 where "new_YWidget a kind mc parent h = Inr h1" "setHelpText a t h1 = Inr h2"
    "build xs h2 = Inr h'" and a: "a \<notin> dom h"
    by (auto simp: bind_result_Inr_iff split: if_splits)
  then show ?case using "2.IH"[of h1 h2] "2.prems"(1) life.create[OF _ a] life.help_text by blast
qed auto

lemma new_YWidget_dom: "new_YWidget a kind mc parent h = Inr h' \<Longrightarrow> dom h' = insert a (dom h)"
  by (auto simp: new_YWidget_def bind_result_Inr_iff split: option.splits if_splits)

lemma setHelpText_dom: "setHelpText a t h = Inr h' \<Longrightarrow> dom h' = dom h"
  by (auto simp: setHelpText_def split: option.splits if_splits)

lemma build_dom: "build xs h = Inr h' \<Longrightarrow> dom h' = dom h \<union> fst ` set xs"
proof (induction xs h rule: build.induct)
  case (2 a kind mc parent t xs h)
  then obtain h1 h2 where "new_YWidget a kind mc parent h = Inr h1" "setHelpText a t h1 = Inr h2"
    "build xs h2 = Inr h'" and a: "a \<notin> dom h"
    by (auto simp: bind_result_Inr_iff split: if_splits)
  with "2.IH"[of h1 h2] a show ?case
    by (simp add: new_YWidget_dom setHelpText_dom) auto
qed auto

definition sample_widgets :: "(nat \<times> widget_kind \<times> manager_class \<times> nat option \<times> string) list" where
  "sample_widgets = [(0, KDialog, YSingleChildManager, None, ''all''), (1, KOther, YChildrenManager, Some 0, []),
     (2, KPushButton True False, YChildrenRejector, Some 1, ''near''), (3, KOther, YChildrenRejector, Some 1, [])]"

definition sample_heap :: wheap where
  "sample_heap = (case build sample_widgets Map.empty of Inl e \<Rightarrow> Map.empty | Inr h \<Rightarrow> h)"

lemma sample_build: "build sample_widgets Map.empty = Inr sample_heap"
proof -
  have "case build sample_widgets Map.empty of Inl e \<Rightarrow> False | Inr h \<Rightarrow> True" by code_simp
  then show ?thesis by (auto simp: sample_heap_def split: sum.splits)
qed

lemma sample_life: "life sample_heap"
  by (rule build_life[OF life.start sample_build])

lemma sample_dom: "dom sample_heap = {0, 1, 2, 3}"
  using build_dom[OF sample_build] by (auto simp: sample_widgets_def)

lemma sample_points:
  "\<exists>ob. sample_heap 2 = Some ob \<and> wo_parent ob = Some 1 \<and> wo_helpText ob = ''near'' \<and> wo_kind ob \<noteq> KDialog"
  "\<exists>ob. sample_heap 1 = Some ob \<and> wo_parent ob = Some 0 \<and> wo_helpText ob = [] \<and> wo_kind ob \<noteq> KDialog"
  "\<exists>ob. sample_heap 0 = Some ob \<and> wo_parent ob = None \<and> wo_helpText ob = ''all'' \<and> wo_kind ob = KDialog"
proof -
  have "case sample_heap 2 of None \<Rightarrow> False | Some ob \<Rightarrow>
      wo_parent ob = Some 1 \<and> wo_helpText ob = ''near'' \<and> wo_kind ob \<noteq> KDialog"
    "case sample_heap 1 of None \<Rightarrow> False | Some ob \<Rightarrow>
      wo_parent ob = Some 0 \<and> wo_helpText ob = [] \<and> wo_kind ob \<noteq> KDialog"
    "case sample_heap 0 of None \<Rightarrow> False | Some ob \<Rightarrow>
      wo_parent ob = None \<and> wo_helpText ob = ''all'' \<and> wo_kind ob = KDialog"
    by code_simp+
  then show
    "\<exists>ob. sample_heap 2 = Some ob \<and> wo_parent ob = Some 1 \<and> wo_helpText ob = ''near'' \<and> wo_kind ob \<noteq> KDialog"
    "\<exists>ob. sample_heap 1 = Some ob \<and> wo_parent ob = Some 0 \<and> wo_helpText ob = [] \<and> wo_kind ob \<noteq> KDialog"
    "\<exists>ob. sample_heap 0 = Some ob \<and> wo_parent ob = None \<and> wo_helpText ob = ''all'' \<and> wo_kind ob = KDialog"
    by (auto split: option.splits)
qed

text \<open>
  C7: Whatever widgets a program constructs, clears and destroys, the heap stays consistent: every
  child a widget lists is alive and names the widget as its parent, every living widget with a parent
  is listed by it, no widget is its own ancestor, the children are distinct and within the capacity
  of the children manager, and no half-destroyed widget is left.
\<close>

theorem heap_consistent:
  "life h \<Longrightarrow> heap_ok h"
  by (rule life_heap_ok)

theorem heap_consistent_witness: "heap_ok sample_heap"
  by (rule heap_consistent[OF sample_life])

text \<open>
  C6: Destroying a living widget ends normally (no pointer to a freed widget is used, no widget is
  freed twice) with a nesting of at most the number of living widgets; it frees exactly the subtree
  of the widget and takes the widget out of its parent, and nothing else changes.
\<close>

theorem delete_widget_exact:
  assumes "life h" "a \<in> dom h" "card (dom h) \<le> n"
  shows "\<exists>h'. delete_widget n a h = Some (Inr h') \<and> dom h' = dom h - subtree h a
    \<and> (\<forall>b ob. h b = Some ob \<and> b \<notin> subtree h a \<longrightarrow>
          h' b = Some (ob\<lparr>wo_manager := cm_remove a (wo_manager ob)\<rparr>))"
  using delete_widget_pruned[OF life_heap_ok[OF assms(1)] assms(2,3)]
  by (intro exI[of _ "pruned a h"]) (auto simp: pruned_def split: if_splits)

theorem delete_widget_exact_witness:
  "\<exists>h'. delete_widget 4 1 sample_heap = Some (Inr h') \<and> dom h' = dom sample_heap - subtree sample_heap 1"
  using delete_widget_exact[OF sample_life, of 1 4] by (auto simp: sample_dom)

text \<open>
  The searches that climb from a living widget end. \<^verbatim>\<open>findDialog\<close> returns the nearest dialog among
  the widget and its ancestors, or null. \<^verbatim>\<open>showHelpText\<close> shows the help text of the outermost widget
  on the way that has one, not that of the nearest as documented, and reports whether there was any.
\<close>

theorem ancestor_searches:
  assumes "life h" "a \<in> dom h"
  shows "\<exists>as. up_path h (Some a) as \<and> findDialog h (Some a) = Some (Inr (find (is_dialog h) as))
    \<and> showHelpText h a = Some (Inr (help_texts h as \<noteq> [],
         if help_texts h as = [] then [] else last (help_texts h as)))"
proof -
  obtain as where as: "up_path h (Some a) as"
    using up_path_exists[OF life_heap_ok[OF assms(1)] assms(2)] by blast
  have "last ([] # help_texts h as) = [] \<longleftrightarrow> help_texts h as = []"
    using last_in_set[of "help_texts h as"] by (auto simp: help_texts_def)
  then show ?thesis
    using as findDialog_up[OF as] find_helpText_up[OF as, of "[]"]
    by (intro exI[of _ as]) (auto simp: showHelpText_def)
qed

theorem ancestor_searches_witness:
  "showHelpText sample_heap 2 = Some (Inr (True, ''all'')) \<and> wo_helpText (the (sample_heap 2)) = ''near''
   \<and> findDialog sample_heap (Some 2) = Some (Inr (Some 0))"
proof -
  obtain as where as: "up_path sample_heap (Some 2) as"
    "findDialog sample_heap (Some 2) = Some (Inr (find (is_dialog sample_heap) as))"
    "showHelpText sample_heap 2 = Some (Inr (help_texts sample_heap as \<noteq> [],
       if help_texts sample_heap as = [] then [] else last (help_texts sample_heap as)))"
    using ancestor_searches[OF sample_life, of 2] by (auto simp: sample_dom)
  obtain ob2 ob1 ob0 where obs: "sample_heap 2 = Some ob2" "wo_parent ob2 = Some 1" "wo_helpText ob2 = ''near''"
      "wo_kind ob2 \<noteq> KDialog" "sample_heap 1 = Some ob1" "wo_parent ob1 = Some 0" "wo_helpText ob1 = []"
      "wo_kind ob1 \<noteq> KDialog" "sample_heap 0 = Some ob0" "wo_parent ob0 = None" "wo_helpText ob0 = ''all''"
      "wo_kind ob0 = KDialog"
    using sample_points by blast
  have path: "as = [2, 1, 0]"
    using as(1) by (simp add: up_path_None up_path_Some obs del: One_nat_def)
  have "help_texts sample_heap as = [''near'', ''all'']"
    by (simp add: path help_texts_def obs del: One_nat_def)
  moreover have "find (is_dialog sample_heap) as = Some 0"
    by (simp add: path is_dialog_def obs del: One_nat_def)
  ultimately show ?thesis using as(2,3) by (simp add: obs)
qed

end
