(* ===== verification/Yui_Event.thy ===== *)
theory Yui_Event
  imports Yui_Prelude
begin

text \<open>
  Events (\<^verbatim>\<open>YEvent.h\<close>, \<^verbatim>\<open>YEvent.cc\<close>) and the event handler that keeps the latest one
  (\<^verbatim>\<open>YSimpleEventHandler.cc\<close>). Events are heap objects; the handler owns the pending event until a
  client consumes it. The theory shows that no history of calls leaks an event or frees one twice.
\<close>

section \<open>Events\<close>

datatype EventType =
    NoEvent | UnknownEvent | WidgetEvent | MenuEvent | KeyEvent | CancelEvent | TimeoutEvent
  | DebugEvent | SpecialKeyEvent | InvalidEvent

datatype EventReason = UnknownReason | Activated | SelectionChanged | ValueChanged | ContextMenuActivated

text \<open>What the subclasses add: the widget and the reason, the key, the menu item or an ID.\<close>

datatype event_class =
    PlainEvent
  | YWidgetEvent "nat option" EventReason
  | YKeyEvent string "nat option"
  | YMenuEvent "nat option" string
  | YSpecialKeyEvent string

record YEvent =
  ev_type :: EventType
  ev_serial :: nat
  ev_dialog :: "nat option"
  ev_class :: event_class

record eheap =
  eh_events :: "nat \<rightharpoonup> YEvent"
  eh_nextSerial :: nat

text \<open>The virtual function \<^verbatim>\<open>widget()\<close> of the base class returns null.\<close>

fun event_widget :: "YEvent \<Rightarrow> nat option" where
  "event_widget e = (case ev_class e of YWidgetEvent w _ \<Rightarrow> w | _ \<Rightarrow> None)"

definition isValidEvent :: "YEvent \<Rightarrow> bool" where
  "isValidEvent e \<longleftrightarrow> ev_type e \<noteq> InvalidEvent"

text \<open>
  The constructors: \<open>dialog\<close> is the current dialog, or that of the widget; the serial number is an
  unsigned long.
\<close>

definition new_YEvent :: "nat \<Rightarrow> EventType \<Rightarrow> event_class \<Rightarrow> nat option \<Rightarrow> eheap \<Rightarrow> eheap" where
  "new_YEvent a ty cls dialog h =
     h\<lparr>eh_events := (eh_events h)(a \<mapsto> \<lparr>ev_type = ty, ev_serial = eh_nextSerial h, ev_dialog = dialog, ev_class = cls\<rparr>),
       eh_nextSerial := (eh_nextSerial h + 1) mod 2 ^ 64\<rparr>"

text \<open>
  Deleting an event, the common part of \<^verbatim>\<open>deleteEvent\<close> in \<^verbatim>\<open>YSimpleEventHandler\<close> and \<^verbatim>\<open>YDialog\<close>: an
  event marked invalid is not freed.
\<close>

definition free_event :: "nat \<Rightarrow> eheap \<Rightarrow> eheap result" where
  "free_event e h =
     (case eh_events h e of
        None \<Rightarrow> throw (undefined_behaviour ''dangling event'')
      | Some ev \<Rightarrow> if isValidEvent ev then return (h\<lparr>eh_events := (eh_events h)(e := None)\<rparr>) else return h)"

fun EventType_toString :: "EventType \<Rightarrow> string" where
  "EventType_toString NoEvent = ''NoEvent''"
| "EventType_toString UnknownEvent = ''UnknownEvent''"
| "EventType_toString WidgetEvent = ''WidgetEvent''"
| "EventType_toString MenuEvent = ''MenuEvent''"
| "EventType_toString KeyEvent = ''KeyEvent''"
| "EventType_toString CancelEvent = ''CancelEvent''"
| "EventType_toString TimeoutEvent = ''TimeoutEvent''"
| "EventType_toString DebugEvent = ''DebugEvent''"
| "EventType_toString SpecialKeyEvent = ''SpecialKeyEvent''"
| "EventType_toString InvalidEvent = ''InvalidEvent''"

fun EventReason_toString :: "EventReason \<Rightarrow> string" where
  "EventReason_toString UnknownReason = ''Unknown''"
| "EventReason_toString Activated = ''Activated''"
| "EventReason_toString SelectionChanged = ''SelectionChanged''"
| "EventReason_toString ValueChanged = ''ValueChanged''"
| "EventReason_toString ContextMenuActivated = ''ContextMenuActivated''"

text \<open>The names tell the values apart.\<close>

lemma toString_inj: "inj EventType_toString" "inj EventReason_toString"
proof -
  show "inj EventType_toString"
  proof (rule injI)
    fix x y assume "EventType_toString x = EventType_toString y"
    then show "x = y" by (cases x; cases y; simp)
  qed
  show "inj EventReason_toString"
  proof (rule injI)
    fix x y assume "EventReason_toString x = EventReason_toString y"
    then show "x = y" by (cases x; cases y; simp)
  qed
qed

section \<open>The contract of event memory\<close>

text \<open>The events that are allocated and can be freed.\<close>

definition live :: "eheap \<Rightarrow> nat set" where
  "live h = {e. \<exists>ev. eh_events h e = Some ev \<and> isValidEvent ev}"

text \<open>
  The handler and the dialogs rely on the same contract: freeing a live event succeeds and takes just
  this event away. An owner of at most one event can then drop it, and drop it for another one.
\<close>

locale event_memory =
  fixes free :: "nat \<Rightarrow> 'h \<Rightarrow> 'h result"
    and alive :: "'h \<Rightarrow> nat set"
  assumes free_succeeds: "e \<in> alive h \<Longrightarrow> \<exists>h'. free e h = Inr h'"
    and free_alive: "e \<in> alive h \<Longrightarrow> free e h = Inr h' \<Longrightarrow> alive h' = alive h - {e}"
begin

definition release :: "nat option \<Rightarrow> 'h \<Rightarrow> 'h result" where
  "release x h = (case x of None \<Rightarrow> Inr h | Some e \<Rightarrow> free e h)"

lemma release_ok:
  assumes "set_option x \<subseteq> alive h"
  obtains h' where "release x h = Inr h'" "alive h' = alive h - set_option x"
  using assms free_succeeds free_alive that by (cases x) (fastforce simp: release_def)+

lemma no_double_free: "e \<in> alive h \<Longrightarrow> free e h = Inr h' \<Longrightarrow> e \<notin> alive h'"
  by (simp add: free_alive)

end

lemma live_free:
  assumes "e \<in> live h"
  shows "free_event e h = Inr (h\<lparr>eh_events := (eh_events h)(e := None)\<rparr>)"
    "live (h\<lparr>eh_events := (eh_events h)(e := None)\<rparr>) = live h - {e}"
  using assms by (auto simp: live_def free_event_def split: if_splits)

interpretation ev: event_memory free_event live
  by unfold_locales (auto simp: live_free)

lemma live_new:
  "ty \<noteq> InvalidEvent \<Longrightarrow> live (new_YEvent a ty cls dialog h) = insert a (live h)"
  by (auto simp: live_def new_YEvent_def isValidEvent_def split: if_splits)

section \<open>The event handler\<close>

record YSimpleEventHandler =
  seh_pendingEvent :: "nat option"
  seh_eventsBlocked :: bool

definition new_YSimpleEventHandler :: YSimpleEventHandler where
  "new_YSimpleEventHandler = \<lparr>seh_pendingEvent = None, seh_eventsBlocked = False\<rparr>"

text \<open>The operations work on the handler and the memory of events.\<close>

type_synonym hstate = "YSimpleEventHandler \<times> eheap"

definition seh_deleteEvent :: "nat option \<Rightarrow> hstate \<Rightarrow> hstate result" where
  "seh_deleteEvent event s =
     (let h = fst s;
          h1 = (if event = seh_pendingEvent h then h\<lparr>seh_pendingEvent := None\<rparr> else h)
      in case event of
           None \<Rightarrow> return (h1, snd s)
         | Some e \<Rightarrow> bind_result (free_event e (snd s)) (\<lambda>m. return (h1, m)))"

definition seh_clear :: "hstate \<Rightarrow> hstate result" where
  "seh_clear s =
     (if seh_pendingEvent (fst s) \<noteq> None then seh_deleteEvent (seh_pendingEvent (fst s)) s else return s)"

definition consumePendingEvent :: "hstate \<Rightarrow> nat option \<times> hstate" where
  "consumePendingEvent s = (seh_pendingEvent (fst s), ((fst s)\<lparr>seh_pendingEvent := None\<rparr>, snd s))"

definition sendEvent :: "nat option \<Rightarrow> hstate \<Rightarrow> hstate result" where
  "sendEvent event s =
     (case event of
        None \<Rightarrow> return s
      | Some e \<Rightarrow>
          if seh_eventsBlocked (fst s) then seh_deleteEvent (Some e) s
          else
            bind_result
              (if seh_pendingEvent (fst s) \<noteq> None then seh_deleteEvent (seh_pendingEvent (fst s)) s else return s)
              (\<lambda>s1. return ((fst s1)\<lparr>seh_pendingEvent := Some e\<rparr>, snd s1)))"

text \<open>Reading the pending event; a null or dangling pointer cannot be cast.\<close>

definition pending_widget_event :: "hstate \<Rightarrow> YEvent option result" where
  "pending_widget_event s =
     (case seh_pendingEvent (fst s) of
        None \<Rightarrow> return None
      | Some e \<Rightarrow>
          (case eh_events (snd s) e of
             None \<Rightarrow> throw (undefined_behaviour ''dangling event'')
           | Some ev \<Rightarrow> return (case ev_class ev of YWidgetEvent _ _ \<Rightarrow> Some ev | _ \<Rightarrow> None)))"

definition eventPendingFor :: "nat \<Rightarrow> hstate \<Rightarrow> bool result" where
  "eventPendingFor widget s =
     bind_result (pending_widget_event s)
       (\<lambda>ev. return (case ev of None \<Rightarrow> False | Some e \<Rightarrow> event_widget e = Some widget))"

definition deletePendingEventsFor :: "nat \<Rightarrow> hstate \<Rightarrow> hstate result" where
  "deletePendingEventsFor widget s =
     bind_result (pending_widget_event s)
       (\<lambda>ev. case ev of
          None \<Rightarrow> return s
        | Some e \<Rightarrow> if event_widget e = Some widget \<and> isValidEvent e
                    then seh_deleteEvent (seh_pendingEvent (fst s)) s else return s)"

definition blockEvents :: "bool \<Rightarrow> hstate \<Rightarrow> hstate" where
  "blockEvents block s = ((fst s)\<lparr>seh_eventsBlocked := block\<rparr>, snd s)"

section \<open>Histories of the handler\<close>

text \<open>
  A history of calls: the toolkit creates an event at a free address and sends it, a client consumes
  the pending event and owns it from then on, deletes events it owns, and the other operations are
  called at any time. A call that runs into undefined behaviour would end the history in \<open>Inl\<close>.
\<close>

datatype handler_op =
    SendNew nat EventType event_class "nat option"
  | Consume
  | ClientDelete nat
  | Clear
  | DeletePendingFor nat
  | Block bool

record history =
  hs_state :: hstate
  hs_client :: "nat set"

fun handler_step :: "handler_op \<Rightarrow> history \<Rightarrow> history result" where
  "handler_step (SendNew a ty cls dialog) x =
     bind_result (sendEvent (Some a) (fst (hs_state x), new_YEvent a ty cls dialog (snd (hs_state x))))
       (\<lambda>s. return (x\<lparr>hs_state := s\<rparr>))"
| "handler_step Consume x =
     (let (e, s) = consumePendingEvent (hs_state x)
      in return (x\<lparr>hs_state := s, hs_client := hs_client x \<union> set_option e\<rparr>))"
| "handler_step (ClientDelete e) x =
     bind_result (free_event e (snd (hs_state x)))
       (\<lambda>m. return (x\<lparr>hs_state := (fst (hs_state x), m), hs_client := hs_client x - {e}\<rparr>))"
| "handler_step Clear x = bind_result (seh_clear (hs_state x)) (\<lambda>s. return (x\<lparr>hs_state := s\<rparr>))"
| "handler_step (DeletePendingFor w) x =
     bind_result (deletePendingEventsFor w (hs_state x)) (\<lambda>s. return (x\<lparr>hs_state := s\<rparr>))"
| "handler_step (Block b) x = return (x\<lparr>hs_state := blockEvents b (hs_state x)\<rparr>)"

text \<open>What callers must respect: new events are new, and a client deletes only what it owns.\<close>

fun allowed :: "handler_op \<Rightarrow> history \<Rightarrow> bool" where
  "allowed (SendNew a ty cls dialog) x \<longleftrightarrow> eh_events (snd (hs_state x)) a = None \<and> ty \<noteq> InvalidEvent"
| "allowed (ClientDelete e) x \<longleftrightarrow> e \<in> hs_client x"
| "allowed _ x \<longleftrightarrow> True"

fun run_handler :: "handler_op list \<Rightarrow> history \<Rightarrow> history result" where
  "run_handler [] x = return x"
| "run_handler (p # ops) x =
     (if allowed p x then bind_result (handler_step p x) (run_handler ops) else run_handler ops x)"

definition initial_history :: history where
  "initial_history = \<lparr>hs_state = (new_YSimpleEventHandler, \<lparr>eh_events = Map.empty, eh_nextSerial = 0\<rparr>), hs_client = {}\<rparr>"

text \<open>
  Ownership: the events in memory are exactly the pending one and those of the client, and these are
  different.
\<close>

definition owned :: "history \<Rightarrow> bool" where
  "owned x \<longleftrightarrow> dom (eh_events (snd (hs_state x))) = live (snd (hs_state x))
     \<and> live (snd (hs_state x)) = set_option (seh_pendingEvent (fst (hs_state x))) \<union> hs_client x
     \<and> set_option (seh_pendingEvent (fst (hs_state x))) \<inter> hs_client x = {}"


text \<open>All events in memory are valid.\<close>

definition all_valid :: "eheap \<Rightarrow> bool" where
  "all_valid m \<longleftrightarrow> (\<forall>e x. eh_events m e = Some x \<longrightarrow> isValidEvent x)"

lemma all_valid_live: "all_valid m \<longleftrightarrow> dom (eh_events m) = live m"
proof
  show "all_valid m \<Longrightarrow> dom (eh_events m) = live m" by (auto simp: all_valid_def live_def)
next
  assume d: "dom (eh_events m) = live m"
  show "all_valid m"
    unfolding all_valid_def
  proof (intro allI impI)
    fix e x assume x: "eh_events m e = Some x"
    then have "e \<in> live m" using d by blast
    then show "isValidEvent x" using x by (simp add: live_def)
  qed
qed

lemma free_all_valid: "all_valid m \<Longrightarrow> free_event e m = Inr m' \<Longrightarrow> all_valid m'"
  by (auto simp: all_valid_def free_event_def split: option.splits if_splits)

lemma new_all_valid: "all_valid m \<Longrightarrow> ty \<noteq> InvalidEvent \<Longrightarrow> all_valid (new_YEvent a ty cls dialog m)"
  by (auto simp: all_valid_def new_YEvent_def isValidEvent_def)

text \<open>Deleting through the handler releases the event and forgets it.\<close>

lemma seh_deleteEvent_release:
  "seh_deleteEvent event (h, m) =
     bind_result (ev.release event m)
       (\<lambda>m'. Inr (if event = seh_pendingEvent h then h\<lparr>seh_pendingEvent := None\<rparr> else h, m'))"
  by (cases event) (simp_all add: seh_deleteEvent_def ev.release_def Let_def)

lemma release_all_valid: "all_valid m \<Longrightarrow> ev.release event m = Inr m' \<Longrightarrow> all_valid m'"
  by (cases event) (auto simp: ev.release_def intro: free_all_valid)

lemma seh_deleteEvent_ok:
  assumes "all_valid m" "set_option event \<subseteq> live m"
  obtains m' where
    "seh_deleteEvent event (h, m) =
       Inr (if event = seh_pendingEvent h then h\<lparr>seh_pendingEvent := None\<rparr> else h, m')"
    "all_valid m'" "live m' = live m - set_option event"
proof -
  obtain m' where m': "ev.release event m = Inr m'" "live m' = live m - set_option event"
    by (rule ev.release_ok[OF assms(2)])
  then show thesis
    using that release_all_valid[OF assms(1) m'(1)] by (simp add: seh_deleteEvent_release)
qed

lemma owned_iff:
  "owned \<lparr>hs_state = (h, m), hs_client = C\<rparr> \<longleftrightarrow>
     all_valid m \<and> live m = set_option (seh_pendingEvent h) \<union> C \<and> set_option (seh_pendingEvent h) \<inter> C = {}"
  by (simp add: owned_def all_valid_live)

lemma seh_clear_owned:
  assumes "all_valid m" "live m = set_option (seh_pendingEvent h) \<union> C" "set_option (seh_pendingEvent h) \<inter> C = {}"
  obtains m' where "seh_deleteEvent (seh_pendingEvent h) (h, m) = Inr (h\<lparr>seh_pendingEvent := None\<rparr>, m')"
    "all_valid m'" "live m' = C"
proof -
  have sub: "set_option (seh_pendingEvent h) \<subseteq> live m" using assms(2) by simp
  obtain m' where "seh_deleteEvent (seh_pendingEvent h) (h, m) =
      Inr (if seh_pendingEvent h = seh_pendingEvent h then h\<lparr>seh_pendingEvent := None\<rparr> else h, m')"
    "all_valid m'" "live m' = live m - set_option (seh_pendingEvent h)"
    by (rule seh_deleteEvent_ok[OF assms(1) sub, where h = h])
  then show thesis using that[of m'] assms(2,3) by auto
qed

lemma send_owned:
  assumes own: "all_valid m" "live m = set_option (seh_pendingEvent h) \<union> C" "set_option (seh_pendingEvent h) \<inter> C = {}"
    and new: "eh_events m a = None" "ty \<noteq> InvalidEvent"
  shows "\<exists>h' m'. sendEvent (Some a) (h, new_YEvent a ty cls dialog m) = Inr (h', m')
    \<and> owned \<lparr>hs_state = (h', m'), hs_client = C\<rparr>"
proof -
  let ?m = "new_YEvent a ty cls dialog m"
  have a: "a \<notin> live m" using new(1) by (simp add: live_def)
  have m: "all_valid ?m" "live ?m = insert a (live m)"
    by (rule new_all_valid[OF own(1) new(2)], rule live_new[OF new(2)])
  show ?thesis
  proof (cases "seh_eventsBlocked h")
    case True
    have ne: "Some a \<noteq> seh_pendingEvent h"
    proof
      assume e: "Some a = seh_pendingEvent h"
      have "a \<in> set_option (seh_pendingEvent h)" unfolding e[symmetric] by simp
      then show False using a own(2) by simp
    qed
    have sub: "set_option (Some a) \<subseteq> live ?m" using m(2) by simp
    obtain m' where m': "seh_deleteEvent (Some a) (h, ?m) =
        Inr (if Some a = seh_pendingEvent h then h\<lparr>seh_pendingEvent := None\<rparr> else h, m')"
      "all_valid m'" "live m' = live ?m - set_option (Some a)"
      by (rule seh_deleteEvent_ok[OF m(1) sub, where h = h])
    have "sendEvent (Some a) (h, ?m) = Inr (h, m')"
      using m'(1) ne True by (simp add: sendEvent_def)
    moreover have "live m' = live m" using m'(3) m(2) a by simp
    ultimately show ?thesis using own m'(2) by (intro exI[of _ h] exI[of _ m']) (simp add: owned_iff)
  next
    case False
    have c: "live ?m = set_option (seh_pendingEvent h) \<union> insert a C"
      "set_option (seh_pendingEvent h) \<inter> insert a C = {}"
      using m(2) own a by auto
    obtain m' where m': "seh_deleteEvent (seh_pendingEvent h) (h, ?m) = Inr (h\<lparr>seh_pendingEvent := None\<rparr>, m')"
      "all_valid m'" "live m' = insert a C"
      by (rule seh_clear_owned[OF m(1) c])
    have ac: "a \<notin> C" using a own(2) by auto
    show ?thesis
    proof (cases "seh_pendingEvent h")
      case None
      have "sendEvent (Some a) (h, ?m) = Inr (h\<lparr>seh_pendingEvent := Some a\<rparr>, ?m)"
        using None False by (simp add: sendEvent_def)
      then show ?thesis using None ac m c(1)
        by (intro exI[of _ "h\<lparr>seh_pendingEvent := Some a\<rparr>"] exI[of _ ?m]) (simp add: owned_iff)
    next
      case (Some b)
      have "sendEvent (Some a) (h, ?m) = Inr (h\<lparr>seh_pendingEvent := Some a\<rparr>, m')"
        using Some False m'(1) by (simp add: sendEvent_def)
      then show ?thesis using ac m'(2,3)
        by (intro exI[of _ "h\<lparr>seh_pendingEvent := Some a\<rparr>"] exI[of _ m']) (simp add: owned_iff)
    qed
  qed
qed

lemma handler_step_owned:
  assumes "owned x" "allowed p x"
  shows "\<exists>x'. handler_step p x = Inr x' \<and> owned x'"
proof -
  obtain h m C where x: "x = \<lparr>hs_state = (h, m), hs_client = C\<rparr>" by (cases x) auto
  have own: "all_valid m" "live m = set_option (seh_pendingEvent h) \<union> C" "set_option (seh_pendingEvent h) \<inter> C = {}"
    using assms(1) by (auto simp: x owned_iff)
  obtain m0 where m0: "seh_deleteEvent (seh_pendingEvent h) (h, m) = Inr (h\<lparr>seh_pendingEvent := None\<rparr>, m0)"
    "all_valid m0" "live m0 = C" by (rule seh_clear_owned[OF own])
  show ?thesis
  proof (cases p)
    case (SendNew a ty cls dialog)
    then have "eh_events m a = None" "ty \<noteq> InvalidEvent" using assms(2) by (simp_all add: x)
    from send_owned[OF own this, of cls dialog] show ?thesis using SendNew by (auto simp: x)
  next
    case Consume
    then show ?thesis using own by (simp add: x consumePendingEvent_def owned_iff Un_commute)
  next
    case (ClientDelete e)
    then have e: "e \<in> C" using assms(2) by (simp add: x)
    then have l: "e \<in> live m" "e \<notin> set_option (seh_pendingEvent h)" using own(2,3) by blast+
    obtain m' where m': "free_event e m = Inr m'" "live m' = live m - {e}"
      using ev.free_succeeds[OF l(1)] ev.free_alive[OF l(1)] by blast
    have "live m' = set_option (seh_pendingEvent h) \<union> (C - {e})" using m'(2) own(2) l(2) by blast
    moreover have "set_option (seh_pendingEvent h) \<inter> (C - {e}) = {}" using own(3) by blast
    ultimately show ?thesis
      using ClientDelete m'(1) free_all_valid[OF own(1) m'(1)] by (simp add: x owned_iff)
  next
    case Clear
    then show ?thesis
      using own m0 by (cases "seh_pendingEvent h") (simp_all add: x seh_clear_def owned_iff)
  next
    case (DeletePendingFor w)
    have "\<exists>r. pending_widget_event (h, m) = Inr r"
    proof (cases "seh_pendingEvent h")
      case (Some e)
      then have "e \<in> live m" using own(2) by simp
      then show ?thesis using Some by (auto simp: pending_widget_event_def live_def)
    qed (simp add: pending_widget_event_def)
    then obtain r where r: "pending_widget_event (h, m) = Inr r" by blast
    have "deletePendingEventsFor w (h, m) \<in> {Inr (h, m), Inr (h\<lparr>seh_pendingEvent := None\<rparr>, m0)}"
      using r m0(1) by (simp add: deletePendingEventsFor_def split: option.split)
    then show ?thesis
      using DeletePendingFor own m0(2,3) by (elim insertE) (simp_all add: x owned_iff)
  next
    case (Block b)
    then show ?thesis using own by (simp add: x blockEvents_def owned_iff)
  qed
qed

lemma run_handler_owned: "owned x \<Longrightarrow> \<exists>x'. run_handler ops x = Inr x' \<and> owned x'"
proof (induction ops x rule: run_handler.induct)
  case (2 p ops x)
  then show ?case using handler_step_owned[OF "2.prems", of p] by (cases "allowed p x") auto
qed auto

section \<open>Properties\<close>

text \<open>
  C12: Over every history of sending, blocking, consuming, clearing and deleting, in which new events
  get free addresses and clients delete only events they consumed, the event handler never touches a
  freed event, and at every moment the events in memory are exactly the pending event and the events
  consumed and not yet deleted: nothing is leaked and nothing is freed twice.
\<close>

theorem handler_ownership:
  "\<exists>x. run_handler ops initial_history = Inr x \<and> owned x"
  by (rule run_handler_owned) (auto simp: initial_history_def new_YSimpleEventHandler_def owned_def live_def)

text \<open>
  Of several events sent without a client consuming them only the latest is kept: sending an event
  with events not blocked makes it the pending one and frees its predecessor, and consuming then
  returns exactly this event and leaves nothing pending.
\<close>

theorem sendEvent_latest:
  assumes "all_valid m" "set_option (seh_pendingEvent h) \<subseteq> live m" "\<not> seh_eventsBlocked h" "e \<in> live m"
    "seh_pendingEvent h \<noteq> Some e"
  shows "\<exists>h' m'. sendEvent (Some e) (h, m) = Inr (h', m') \<and> live m' = live m - set_option (seh_pendingEvent h)
    \<and> consumePendingEvent (h', m') = (Some e, (h'\<lparr>seh_pendingEvent := None\<rparr>, m'))"
proof -
  obtain m' where "seh_deleteEvent (seh_pendingEvent h) (h, m) =
      Inr (if seh_pendingEvent h = seh_pendingEvent h then h\<lparr>seh_pendingEvent := None\<rparr> else h, m')"
    "live m' = live m - set_option (seh_pendingEvent h)"
    by (rule seh_deleteEvent_ok[OF assms(1,2)])
  then show ?thesis
    using assms by (cases "seh_pendingEvent h") (auto simp: sendEvent_def consumePendingEvent_def)
qed

theorem sendEvent_latest_witness:
  "\<exists>h' m'. sendEvent (Some 7)
      (\<lparr>seh_pendingEvent = Some 5, seh_eventsBlocked = False\<rparr>,
       new_YEvent 7 CancelEvent PlainEvent None (new_YEvent 5 TimeoutEvent PlainEvent None
         \<lparr>eh_events = Map.empty, eh_nextSerial = 0\<rparr>)) = Inr (h', m')
    \<and> live m' = {7} \<and> fst (consumePendingEvent (h', m')) = Some 7"
proof -
  let ?m = "new_YEvent 7 CancelEvent PlainEvent None (new_YEvent 5 TimeoutEvent PlainEvent None
         \<lparr>eh_events = Map.empty, eh_nextSerial = 0\<rparr>)"
  have l: "live ?m = {5, 7}" by (simp add: live_new) (auto simp: live_def)
  have v: "all_valid ?m" by (intro new_all_valid) (simp_all add: all_valid_def)
  from sendEvent_latest[OF v, of "\<lparr>seh_pendingEvent = Some 5, seh_eventsBlocked = False\<rparr>" 7] l
  show ?thesis by auto
qed

end
