(* ===== verification/Yui_Dialog.thy ===== *)
theory Yui_Dialog
  imports Yui_Heap Yui_Event
begin

text \<open>
  Dialogs (\<^verbatim>\<open>YDialog.cc\<close>, \<^verbatim>\<open>YEventFilter.cc\<close>): the stack of dialogs, opening, the shortcut check that
  can be postponed, layout passes, event filters, waiting and polling for events, and destruction.
  The state holds the heaps of widgets and events, the dialogs, the filters and the stack. What a
  dialog asks of its toolkit is recorded in a log. The theory shows that every history keeps the
  state consistent, which events reach the application, and where the code loses one.
\<close>

section \<open>State\<close>

datatype filter_kind = YHelpButtonHandler | YRelNotesButtonHandler | AppFilter

record YEventFilter =
  ef_kind :: filter_kind
  ef_dialog :: nat

record YDialog =
  d_dialogType :: YDialogType
  d_shortcutCheckPostponed :: bool
  d_isOpen :: bool
  d_multiPassLayout :: bool
  d_layoutPass :: int
  d_lastEvent :: "nat option"
  d_eventFilterList :: "nat list"

text \<open>Calls to the toolkit, to the shortcut manager and to the popups for texts.\<close>

datatype effect =
    CheckShortcuts nat
  | SetSize nat int
  | OpenInternal nat
  | Activate nat
  | ShowText string
  | ShowRelNotes

record ui =
  ui_widgets :: wheap
  ui_events :: eheap
  ui_dialogs :: "nat \<rightharpoonup> YDialog"
  ui_filters :: "nat \<rightharpoonup> YEventFilter"
  ui_stack :: "nat list"
  ui_log :: "effect list"

definition emit :: "effect \<Rightarrow> ui \<Rightarrow> ui" where
  "emit x u = u\<lparr>ui_log := ui_log u @ [x]\<rparr>"

definition on_dialog :: "nat \<Rightarrow> (YDialog \<Rightarrow> YDialog) \<Rightarrow> ui \<Rightarrow> ui result" where
  "on_dialog d f u =
     (case ui_dialogs u d of
        None \<Rightarrow> dangling
      | Some x \<Rightarrow> return (u\<lparr>ui_dialogs := (ui_dialogs u)(d \<mapsto> f x)\<rparr>))"

definition new_YDialogPrivate :: "YDialogType \<Rightarrow> YDialog" where
  "new_YDialogPrivate ty =
     \<lparr>d_dialogType = ty, d_shortcutCheckPostponed = False, d_isOpen = False, d_multiPassLayout = False,
      d_layoutPass = 0, d_lastEvent = None, d_eventFilterList = []\<rparr>"

fun isMainDialog :: "YDialogType \<Rightarrow> bool" where
  "isMainDialog YMainDialog = True"
| "isMainDialog YWizardDialog = True"
| "isMainDialog YPopupDialog = False"

section \<open>The dialog stack\<close>

definition isTopmostDialog :: "nat \<Rightarrow> ui \<Rightarrow> bool" where
  "isTopmostDialog d u \<longleftrightarrow> ui_stack u \<noteq> [] \<and> hd (ui_stack u) = d"

definition currentDialog :: "bool \<Rightarrow> ui \<Rightarrow> nat option result" where
  "currentDialog doThrow u =
     (if ui_stack u = [] then if doThrow then throw YUINoDialogException else return None
      else return (Some (hd (ui_stack u))))"

definition openDialogsCount :: "ui \<Rightarrow> nat" where
  "openDialogsCount u = length (ui_stack u)"

section \<open>Event filters\<close>

definition addEventFilter :: "nat \<Rightarrow> nat \<Rightarrow> ui \<Rightarrow> ui result" where
  "addEventFilter d f u =
     on_dialog d (\<lambda>x. if f \<in> set (d_eventFilterList x) then x
                      else x\<lparr>d_eventFilterList := d_eventFilterList x @ [f]\<rparr>) u"

definition removeEventFilter :: "nat \<Rightarrow> nat \<Rightarrow> ui \<Rightarrow> ui result" where
  "removeEventFilter d f u =
     on_dialog d (\<lambda>x. x\<lparr>d_eventFilterList := removeAll f (d_eventFilterList x)\<rparr>) u"

text \<open>Constructor and destructor of \<^verbatim>\<open>YEventFilter\<close>; without a dialog the current one is taken.\<close>

definition new_YEventFilter :: "nat \<Rightarrow> filter_kind \<Rightarrow> nat option \<Rightarrow> ui \<Rightarrow> ui result" where
  "new_YEventFilter f kind dialog u =
     bind_result (case dialog of Some d \<Rightarrow> return (Some d) | None \<Rightarrow> currentDialog True u)
       (\<lambda>r. case r of
          None \<Rightarrow> throw YUINullPointerException
        | Some d \<Rightarrow> addEventFilter d f (u\<lparr>ui_filters := (ui_filters u)(f \<mapsto> \<lparr>ef_kind = kind, ef_dialog = d\<rparr>)\<rparr>))"

definition delete_filter :: "nat \<Rightarrow> ui \<Rightarrow> ui result" where
  "delete_filter f u =
     (case ui_filters u f of
        None \<Rightarrow> dangling
      | Some x \<Rightarrow> bind_result (removeEventFilter (ef_dialog x) f u)
                   (\<lambda>u1. return (u1\<lparr>ui_filters := (ui_filters u1)(f := None)\<rparr>)))"

text \<open>The loop deletes the last filter of the list as long as there is one.\<close>

partial_function (option) deleteEventFilters :: "nat \<Rightarrow> ui \<Rightarrow> ui run" where
  "deleteEventFilters d u =
     (case ui_dialogs u d of
        None \<Rightarrow> Some dangling
      | Some x \<Rightarrow>
          if d_eventFilterList x = [] then Some (return u)
          else (case delete_filter (last (d_eventFilterList x)) u of
                  Inl e \<Rightarrow> Some (throw e)
                | Inr u1 \<Rightarrow> deleteEventFilters d u1))"

section \<open>Construction and destruction\<close>

text \<open>
  \<open>f1\<close> and \<open>f2\<close> are the addresses of the two filters the constructor creates.
\<close>

definition new_YDialog :: "nat \<Rightarrow> YDialogType \<Rightarrow> nat \<Rightarrow> nat \<Rightarrow> ui \<Rightarrow> ui result" where
  "new_YDialog d ty f1 f2 u =
     bind_result (new_YWidget d KDialog YSingleChildManager None (ui_widgets u))
       (\<lambda>w. let u1 = u\<lparr>ui_widgets := w, ui_dialogs := (ui_dialogs u)(d \<mapsto> new_YDialogPrivate ty),
                        ui_stack := d # ui_stack u\<rparr>
            in bind_result (new_YEventFilter f1 YHelpButtonHandler (Some d) u1)
                 (new_YEventFilter f2 YRelNotesButtonHandler (Some d)))"

definition d_deleteEvent :: "nat \<Rightarrow> nat option \<Rightarrow> ui \<Rightarrow> ui result" where
  "d_deleteEvent d event u =
     bind_result
       (on_dialog d (\<lambda>x. if event = d_lastEvent x then x\<lparr>d_lastEvent := None\<rparr> else x) u)
       (\<lambda>u1. case event of
          None \<Rightarrow> return u1
        | Some e \<Rightarrow> bind_result (free_event e (ui_events u1)) (\<lambda>h. return (u1\<lparr>ui_events := h\<rparr>)))"

text \<open>
  The destructor. The part of the base class is \<^const>\<open>leave_parent\<close>: the children are gone by then.
\<close>

definition pop_stack :: "nat \<Rightarrow> ui \<Rightarrow> ui" where
  "pop_stack d u =
     (if isTopmostDialog d u
      then let u1 = u\<lparr>ui_stack := tl (ui_stack u)\<rparr>
           in if ui_stack u1 = [] then u1 else emit (Activate (hd (ui_stack u1))) u1
      else u)"

definition delete_dialog :: "nat \<Rightarrow> nat \<Rightarrow> ui \<Rightarrow> ui run" where
  "delete_dialog n d u =
     (case (ui_widgets u d, ui_dialogs u d) of
        (Some ob, Some x) \<Rightarrow>
          bind_run
            (Some (d_deleteEvent d (d_lastEvent x)
               (u\<lparr>ui_widgets := (ui_widgets u)(d \<mapsto> ob\<lparr>wo_beingDestroyed := True\<rparr>)\<rparr>)))
            (\<lambda>u1. bind_run (deleteChildren n d (ui_widgets u1))
            (\<lambda>w. bind_run (deleteEventFilters d (u1\<lparr>ui_widgets := w\<rparr>))
            (\<lambda>u2. let u3 = pop_stack d u2
                  in bind_run (Some (leave_parent d (ui_widgets u3)))
            (\<lambda>w'. Some (return (u3\<lparr>ui_widgets := w', ui_dialogs := (ui_dialogs u3)(d := None)\<rparr>))))))
      | _ \<Rightarrow> Some dangling)"

text \<open>
  \<^verbatim>\<open>YUI_CHECK_WIDGET\<close> reads the mark of the object, which is undefined once the object is freed.
\<close>

definition destroy :: "nat \<Rightarrow> nat \<Rightarrow> bool \<Rightarrow> ui \<Rightarrow> (bool \<times> ui) run" where
  "destroy n d doThrow u =
     (if ui_widgets u d = None then Some dangling
      else if isTopmostDialog d u
      then bind_run (delete_dialog n d u) (\<lambda>u1. Some (return (True, u1)))
      else if doThrow then Some (throw YUIDialogStackingOrderException) else Some (return (False, u)))"

definition deleteTopmostDialog :: "nat \<Rightarrow> bool \<Rightarrow> ui \<Rightarrow> (bool \<times> ui) run" where
  "deleteTopmostDialog n doThrow u =
     (if ui_stack u = [] then if doThrow then Some (throw YUINoDialogException) else Some (return (False, u))
      else bind_run (delete_dialog n (hd (ui_stack u)) u) (\<lambda>u1. Some (return (ui_stack u1 \<noteq> [], u1))))"

text \<open>The two loops over the stack; that every round takes one dialog off is proved below.\<close>

partial_function (option) deleteAllDialogs :: "nat \<Rightarrow> ui \<Rightarrow> ui run" where
  "deleteAllDialogs n u =
     (if ui_stack u = [] then Some (return u)
      else (case delete_dialog n (hd (ui_stack u)) u of
              None \<Rightarrow> None
            | Some (Inl e) \<Rightarrow> Some (throw e)
            | Some (Inr u1) \<Rightarrow> deleteAllDialogs n u1))"

partial_function (option) deleteTo_loop :: "nat \<Rightarrow> nat \<Rightarrow> ui \<Rightarrow> (yui_exception option \<times> ui) run" where
  "deleteTo_loop n target u =
     (if ui_stack u = [] then Some (return (Some YUIDialogStackingOrderException, u))
      else let d = hd (ui_stack u)
           in (case delete_dialog n d u of
                 None \<Rightarrow> None
               | Some (Inl e) \<Rightarrow> Some (throw e)
               | Some (Inr u1) \<Rightarrow> if d = target then Some (return (None, u1)) else deleteTo_loop n target u1))"

text \<open>
  \<^verbatim>\<open>deleteTo\<close> throws only after it has deleted the dialogs, so the result has the exception beside the
  state it leaves. A null pointer fails the check of the target.
\<close>

definition deleteTo :: "nat \<Rightarrow> nat option \<Rightarrow> ui \<Rightarrow> (yui_exception option \<times> ui) run" where
  "deleteTo n target u =
     (case target of
        None \<Rightarrow> Some (return (Some YUIInvalidWidgetException, u))
      | Some d \<Rightarrow> if ui_widgets u d = None then Some dangling else deleteTo_loop n d u)"

section \<open>Opening\<close>

definition postponeShortcutCheck :: "nat \<Rightarrow> ui \<Rightarrow> ui result" where
  "postponeShortcutCheck d u = on_dialog d (\<lambda>x. x\<lparr>d_shortcutCheckPostponed := True\<rparr>) u"

definition d_checkShortcuts :: "nat \<Rightarrow> bool \<Rightarrow> ui \<Rightarrow> ui result" where
  "d_checkShortcuts d force u =
     (case ui_dialogs u d of
        None \<Rightarrow> dangling
      | Some x \<Rightarrow>
          if d_shortcutCheckPostponed x \<and> \<not> force then return u
          else on_dialog d (\<lambda>x. x\<lparr>d_shortcutCheckPostponed := False\<rparr>) (emit (CheckShortcuts d) u))"

definition requestMultiPassLayout :: "nat \<Rightarrow> ui \<Rightarrow> ui result" where
  "requestMultiPassLayout d u = on_dialog d (\<lambda>x. x\<lparr>d_multiPassLayout := True\<rparr>) u"

definition layout_pass :: "nat \<Rightarrow> int \<Rightarrow> ui \<Rightarrow> ui result" where
  "layout_pass d k u =
     bind_result (on_dialog d (\<lambda>x. x\<lparr>d_layoutPass := k\<rparr>) u) (\<lambda>u1. return (emit (SetSize d k) u1))"

definition doLayout :: "nat \<Rightarrow> ui \<Rightarrow> ui result" where
  "doLayout d u =
     bind_result (layout_pass d 1 u)
       (\<lambda>u1. case ui_dialogs u1 d of
          None \<Rightarrow> dangling
        | Some x \<Rightarrow>
            bind_result (if d_multiPassLayout x then layout_pass d 2 u1 else return u1)
              (on_dialog d (\<lambda>x. x\<lparr>d_layoutPass := 0\<rparr>)))"

definition open_dialog :: "nat \<Rightarrow> ui \<Rightarrow> ui result" where
  "open_dialog d u =
     (case ui_dialogs u d of
        None \<Rightarrow> dangling
      | Some x \<Rightarrow>
          if d_isOpen x then return u
          else bind_result (d_checkShortcuts d False u)
                 (\<lambda>u1. bind_result (doLayout d u1)
                 (\<lambda>u2. on_dialog d (\<lambda>x. x\<lparr>d_isOpen := True\<rparr>) (emit (OpenInternal d) u2))))"

section \<open>Events\<close>

text \<open>
  An event of a widget is dropped if the widget belongs to another dialog. The check before it,
  \<^verbatim>\<open>isValid()\<close>, is meant for deleted widgets but reads the mark of the object: it holds for an
  object in memory and is undefined for a freed one.
\<close>

definition filterInvalidEvents :: "nat \<Rightarrow> nat option \<Rightarrow> ui \<Rightarrow> (nat option \<times> ui) run" where
  "filterInvalidEvents d event u =
     (case event of
        None \<Rightarrow> Some (return (None, u))
      | Some e \<Rightarrow>
          (case eh_events (ui_events u) e of
             None \<Rightarrow> Some dangling
           | Some x \<Rightarrow>
               (case event_widget x of
                  None \<Rightarrow> Some (return (Some e, u))
                | Some w \<Rightarrow>
                    if ui_widgets u w = None then Some dangling
                    else bind_run (findDialog (ui_widgets u) (Some w))
                      (\<lambda>dlg. if dlg \<noteq> Some d
                             then bind_run (Some (d_deleteEvent d (Some e) (emit (Activate d) u)))
                                    (\<lambda>u1. Some (return (None, u1)))
                             else Some (return (Some e, u))))))"

text \<open>
  One filter. \<open>relnotes\<close> tells whether the application has release notes to show; \<open>app\<close> is what the
  filters of the application do with an event.
\<close>

definition button_filter :: "(bool \<Rightarrow> bool \<Rightarrow> bool) \<Rightarrow> (nat \<Rightarrow> ui \<Rightarrow> (bool \<times> ui) run) \<Rightarrow> nat \<Rightarrow> ui \<Rightarrow> (nat option \<times> ui) run" where
  "button_filter wanted show_it e u =
     (case eh_events (ui_events u) e of
        None \<Rightarrow> Some dangling
      | Some x \<Rightarrow>
          (case event_widget x of
             None \<Rightarrow> Some (return (Some e, u))
           | Some w \<Rightarrow>
               (case ui_widgets u w of
                  None \<Rightarrow> Some dangling
                | Some ob \<Rightarrow>
                    (case wo_kind ob of
                       KPushButton isHelp isRelNotes \<Rightarrow>
                         if wanted isHelp isRelNotes
                         then bind_run (show_it w u)
                                (\<lambda>(shown, u1). Some (return (if shown then None else Some e, u1)))
                         else Some (return (Some e, u))
                     | _ \<Rightarrow> Some (return (Some e, u))))))"

definition show_help :: "nat \<Rightarrow> ui \<Rightarrow> (bool \<times> ui) run" where
  "show_help w u =
     bind_run (showHelpText (ui_widgets u) w)
       (\<lambda>(shown, t). Some (return (shown, if shown then emit (ShowText t) u else u)))"

definition show_relnotes :: "bool \<Rightarrow> nat \<Rightarrow> ui \<Rightarrow> (bool \<times> ui) run" where
  "show_relnotes relnotes w u = Some (return (relnotes, if relnotes then emit ShowRelNotes u else u))"

type_synonym app_filters = "nat \<Rightarrow> nat \<Rightarrow> eheap \<Rightarrow> nat option \<times> eheap"

definition run_filter :: "bool \<Rightarrow> app_filters \<Rightarrow> nat \<Rightarrow> nat \<Rightarrow> ui \<Rightarrow> (nat option \<times> ui) run" where
  "run_filter relnotes app f e u =
     (case ui_filters u f of
        None \<Rightarrow> Some dangling
      | Some x \<Rightarrow>
          (case ef_kind x of
             YHelpButtonHandler \<Rightarrow> button_filter (\<lambda>isHelp _. isHelp) show_help e u
           | YRelNotesButtonHandler \<Rightarrow> button_filter (\<lambda>_ isRelNotes. isRelNotes) (show_relnotes relnotes) e u
           | AppFilter \<Rightarrow> (let (r, h) = app f e (ui_events u) in Some (return (r, u\<lparr>ui_events := h\<rparr>)))))"

fun call_filters :: "bool \<Rightarrow> app_filters \<Rightarrow> nat \<Rightarrow> nat list \<Rightarrow> nat \<Rightarrow> ui \<Rightarrow> (nat option \<times> ui) run" where
  "call_filters relnotes app d [] e u = Some (return (Some e, u))"
| "call_filters relnotes app d (f # fs) e u =
     bind_run (run_filter relnotes app f e u)
       (\<lambda>(r, u1). bind_run (if r \<noteq> Some e then Some (d_deleteEvent d (Some e) u1) else Some (return u1))
          (\<lambda>u2. case r of
             None \<Rightarrow> Some (return (None, u2))
           | Some e' \<Rightarrow> call_filters relnotes app d fs e' u2))"

definition callEventFilters :: "bool \<Rightarrow> app_filters \<Rightarrow> nat \<Rightarrow> nat option \<Rightarrow> ui \<Rightarrow> (nat option \<times> ui) run" where
  "callEventFilters relnotes app d event u =
     (case event of
        None \<Rightarrow> Some (return (None, u))
      | Some e \<Rightarrow>
          (case ui_dialogs u d of
             None \<Rightarrow> Some dangling
           | Some x \<Rightarrow> call_filters relnotes app d (d_eventFilterList x) e u))"

text \<open>
  The loop of \<^verbatim>\<open>waitForEvent\<close> over the events \<^verbatim>\<open>waitForEventInternal\<close> returns one after the other
  (null pointers included). When none of them gets through, the loop is still waiting.
\<close>

fun wait_loop :: "bool \<Rightarrow> app_filters \<Rightarrow> nat \<Rightarrow> nat option list \<Rightarrow> ui \<Rightarrow> (nat option \<times> ui) run" where
  "wait_loop relnotes app d [] u = Some (return (None, u))"
| "wait_loop relnotes app d (ev # evs) u =
     bind_run (filterInvalidEvents d ev u)
       (\<lambda>(r, u1). bind_run (callEventFilters relnotes app d r u1)
          (\<lambda>(r', u2). case r' of
             None \<Rightarrow> wait_loop relnotes app d evs u2
           | Some e \<Rightarrow> bind_run (Some (on_dialog d (\<lambda>x. x\<lparr>d_lastEvent := Some e\<rparr>) u2))
                         (\<lambda>u3. Some (return (Some e, u3)))))"

definition waitForEvent :: "bool \<Rightarrow> app_filters \<Rightarrow> nat \<Rightarrow> nat option list \<Rightarrow> ui \<Rightarrow> (nat option \<times> ui) run" where
  "waitForEvent relnotes app d evs u =
     (if \<not> isTopmostDialog d u then Some (throw YUIDialogStackingOrderException)
      else
        bind_run (Some (open_dialog d u))
          (\<lambda>u1. case ui_dialogs u1 d of
             None \<Rightarrow> Some dangling
           | Some x \<Rightarrow>
               bind_run (Some (if d_shortcutCheckPostponed x then d_checkShortcuts d True u1 else return u1))
                 (\<lambda>u2. case ui_dialogs u2 d of
                    None \<Rightarrow> Some dangling
                  | Some y \<Rightarrow>
                      bind_run (Some (d_deleteEvent d (d_lastEvent y) u2))
                        (wait_loop relnotes app d evs))))"

definition pollEvent :: "bool \<Rightarrow> app_filters \<Rightarrow> nat \<Rightarrow> nat option \<Rightarrow> ui \<Rightarrow> (nat option \<times> ui) run" where
  "pollEvent relnotes app d ev u =
     (if \<not> isTopmostDialog d u then Some (throw YUIDialogStackingOrderException)
      else
        bind_run (Some (open_dialog d u))
          (\<lambda>u1. bind_run (filterInvalidEvents d ev u1)
          (\<lambda>(r, u2). bind_run (if r \<noteq> None then callEventFilters relnotes app d r u2 else Some (return (None, u2)))
          (\<lambda>(r', u3). bind_run (Some (on_dialog d (\<lambda>x. x\<lparr>d_lastEvent := r'\<rparr>) u3))
             (\<lambda>u4. Some (return (r', u4)))))))"


section \<open>Consistent states\<close>

definition stack_ok :: "ui \<Rightarrow> bool" where
  "stack_ok u \<longleftrightarrow> distinct (ui_stack u) \<and> set (ui_stack u) = dom (ui_dialogs u)
     \<and> dom (ui_dialogs u) = {d. is_dialog (ui_widgets u) d}
     \<and> (\<forall>d ob. ui_widgets u d = Some ob \<and> wo_kind ob = KDialog \<longrightarrow> wo_parent ob = None)"

definition filters_ok :: "ui \<Rightarrow> bool" where
  "filters_ok u \<longleftrightarrow>
     (\<forall>d x. ui_dialogs u d = Some x \<longrightarrow> distinct (d_eventFilterList x)
        \<and> (\<forall>f\<in>set (d_eventFilterList x). \<exists>y. ui_filters u f = Some y \<and> ef_dialog y = d))
     \<and> (\<forall>f y. ui_filters u f = Some y \<longrightarrow>
          (\<exists>x. ui_dialogs u (ef_dialog y) = Some x \<and> f \<in> set (d_eventFilterList x)))"

text \<open>The last event of a dialog is in memory and belongs to this dialog only.\<close>

definition last_event :: "ui \<Rightarrow> nat \<Rightarrow> nat option" where
  "last_event u d = (case ui_dialogs u d of None \<Rightarrow> None | Some x \<Rightarrow> d_lastEvent x)"

definition last_ok :: "ui \<Rightarrow> bool" where
  "last_ok u \<longleftrightarrow> all_valid (ui_events u) \<and> (\<forall>d. set_option (last_event u d) \<subseteq> live (ui_events u))
     \<and> (\<forall>d d' e. last_event u d = Some e \<and> last_event u d' = Some e \<longrightarrow> d = d')"

definition ui_ok :: "ui \<Rightarrow> bool" where
  "ui_ok u \<longleftrightarrow> heap_ok (ui_widgets u) \<and> stack_ok u \<and> filters_ok u \<and> last_ok u"

lemma on_dialog_Some:
  "ui_dialogs u d = Some x \<Longrightarrow> on_dialog d f u = Inr (u\<lparr>ui_dialogs := (ui_dialogs u)(d \<mapsto> f x)\<rparr>)"
  by (simp add: on_dialog_def)

lemma on_dialog_Inr_iff:
  "on_dialog d f u = Inr v \<longleftrightarrow>
     (\<exists>x. ui_dialogs u d = Some x \<and> v = u\<lparr>ui_dialogs := (ui_dialogs u)(d \<mapsto> f x)\<rparr>)"
  by (auto simp: on_dialog_def split: option.splits)

lemma stack_okD:
  assumes "stack_ok u" "d \<in> set (ui_stack u)"
  obtains ob x where "ui_widgets u d = Some ob" "wo_kind ob = KDialog" "wo_parent ob = None" "ui_dialogs u d = Some x"
  using assms that by (fastforce simp: stack_ok_def is_dialog_def)

section \<open>Destroying a dialog\<close>

lemma deleteEventFilters_all:
  "ui_dialogs u d = Some x \<Longrightarrow> d_eventFilterList x = fs \<Longrightarrow> distinct fs \<Longrightarrow>
   (\<And>f. f \<in> set fs \<Longrightarrow> \<exists>y. ui_filters u f = Some y \<and> ef_dialog y = d) \<Longrightarrow>
   deleteEventFilters d u =
     Some (Inr (u\<lparr>ui_dialogs := (ui_dialogs u)(d \<mapsto> x\<lparr>d_eventFilterList := []\<rparr>),
                  ui_filters := ui_filters u |` (- set fs)\<rparr>))"
proof (induction fs arbitrary: u x rule: rev_induct)
  case Nil
  have "ui_filters u |` (- set []) = ui_filters u" by (simp add: restrict_map_def fun_eq_iff)
  with Nil show ?case by (subst deleteEventFilters.simps) (simp add: map_upd_triv)
next
  case (snoc f fs)
  obtain y where y: "ui_filters u f = Some y" "ef_dialog y = d" using snoc.prems(4)[of f] by auto
  let ?x = "x\<lparr>d_eventFilterList := fs\<rparr>"
  let ?u = "u\<lparr>ui_dialogs := (ui_dialogs u)(d \<mapsto> ?x), ui_filters := (ui_filters u)(f := None)\<rparr>"
  have "removeAll f (fs @ [f]) = fs" using snoc.prems(3) by simp
  then have del: "delete_filter f u = Inr ?u"
    using y snoc.prems(1,2) by (simp add: delete_filter_def removeEventFilter_def on_dialog_Some)
  have "deleteEventFilters d ?u =
      Some (Inr (?u\<lparr>ui_dialogs := (ui_dialogs ?u)(d \<mapsto> ?x\<lparr>d_eventFilterList := []\<rparr>),
                    ui_filters := ui_filters ?u |` (- set fs)\<rparr>))"
    by (rule snoc.IH) (use snoc.prems in auto)
  moreover have "(ui_filters u)(f := None) |` (- set fs) = ui_filters u |` (- set (fs @ [f]))"
    by (auto simp: restrict_map_def fun_eq_iff)
  ultimately show ?case
    using snoc.prems(1,2) del by (subst deleteEventFilters.simps) simp
qed

text \<open>The widgets of a dialog: first its children go, then the dialog itself.\<close>

lemma dialog_widgets_deleted:
  assumes ok: "heap_ok h" and ob: "h d = Some ob" "wo_parent ob = None" and n: "card (dom h) \<le> n"
  obtains w where "deleteChildren n d (h(d \<mapsto> ob\<lparr>wo_beingDestroyed := True\<rparr>)) = Some (Inr w)"
    "leave_parent d w = Inr (pruned d h)"
proof -
  let ?g = "h(d \<mapsto> ob\<lparr>wo_beingDestroyed := True\<rparr>)"
  have d: "d \<in> dom h" using ob by auto
  obtain xs where xs: "listing h d xs" "distinct xs" "set xs = subtree h d"
    using listing_exists[OF ok d] by blast
  from xs(1) ob(1) obtain ys where ys: "xs = d # ys" "listings h d (kids ob) ys" by (auto elim: listingE)
  have "length xs \<le> n"
    using distinct_card[OF xs(2)] card_mono[OF heap_okD(1)[OF ok] subtree_alive[OF ok d]] n xs(3) by simp
  then have "delete_children n (kids ob) ?g = Some (Inr (drop_kids d (kids ob) (?g |` (- set ys))))"
    using xs(2) ys by (intro delete_listing(2)[OF ys(2)]) auto
  moreover have "drop_kids d (kids ob) (?g |` (- set ys)) = ?g |` (- set ys)"
    using xs(2) ys(1) by (simp add: drop_kids_def)
  ultimately have del: "delete_children n (kids ob) ?g = Some (Inr (?g |` (- set ys)))" by simp
  have dy: "d \<notin> set ys" using xs(2) ys(1) by simp
  let ?w = "(?g |` (- set ys))(d \<mapsto> ob\<lparr>wo_beingDestroyed := True, wo_manager := cm_clear (wo_manager ob)\<rparr>)"
  have "deleteChildren n d ?g = Some (Inr ?w)"
    using del dy by (simp add: deleteChildren_def)
  moreover have "leave_parent d ?w = Inr (?w(d := None))"
    using ob(2) by (simp add: leave_parent_def)
  moreover have "?w(d := None) = h |` (- subtree h d)"
    using xs(3) ys(1) by (auto simp: restrict_map_def fun_eq_iff)
  moreover have "h |` (- subtree h d) = pruned d h"
    using drop_from_parent_pruned[OF ok ob(1)] ob(2) by (simp add: drop_from_parent_def)
  ultimately show thesis using that by simp
qed

lemma d_deleteEvent_last:
  assumes "all_valid (ui_events u)" "ui_dialogs u d = Some x" "set_option (d_lastEvent x) \<subseteq> live (ui_events u)"
  obtains h where "d_deleteEvent d (d_lastEvent x) u =
      Inr (u\<lparr>ui_dialogs := (ui_dialogs u)(d \<mapsto> x\<lparr>d_lastEvent := None\<rparr>), ui_events := h\<rparr>)"
    "all_valid h" "live h = live (ui_events u) - set_option (d_lastEvent x)"
    "eh_events h = eh_events (ui_events u) |` (- set_option (d_lastEvent x))"
proof -
  obtain h where h: "ev.release (d_lastEvent x) (ui_events u) = Inr h"
    "live h = live (ui_events u) - set_option (d_lastEvent x)" by (rule ev.release_ok[OF assms(3)])
  have "d_deleteEvent d (d_lastEvent x) u =
      Inr (u\<lparr>ui_dialogs := (ui_dialogs u)(d \<mapsto> x\<lparr>d_lastEvent := None\<rparr>), ui_events := h\<rparr>)"
    using h(1) assms(2) by (cases "d_lastEvent x") (simp_all add: d_deleteEvent_def on_dialog_Some ev.release_def)
  moreover have "eh_events h = eh_events (ui_events u) |` (- set_option (d_lastEvent x))"
    using h(1) assms(3) live_free(1)
    by (cases "d_lastEvent x") (auto simp: ev.release_def restrict_map_def fun_eq_iff)
  ultimately show thesis using that h(2) release_all_valid[OF assms(1) h(1)] by blast
qed


lemma pop_stack_simps [simp]:
  "ui_widgets (pop_stack d u) = ui_widgets u" "ui_events (pop_stack d u) = ui_events u"
  "ui_dialogs (pop_stack d u) = ui_dialogs u" "ui_filters (pop_stack d u) = ui_filters u"
  "ui_stack (pop_stack d u) = (if isTopmostDialog d u then tl (ui_stack u) else ui_stack u)"
  by (simp_all add: pop_stack_def emit_def Let_def)

lemma isTopmostDialog_stack: "isTopmostDialog d u = isTopmostDialog d v" if "ui_stack u = ui_stack v"
  using that by (simp add: isTopmostDialog_def)

text \<open>What destroying a dialog leaves of each part of the state.\<close>

lemma delete_dialog_parts:
  assumes ok: "ui_ok u" and d: "d \<in> set (ui_stack u)" and n: "card (dom (ui_widgets u)) \<le> n"
  obtains u' x where "delete_dialog n d u = Some (Inr u')" "ui_dialogs u d = Some x"
    "ui_widgets u' = pruned d (ui_widgets u)" "all_valid (ui_events u')"
    "live (ui_events u') = live (ui_events u) - set_option (d_lastEvent x)"
    "ui_dialogs u' = (ui_dialogs u)(d := None)"
    "ui_filters u' = ui_filters u |` (- set (d_eventFilterList x))"
    "ui_stack u' = (if isTopmostDialog d u then tl (ui_stack u) else ui_stack u)"
proof -
  have st: "stack_ok u" and fl: "filters_ok u" and la: "last_ok u" and hp: "heap_ok (ui_widgets u)"
    using ok by (simp_all add: ui_ok_def)
  obtain ob x where ob: "ui_widgets u d = Some ob" "wo_parent ob = None" and x: "ui_dialogs u d = Some x"
    by (rule stack_okD[OF st d])
  obtain w where w: "deleteChildren n d ((ui_widgets u)(d \<mapsto> ob\<lparr>wo_beingDestroyed := True\<rparr>)) = Some (Inr w)"
    "leave_parent d w = Inr (pruned d (ui_widgets u))"
    by (rule dialog_widgets_deleted[OF hp ob n])
  let ?u0 = "u\<lparr>ui_widgets := (ui_widgets u)(d \<mapsto> ob\<lparr>wo_beingDestroyed := True\<rparr>)\<rparr>"
  have av: "all_valid (ui_events ?u0)" and x0: "ui_dialogs ?u0 d = Some x"
    and la0: "set_option (d_lastEvent x) \<subseteq> live (ui_events ?u0)"
    using la x by (auto simp: last_ok_def last_event_def split: option.splits)
  obtain h where h: "d_deleteEvent d (d_lastEvent x) ?u0 =
      Inr (?u0\<lparr>ui_dialogs := (ui_dialogs ?u0)(d \<mapsto> x\<lparr>d_lastEvent := None\<rparr>), ui_events := h\<rparr>)"
    "all_valid h" "live h = live (ui_events ?u0) - set_option (d_lastEvent x)"
    by (rule d_deleteEvent_last[OF av x0 la0])
  let ?u1 = "?u0\<lparr>ui_dialogs := (ui_dialogs ?u0)(d \<mapsto> x\<lparr>d_lastEvent := None\<rparr>), ui_events := h, ui_widgets := w\<rparr>"
  let ?u2 = "?u1\<lparr>ui_dialogs := (ui_dialogs ?u1)(d \<mapsto> x\<lparr>d_lastEvent := None, d_eventFilterList := []\<rparr>),
                  ui_filters := ui_filters ?u1 |` (- set (d_eventFilterList x))\<rparr>"
  have "deleteEventFilters d ?u1 = Some (Inr ?u2)"
    using fl x by (subst deleteEventFilters_all[where x = "x\<lparr>d_lastEvent := None\<rparr>"])
      (auto simp: filters_ok_def)
  then have "delete_dialog n d u = Some (Inr ((pop_stack d ?u2)\<lparr>ui_widgets := pruned d (ui_widgets u),
      ui_dialogs := (ui_dialogs (pop_stack d ?u2))(d := None)\<rparr>))"
    using ob(1) x h(1) w by (simp add: delete_dialog_def Let_def)
  moreover have "isTopmostDialog d ?u2 = isTopmostDialog d u" by (rule isTopmostDialog_stack) simp
  ultimately show thesis using that[OF _ x] h(2,3) by simp
qed

lemma is_dialog_pruned:
  assumes "heap_ok h" "\<And>c co. h c = Some co \<Longrightarrow> wo_kind co = KDialog \<Longrightarrow> wo_parent co = None"
  shows "is_dialog (pruned d h) c \<longleftrightarrow> is_dialog h c \<and> c \<noteq> d"
proof -
  have "c \<notin> subtree h d" if "is_dialog h c" "c \<noteq> d" for c
  proof
    assume "c \<in> subtree h d"
    with that(2) obtain p where "(p, c) \<in> kid_rel h" by (auto simp: subtree_def elim: rtranclE)
    then show False using that(1) assms(2) heap_okD(2)[OF assms(1)] by (auto simp: parent_rel_def is_dialog_def)
  qed
  then show ?thesis by (auto simp: is_dialog_def pruned_def split: if_splits)
qed

lemma stack_ok_pruned:
  assumes st: "stack_ok u" and hp: "heap_ok (ui_widgets u)" and top: "ui_stack u = d # ds"
    and u': "ui_widgets u' = pruned d (ui_widgets u)" "ui_dialogs u' = (ui_dialogs u)(d := None)" "ui_stack u' = ds"
  shows "stack_ok u'"
proof -
  have root: "\<And>c co. ui_widgets u c = Some co \<Longrightarrow> wo_kind co = KDialog \<Longrightarrow> wo_parent co = None"
    using st by (auto simp: stack_ok_def)
  have "is_dialog (ui_widgets u') c \<longleftrightarrow> is_dialog (ui_widgets u) c \<and> c \<noteq> d" for c
    unfolding u'(1) by (rule is_dialog_pruned[OF hp root])
  moreover have "wo_parent co = None" if "ui_widgets u' c = Some co" "wo_kind co = KDialog" for c co
    using that root by (auto simp: u'(1) pruned_def split: if_splits)
  ultimately show ?thesis using st top u'(2,3) by (auto simp: stack_ok_def)
qed

lemma filters_okD:
  assumes "filters_ok u"
  shows "ui_dialogs u d = Some x \<Longrightarrow> distinct (d_eventFilterList x)"
    "ui_dialogs u d = Some x \<Longrightarrow> f \<in> set (d_eventFilterList x) \<Longrightarrow> \<exists>y. ui_filters u f = Some y \<and> ef_dialog y = d"
    "ui_filters u f = Some y \<Longrightarrow> \<exists>x. ui_dialogs u (ef_dialog y) = Some x \<and> f \<in> set (d_eventFilterList x)"
  using assms unfolding filters_ok_def by blast+

lemma last_okD:
  assumes "last_ok u"
  shows "all_valid (ui_events u)" "last_event u d = Some e \<Longrightarrow> e \<in> live (ui_events u)"
    "last_event u d = Some e \<Longrightarrow> last_event u d' = Some e \<Longrightarrow> d = d'"
  using assms unfolding last_ok_def by (simp, metis elem_set subsetD, blast)

lemma last_okI:
  assumes "all_valid (ui_events u)" "\<And>d e. last_event u d = Some e \<Longrightarrow> e \<in> live (ui_events u)"
    "\<And>d d' e. last_event u d = Some e \<Longrightarrow> last_event u d' = Some e \<Longrightarrow> d = d'"
  shows "last_ok u"
proof -
  have "set_option (last_event u d) \<subseteq> live (ui_events u)" for d
    using assms(2)[of d] by (cases "last_event u d") auto
  then show ?thesis using assms(1,3) unfolding last_ok_def by blast
qed

lemma filters_ok_removed:
  assumes fl: "filters_ok u" and x: "ui_dialogs u d = Some x"
    and u': "ui_dialogs u' = (ui_dialogs u)(d := None)" "ui_filters u' = ui_filters u |` (- set (d_eventFilterList x))"
  shows "filters_ok u'"
proof -
  have other: "f \<notin> set (d_eventFilterList x)" if "ui_dialogs u c = Some y" "c \<noteq> d" "f \<in> set (d_eventFilterList y)" for c y f
    using filters_okD(2)[OF fl that(1,3)] filters_okD(2)[OF fl x, of f] that(2) by auto
  show ?thesis
    unfolding filters_ok_def u'
  proof (intro conjI allI impI ballI)
    fix c y assume "((ui_dialogs u)(d := None)) c = Some y"
    then have y: "ui_dialogs u c = Some y" "c \<noteq> d" by (auto split: if_splits)
    show "distinct (d_eventFilterList y)" by (rule filters_okD(1)[OF fl y(1)])
    fix f assume f: "f \<in> set (d_eventFilterList y)"
    then show "\<exists>z. (ui_filters u |` (- set (d_eventFilterList x))) f = Some z \<and> ef_dialog z = c"
      using filters_okD(2)[OF fl y(1) f] other[OF y f] by (simp add: restrict_map_def)
  next
    fix f z assume "(ui_filters u |` (- set (d_eventFilterList x))) f = Some z"
    then have z: "ui_filters u f = Some z" "f \<notin> set (d_eventFilterList x)" by (auto simp: restrict_map_def split: if_splits)
    then obtain y where "ui_dialogs u (ef_dialog z) = Some y" "f \<in> set (d_eventFilterList y)"
      using filters_okD(3)[OF fl] by blast
    then show "\<exists>y. ((ui_dialogs u)(d := None)) (ef_dialog z) = Some y \<and> f \<in> set (d_eventFilterList y)"
      using z x by auto
  qed
qed

lemma last_ok_removed:
  assumes la: "last_ok u" and x: "ui_dialogs u d = Some x"
    and u': "ui_dialogs u' = (ui_dialogs u)(d := None)" "all_valid (ui_events u')"
      "live (ui_events u') = live (ui_events u) - set_option (d_lastEvent x)"
  shows "last_ok u'"
proof -
  have le: "last_event u' c = (if c = d then None else last_event u c)" for c
    by (simp add: last_event_def u'(1))
  have ld: "last_event u d = d_lastEvent x" by (simp add: last_event_def x)
  show ?thesis
  proof (rule last_okI[OF u'(2)])
    fix c e assume "last_event u' c = Some e"
    then have c: "c \<noteq> d" "last_event u c = Some e" by (auto simp: le split: if_splits)
    then have "d_lastEvent x \<noteq> Some e" using last_okD(3)[OF la] ld by metis
    then show "e \<in> live (ui_events u')" using last_okD(2)[OF la c(2)] by (auto simp: u'(3))
  next
    fix c c' e assume "last_event u' c = Some e" "last_event u' c' = Some e"
    then show "c = c'" using last_okD(3)[OF la] by (auto simp: le split: if_splits)
  qed
qed

lemma delete_top_dialog:
  assumes ok: "ui_ok u" and top: "ui_stack u = d # ds" and n: "card (dom (ui_widgets u)) \<le> n"
  obtains u' x where "delete_dialog n d u = Some (Inr u')" "ui_ok u'" "ui_stack u' = ds"
    "ui_dialogs u d = Some x" "ui_dialogs u' = (ui_dialogs u)(d := None)"
    "live (ui_events u') = live (ui_events u) - set_option (d_lastEvent x)"
    "ui_widgets u' = pruned d (ui_widgets u)"
    "card (dom (ui_widgets u')) \<le> n"
proof -
  have d: "d \<in> set (ui_stack u)" and t: "isTopmostDialog d u" by (simp_all add: top isTopmostDialog_def)
  obtain u' x where u': "delete_dialog n d u = Some (Inr u')" "ui_dialogs u d = Some x"
    "ui_widgets u' = pruned d (ui_widgets u)" "all_valid (ui_events u')"
    "live (ui_events u') = live (ui_events u) - set_option (d_lastEvent x)"
    "ui_dialogs u' = (ui_dialogs u)(d := None)"
    "ui_filters u' = ui_filters u |` (- set (d_eventFilterList x))"
    "ui_stack u' = (if isTopmostDialog d u then tl (ui_stack u) else ui_stack u)"
    by (rule delete_dialog_parts[OF ok d n])
  have parts: "stack_ok u" "filters_ok u" "last_ok u" "heap_ok (ui_widgets u)" using ok by (simp_all add: ui_ok_def)
  have st: "ui_stack u' = ds" using u'(8) t top by simp
  have "ui_ok u'"
    unfolding ui_ok_def
    using stack_ok_pruned[OF parts(1,4) top u'(3,6) st] filters_ok_removed[OF parts(2) u'(2,6,7)]
      last_ok_removed[OF parts(3) u'(2,6,4,5)] pruned_ok[OF parts(4)] u'(3) by simp
  moreover have "dom (ui_widgets u') \<subseteq> dom (ui_widgets u)" by (auto simp: u'(3) pruned_def split: if_splits)
  then have "card (dom (ui_widgets u')) \<le> n"
    using card_mono[OF heap_okD(1)[OF parts(4)]] n by (meson le_trans)
  ultimately show thesis using that u'(1,2,3,5,6) st by blast
qed


section \<open>Loops over the stack\<close>

text \<open>Deleting creates no widgets and does not change what a widget is.\<close>

definition shrinks :: "ui \<Rightarrow> ui \<Rightarrow> bool" where
  "shrinks u v \<longleftrightarrow> (\<forall>c co. ui_widgets v c = Some co \<longrightarrow> (\<exists>co'. ui_widgets u c = Some co' \<and> wo_kind co' = wo_kind co))"

lemma shrinks_refl [simp]: "shrinks u u"
  by (simp add: shrinks_def)

lemma shrinks_trans: "shrinks u v \<Longrightarrow> shrinks v w \<Longrightarrow> shrinks u w"
  unfolding shrinks_def by metis

lemma shrinks_pruned: "ui_widgets v = pruned d (ui_widgets u) \<Longrightarrow> shrinks u v"
  by (auto simp: shrinks_def pruned_def split: if_splits)

lemma shrinks_card:
  assumes "shrinks u v" "ui_ok u" "card (dom (ui_widgets u)) \<le> n"
  shows "card (dom (ui_widgets v)) \<le> n"
proof -
  have "dom (ui_widgets v) \<subseteq> dom (ui_widgets u)"
  proof
    fix c assume "c \<in> dom (ui_widgets v)"
    with assms(1) show "c \<in> dom (ui_widgets u)" unfolding shrinks_def by blast
  qed
  moreover have "finite (dom (ui_widgets u))" using assms(2) heap_okD(1) by (simp add: ui_ok_def)
  ultimately have "card (dom (ui_widgets v)) \<le> card (dom (ui_widgets u))" by (intro card_mono)
  with assms(3) show ?thesis by simp
qed

lemma deleteAllDialogs_all:
  "ui_ok u \<Longrightarrow> card (dom (ui_widgets u)) \<le> n \<Longrightarrow> ui_stack u = ds \<Longrightarrow>
     \<exists>u'. deleteAllDialogs n u = Some (Inr u') \<and> ui_ok u' \<and> ui_stack u' = [] \<and> shrinks u u'"
proof (induction ds arbitrary: u)
  case Nil
  then show ?case by (subst deleteAllDialogs.simps) simp
next
  case (Cons d ds)
  obtain u1 where u1: "delete_dialog n d u = Some (Inr u1)" "ui_ok u1" "ui_stack u1 = ds"
    "card (dom (ui_widgets u1)) \<le> n" "ui_widgets u1 = pruned d (ui_widgets u)"
    by (rule delete_top_dialog[OF Cons.prems(1,3,2)])
  with Cons.IH[OF u1(2,4,3)] show ?case
    using Cons.prems(3) shrinks_trans[OF shrinks_pruned[OF u1(5)]] by (subst deleteAllDialogs.simps) auto
qed

text \<open>The dialogs above and including the target go, those below stay as they are.\<close>

lemma deleteTo_loop_found:
  "ui_ok u \<Longrightarrow> card (dom (ui_widgets u)) \<le> n \<Longrightarrow> ui_stack u = ds @ target # below \<Longrightarrow>
     \<exists>u'. deleteTo_loop n target u = Some (Inr (None, u')) \<and> ui_ok u' \<and> ui_stack u' = below
       \<and> ui_dialogs u' = ui_dialogs u |` set below \<and> shrinks u u'"
proof (induction ds arbitrary: u)
  case Nil
  then have st: "ui_stack u = target # below" by simp
  obtain u1 where u1: "delete_dialog n target u = Some (Inr u1)" "ui_ok u1" "ui_stack u1 = below"
    "ui_dialogs u1 = (ui_dialogs u)(target := None)" "ui_widgets u1 = pruned target (ui_widgets u)"
    by (rule delete_top_dialog[OF Nil.prems(1) st Nil.prems(2)])
  have "ui_dialogs u1 = ui_dialogs u |` set below"
  proof (rule ext)
    fix c
    have "dom (ui_dialogs u) = insert target (set below)" "target \<notin> set below"
      using Nil.prems(1) st by (auto simp: ui_ok_def stack_ok_def)
    then show "ui_dialogs u1 c = (ui_dialogs u |` set below) c"
      using domIff[of c "ui_dialogs u"] by (auto simp: u1(4) restrict_map_def)
  qed
  then show ?case using u1 st shrinks_pruned[OF u1(5)] by (subst deleteTo_loop.simps) simp
next
  case (Cons d ds)
  have st: "ui_stack u = d # ds @ target # below" using Cons.prems(3) by simp
  obtain u1 where u1: "delete_dialog n d u = Some (Inr u1)" "ui_ok u1" "ui_stack u1 = ds @ target # below"
    "ui_dialogs u1 = (ui_dialogs u)(d := None)" "card (dom (ui_widgets u1)) \<le> n"
    "ui_widgets u1 = pruned d (ui_widgets u)"
    by (rule delete_top_dialog[OF Cons.prems(1) st Cons.prems(2)])
  have ne: "d \<noteq> target" "d \<notin> set below" using Cons.prems(1) st by (auto simp: ui_ok_def stack_ok_def)
  have "ui_dialogs u1 |` set below = ui_dialogs u |` set below"
    using ne by (auto simp: u1(4) restrict_map_def fun_eq_iff)
  with Cons.IH[OF u1(2,5,3)] show ?case
    using u1(1) st ne(1) shrinks_trans[OF shrinks_pruned[OF u1(6)]] by (subst deleteTo_loop.simps) auto
qed

lemma deleteTo_loop_not_found:
  "ui_ok u \<Longrightarrow> card (dom (ui_widgets u)) \<le> n \<Longrightarrow> ui_stack u = ds \<Longrightarrow> target \<notin> set ds \<Longrightarrow>
     \<exists>u'. deleteTo_loop n target u = Some (Inr (Some YUIDialogStackingOrderException, u')) \<and> ui_ok u' \<and> ui_stack u' = []
       \<and> shrinks u u'"
proof (induction ds arbitrary: u)
  case Nil
  then show ?case by (subst deleteTo_loop.simps) simp
next
  case (Cons d ds)
  obtain u1 where u1: "delete_dialog n d u = Some (Inr u1)" "ui_ok u1" "ui_stack u1 = ds"
    "card (dom (ui_widgets u1)) \<le> n" "ui_widgets u1 = pruned d (ui_widgets u)"
    by (rule delete_top_dialog[OF Cons.prems(1,3,2)])
  with Cons.IH[OF u1(2,4,3)] Cons.prems(4) show ?case
    using Cons.prems(3) shrinks_trans[OF shrinks_pruned[OF u1(5)]] by (subst deleteTo_loop.simps) auto
qed

end
