(* ===== verification/Yui_DialogEvents.thy ===== *)
theory Yui_DialogEvents
  imports Yui_Dialog
begin

text \<open>
  Opening a dialog, waiting for an event and polling for one, on consistent states: the invariants
  of Yui\_Dialog are kept, and which events get through to the application.
\<close>

section \<open>Opening keeps the state consistent\<close>

text \<open>States that differ in the log and in what opening changes of a dialog.\<close>

definition links :: "YDialog \<Rightarrow> nat option \<times> nat list" where
  "links x = (d_lastEvent x, d_eventFilterList x)"

definition same_links :: "ui \<Rightarrow> ui \<Rightarrow> bool" where
  "same_links u v \<longleftrightarrow> ui_widgets v = ui_widgets u \<and> ui_events v = ui_events u \<and> ui_filters v = ui_filters u
     \<and> ui_stack v = ui_stack u \<and> (\<forall>d. map_option links (ui_dialogs v d) = map_option links (ui_dialogs u d))"

lemma same_links_refl [simp]: "same_links u u"
  by (simp add: same_links_def)

lemma same_links_trans: "same_links u v \<Longrightarrow> same_links v w \<Longrightarrow> same_links u w"
  by (simp add: same_links_def)

lemma same_links_emit [simp]: "same_links u (emit x u)"
  by (simp add: same_links_def emit_def)

lemma same_links_on_dialog:
  assumes "on_dialog d f u = Inr v" "\<And>x. links (f x) = links x"
  shows "same_links u v"
  using assms by (auto simp: on_dialog_Inr_iff same_links_def)

lemma same_links_dialog:
  assumes "same_links u v" "ui_dialogs v d = Some y"
  shows "\<exists>x. ui_dialogs u d = Some x \<and> links x = links y"
proof -
  have "map_option links (ui_dialogs u d) = Some (links y)"
    using assms by (metis same_links_def option.map(2))
  then show ?thesis by auto
qed

lemma same_links_sym: "same_links u v \<Longrightarrow> same_links v u"
  by (simp add: same_links_def)

lemma same_links_last: "same_links u v \<Longrightarrow> last_event v d = last_event u d"
  using same_links_dialog[of u v d] same_links_dialog[of v u d, OF same_links_sym]
  by (cases "ui_dialogs u d"; cases "ui_dialogs v d") (auto simp: last_event_def links_def)

lemma same_links_dom: "same_links u v \<Longrightarrow> dom (ui_dialogs v) = dom (ui_dialogs u)"
  using same_links_dialog[of u v] same_links_dialog[of v u, OF same_links_sym] by blast

lemma same_links_ok:
  assumes s: "same_links u v" and ok: "ui_ok u"
  shows "ui_ok v"
proof -
  have eq: "ui_widgets v = ui_widgets u" "ui_events v = ui_events u" "ui_filters v = ui_filters u"
    "ui_stack v = ui_stack u" "dom (ui_dialogs v) = dom (ui_dialogs u)"
    using s same_links_dom[OF s] by (simp_all add: same_links_def)
  have "stack_ok v" using ok unfolding ui_ok_def stack_ok_def eq by blast
  moreover have "last_ok v" using ok eq same_links_last[OF s] by (simp add: ui_ok_def last_ok_def)
  moreover have "filters_ok v"
  proof -
    have fl: "filters_ok u" using ok by (simp add: ui_ok_def)
    show ?thesis
      unfolding filters_ok_def eq
    proof (intro conjI allI impI ballI)
      fix d x assume x: "ui_dialogs v d = Some x"
      from same_links_dialog[OF s x] obtain y where y: "ui_dialogs u d = Some y" "d_eventFilterList y = d_eventFilterList x"
        by (auto simp: links_def)
      show "distinct (d_eventFilterList x)" using filters_okD(1)[OF fl y(1)] y(2) by simp
      fix f assume "f \<in> set (d_eventFilterList x)"
      then show "\<exists>z. ui_filters u f = Some z \<and> ef_dialog z = d" using filters_okD(2)[OF fl y(1)] y(2) by simp
    next
      fix f z assume "ui_filters u f = Some z"
      then obtain x where "ui_dialogs u (ef_dialog z) = Some x" "f \<in> set (d_eventFilterList x)"
        using filters_okD(3)[OF fl] by blast
      then show "\<exists>x. ui_dialogs v (ef_dialog z) = Some x \<and> f \<in> set (d_eventFilterList x)"
        using same_links_dialog[OF same_links_sym[OF s], of "ef_dialog z" x] by (auto simp: links_def)
    qed
  qed
  ultimately show ?thesis using ok eq by (simp add: ui_ok_def)
qed


lemma on_dialog_links:
  assumes "d \<in> dom (ui_dialogs u)" "\<And>x. links (f x) = links x"
  shows "\<exists>v. on_dialog d f u = Inr v \<and> same_links u v"
  using assms same_links_on_dialog[of d f u] on_dialog_Some by fastforce

lemma d_checkShortcuts_links:
  assumes "d \<in> dom (ui_dialogs u)"
  shows "\<exists>v. d_checkShortcuts d force u = Inr v \<and> same_links u v"
proof -
  obtain x where x: "ui_dialogs u d = Some x" using assms by auto
  have "d \<in> dom (ui_dialogs (emit (CheckShortcuts d) u))" using x by (auto simp: emit_def)
  from on_dialog_links[OF this, of "\<lambda>x. x\<lparr>d_shortcutCheckPostponed := False\<rparr>"]
  obtain v where "on_dialog d (\<lambda>x. x\<lparr>d_shortcutCheckPostponed := False\<rparr>) (emit (CheckShortcuts d) u) = Inr v"
    "same_links (emit (CheckShortcuts d) u) v" by (auto simp: links_def)
  then show ?thesis
    using x same_links_trans[OF same_links_emit] by (auto simp: d_checkShortcuts_def)
qed

lemma layout_pass_links:
  assumes "d \<in> dom (ui_dialogs u)"
  shows "\<exists>v. layout_pass d k u = Inr v \<and> same_links u v"
  using on_dialog_links[OF assms, of "\<lambda>x. x\<lparr>d_layoutPass := k\<rparr>"] same_links_trans[OF _ same_links_emit]
  by (fastforce simp: layout_pass_def links_def)

lemma doLayout_links:
  assumes "d \<in> dom (ui_dialogs u)"
  shows "\<exists>v. doLayout d u = Inr v \<and> same_links u v"
proof -
  obtain u1 where u1: "layout_pass d 1 u = Inr u1" "same_links u u1" using layout_pass_links[OF assms] by blast
  then obtain x where x: "ui_dialogs u1 d = Some x" using assms same_links_dom by blast
  have "\<exists>u2. (if d_multiPassLayout x then layout_pass d 2 u1 else Inr u1) = Inr u2 \<and> same_links u1 u2"
    using layout_pass_links[of d u1 2] x by (cases "d_multiPassLayout x") auto
  then obtain u2 where u2: "(if d_multiPassLayout x then layout_pass d 2 u1 else Inr u1) = Inr u2" "same_links u1 u2"
    by blast
  have "d \<in> dom (ui_dialogs u2)" using x same_links_dom[OF u2(2)] by blast
  from on_dialog_links[OF this, of "\<lambda>x. x\<lparr>d_layoutPass := 0\<rparr>"]
  obtain u3 where u3: "on_dialog d (\<lambda>x. x\<lparr>d_layoutPass := 0\<rparr>) u2 = Inr u3" "same_links u2 u3" by (auto simp: links_def)
  have "same_links u u3" by (rule same_links_trans[OF u1(2) same_links_trans[OF u2(2) u3(2)]])
  moreover have "doLayout d u = Inr u3" using u1(1) x u2(1) u3(1) by (simp add: doLayout_def)
  ultimately show ?thesis by blast
qed

lemma open_dialog_links:
  assumes "d \<in> dom (ui_dialogs u)"
  shows "\<exists>v. open_dialog d u = Inr v \<and> same_links u v"
proof -
  obtain x where x: "ui_dialogs u d = Some x" using assms by auto
  obtain u1 where u1: "d_checkShortcuts d False u = Inr u1" "same_links u u1"
    using d_checkShortcuts_links[OF assms] by blast
  obtain u2 where u2: "doLayout d u1 = Inr u2" "same_links u1 u2"
    using doLayout_links[of d u1] assms same_links_dom[OF u1(2)] by blast
  let ?u2 = "emit (OpenInternal d) u2"
  have "d \<in> dom (ui_dialogs ?u2)"
    using assms same_links_dom[OF u1(2)] same_links_dom[OF u2(2)] same_links_dom[OF same_links_emit] by blast
  from on_dialog_links[OF this, of "\<lambda>x. x\<lparr>d_isOpen := True\<rparr>"]
  obtain u3 where u3: "on_dialog d (\<lambda>x. x\<lparr>d_isOpen := True\<rparr>) ?u2 = Inr u3" "same_links ?u2 u3" by (auto simp: links_def)
  have "same_links u u3"
    using same_links_trans[OF u1(2) same_links_trans[OF u2(2) same_links_trans[OF same_links_emit u3(2)]]] .
  then show ?thesis using x u1(1) u2(1) u3(1) by (cases "d_isOpen x") (auto simp: open_dialog_def)
qed

section \<open>Which events get through\<close>

text \<open>
  While a dialog waits only the memory of events and the log change.
\<close>

definition event_step :: "nat set \<Rightarrow> ui \<Rightarrow> ui \<Rightarrow> bool" where
  "event_step gone u v \<longleftrightarrow>
     (\<exists>h l. v = u\<lparr>ui_events := h, ui_log := l\<rparr> \<and> all_valid h
        \<and> eh_events h = eh_events (ui_events u) |` (- gone))"

lemma event_step_refl: "all_valid (ui_events u) \<Longrightarrow> event_step {} u u"
  unfolding event_step_def
  by (intro exI[of _ "ui_events u"] exI[of _ "ui_log u"]) (simp add: restrict_map_def fun_eq_iff)

lemma event_step_trans:
  assumes "event_step A u v" "event_step B v w"
  shows "event_step (A \<union> B) u w"
proof -
  obtain h l where v: "v = u\<lparr>ui_events := h, ui_log := l\<rparr>" "eh_events h = eh_events (ui_events u) |` (- A)"
    using assms(1) by (auto simp: event_step_def)
  obtain k m where w: "w = v\<lparr>ui_events := k, ui_log := m\<rparr>" "all_valid k" "eh_events k = eh_events (ui_events v) |` (- B)"
    using assms(2) by (auto simp: event_step_def)
  have "eh_events k = eh_events (ui_events u) |` (- (A \<union> B))" using v w(3) by simp
  moreover have "w = u\<lparr>ui_events := k, ui_log := m\<rparr>" using v(1) w(1) by simp
  ultimately show ?thesis using w(2) unfolding event_step_def by blast
qed

lemma event_step_emit: "all_valid (ui_events u) \<Longrightarrow> event_step {} u (emit x u)"
  unfolding event_step_def
  by (intro exI[of _ "ui_events u"] exI[of _ "ui_log u @ [x]"]) (simp add: restrict_map_def fun_eq_iff emit_def)

lemma event_step_parts:
  assumes "event_step gone u v"
  shows "ui_widgets v = ui_widgets u" "ui_dialogs v = ui_dialogs u" "ui_filters v = ui_filters u"
    "ui_stack v = ui_stack u" "all_valid (ui_events v)"
    "eh_events (ui_events v) = eh_events (ui_events u) |` (- gone)" "live (ui_events v) = live (ui_events u) - gone"
  using assms by (auto simp: event_step_def live_def restrict_map_def split: if_splits)

text \<open>Dropping an event that is in memory and not the last event of the dialog.\<close>

lemma d_deleteEvent_step:
  assumes "all_valid (ui_events u)" "d \<in> dom (ui_dialogs u)" "last_event u d \<noteq> Some e" "e \<in> live (ui_events u)"
  shows "\<exists>v. d_deleteEvent d (Some e) u = Inr v \<and> event_step {e} u v"
proof -
  obtain x where x: "ui_dialogs u d = Some x" "Some e \<noteq> d_lastEvent x"
    using assms(2,3) by (auto simp: last_event_def)
  let ?h = "(ui_events u)\<lparr>eh_events := (eh_events (ui_events u))(e := None)\<rparr>"
  have f: "free_event e (ui_events u) = Inr ?h" by (rule live_free(1)[OF assms(4)])
  have "(ui_dialogs u)(d \<mapsto> x) = ui_dialogs u" using x(1) by (simp add: map_upd_triv)
  then have "d_deleteEvent d (Some e) u = Inr (u\<lparr>ui_events := ?h\<rparr>)"
    using x f by (simp add: d_deleteEvent_def on_dialog_Some)
  moreover have "event_step {e} u (u\<lparr>ui_events := ?h\<rparr>)"
    unfolding event_step_def using free_all_valid[OF assms(1) f]
    by (intro exI[of _ ?h] exI[of _ "ui_log u"]) (simp add: restrict_map_def fun_eq_iff)
  ultimately show ?thesis by blast
qed


text \<open>The event has no widget, or its widget lives and belongs to the dialog.\<close>

definition belongs :: "ui \<Rightarrow> nat \<Rightarrow> nat \<Rightarrow> bool" where
  "belongs u d e \<longleftrightarrow> (\<forall>x w. eh_events (ui_events u) e = Some x \<and> event_widget x = Some w \<longrightarrow>
     ui_widgets u w \<noteq> None \<and> findDialog (ui_widgets u) (Some w) = Some (Inr (Some d)))"

lemma belongs_step: "event_step gone u v \<Longrightarrow> e \<notin> gone \<Longrightarrow> belongs v d e \<longleftrightarrow> belongs u d e"
  by (simp add: belongs_def event_step_parts restrict_map_def)

text \<open>The widget of the event, if it has one, is in memory.\<close>

definition widget_alive :: "wheap \<Rightarrow> eheap \<Rightarrow> nat \<Rightarrow> bool" where
  "widget_alive ws h e \<longleftrightarrow> (\<forall>x w. eh_events h e = Some x \<and> event_widget x = Some w \<longrightarrow> ws w \<noteq> None)"

lemma widget_alive_cong: "eh_events h e = eh_events g e \<Longrightarrow> widget_alive ws h e \<longleftrightarrow> widget_alive ws g e"
  by (simp add: widget_alive_def)

lemma belongs_alive: "belongs u d e \<Longrightarrow> widget_alive (ui_widgets u) (ui_events u) e"
  by (auto simp: belongs_def widget_alive_def)

lemma filterInvalidEvents_step:
  assumes hp: "heap_ok (ui_widgets u)" and v: "all_valid (ui_events u)" and d: "d \<in> dom (ui_dialogs u)"
    and e: "last_event u d \<noteq> Some e" "e \<in> live (ui_events u)" and wa: "widget_alive (ui_widgets u) (ui_events u) e"
  shows "\<exists>r v. filterInvalidEvents d (Some e) u = Some (Inr (r, v))
    \<and> (r = Some e \<and> event_step {} u v \<and> belongs u d e \<or> r = None \<and> event_step {e} u v)"
proof -
  obtain x where x: "eh_events (ui_events u) e = Some x" using e(2) by (auto simp: live_def)
  have "\<exists>v2. d_deleteEvent d (Some e) (emit (Activate d) u) = Inr v2 \<and> event_step {e} (emit (Activate d) u) v2"
    using d_deleteEvent_step[of "emit (Activate d) u" d e] v d e by (simp add: emit_def last_event_def)
  then obtain v2 where v2: "d_deleteEvent d (Some e) (emit (Activate d) u) = Inr v2" "event_step {e} u v2"
    using event_step_trans[OF event_step_emit[OF v]] by fastforce
  show ?thesis
  proof (cases "event_widget x")
    case None
    then show ?thesis
      using x event_step_refl[OF v] by (auto simp: filterInvalidEvents_def belongs_def simp del: event_widget.simps)
  next
    case (Some w)
    then obtain ob where ob: "ui_widgets u w = Some ob" using wa x by (auto simp: widget_alive_def)
    then obtain as where "up_path (ui_widgets u) (Some w) as" using up_path_exists[OF hp] by blast
    then obtain dlg where dlg: "findDialog (ui_widgets u) (Some w) = Some (Inr dlg)" using findDialog_up by blast
    show ?thesis
      using x Some ob dlg v2 event_step_refl[OF v]
      by (cases "dlg = Some d") (auto simp: filterInvalidEvents_def belongs_def simp del: event_widget.simps)
  qed
qed

text \<open>
  The filters of an application as the documentation of \<^verbatim>\<open>YEventFilter::filter\<close> has them: they consume
  the event, pass it on, or return a newly created one in its place. Other widgets than those in
  memory are not put into a new event.
\<close>

definition documented :: "wheap \<Rightarrow> app_filters \<Rightarrow> bool" where
  "documented ws app \<longleftrightarrow> (\<forall>f e h. e \<in> live h \<longrightarrow>
     app f e h = (None, h) \<or> app f e h = (Some e, h)
     \<or> (\<exists>a ty cls dlg. a \<notin> dom (eh_events h) \<and> ty \<noteq> InvalidEvent
          \<and> app f e h = (Some a, new_YEvent a ty cls dlg h) \<and> widget_alive ws (new_YEvent a ty cls dlg h) a))"

definition made :: "app_filters \<Rightarrow> nat \<Rightarrow> bool" where
  "made app e \<longleftrightarrow> (\<exists>f e0 h. e0 \<in> live h \<and> e \<notin> dom (eh_events h) \<and> fst (app f e0 h) = Some e)"

text \<open>An event \<open>a\<close> is created, those of \<open>gone\<close> are freed.\<close>

definition event_new :: "nat set \<Rightarrow> nat \<Rightarrow> ui \<Rightarrow> ui \<Rightarrow> bool" where
  "event_new gone a u v \<longleftrightarrow>
     (\<exists>h l y. v = u\<lparr>ui_events := h, ui_log := l\<rparr> \<and> all_valid h
        \<and> eh_events h = (eh_events (ui_events u) |` (- gone))(a \<mapsto> y)
        \<and> (a \<in> gone \<or> eh_events (ui_events u) a = None) \<and> widget_alive (ui_widgets u) h a)"

lemma event_new_parts:
  assumes "event_new gone a u v"
  shows "ui_widgets v = ui_widgets u" "ui_dialogs v = ui_dialogs u" "ui_filters v = ui_filters u"
    "ui_stack v = ui_stack u" "all_valid (ui_events v)" "widget_alive (ui_widgets v) (ui_events v) a"
    "live (ui_events v) = insert a (live (ui_events u) - gone)" "a \<in> gone \<or> a \<notin> live (ui_events u)"
proof -
  obtain h l y where h: "v = u\<lparr>ui_events := h, ui_log := l\<rparr>" "all_valid h"
    "eh_events h = (eh_events (ui_events u) |` (- gone))(a \<mapsto> y)" "a \<in> gone \<or> eh_events (ui_events u) a = None"
    "widget_alive (ui_widgets u) h a" using assms by (auto simp: event_new_def)
  show "ui_widgets v = ui_widgets u" "ui_dialogs v = ui_dialogs u" "ui_filters v = ui_filters u"
    "ui_stack v = ui_stack u" "all_valid (ui_events v)" "widget_alive (ui_widgets v) (ui_events v) a"
    using h by simp_all
  have "eh_events h a = Some y" using h(3) by simp
  then have "isValidEvent y" using h(2) unfolding all_valid_def by blast
  then show "live (ui_events v) = insert a (live (ui_events u) - gone)"
    by (auto simp: h(1,3) live_def restrict_map_def split: if_splits)
  show "a \<in> gone \<or> a \<notin> live (ui_events u)" using h(4) by (auto simp: live_def)
qed

lemma event_new_step:
  assumes "event_new A a u v" "event_step B v w" "a \<notin> B"
  shows "event_new (A \<union> B) a u w"
proof -
  obtain h l y where v: "v = u\<lparr>ui_events := h, ui_log := l\<rparr>" "eh_events h = (eh_events (ui_events u) |` (- A))(a \<mapsto> y)"
    "a \<in> A \<or> eh_events (ui_events u) a = None" "widget_alive (ui_widgets u) h a"
    using assms(1) by (auto simp: event_new_def)
  obtain k m where w: "w = v\<lparr>ui_events := k, ui_log := m\<rparr>" "all_valid k" "eh_events k = eh_events (ui_events v) |` (- B)"
    using assms(2) by (auto simp: event_step_def)
  have "eh_events k = (eh_events (ui_events u) |` (- (A \<union> B)))(a \<mapsto> y)"
    using v(1,2) w(3) assms(3) by (auto simp: restrict_map_def fun_eq_iff)
  moreover have "eh_events k a = eh_events h a" using v(1) w(3) assms(3) by (simp add: restrict_map_def)
  then have "widget_alive (ui_widgets u) k a" using v(4) widget_alive_cong by blast
  moreover have "w = u\<lparr>ui_events := k, ui_log := m\<rparr>" using v(1) w(1) by simp
  ultimately show ?thesis using w(2) v(3) unfolding event_new_def by blast
qed

lemma event_new_gone:
  assumes "event_new A a u v" "event_step {a} v w"
  shows "event_step A u w"
proof -
  obtain h l y where v: "v = u\<lparr>ui_events := h, ui_log := l\<rparr>" "eh_events h = (eh_events (ui_events u) |` (- A))(a \<mapsto> y)"
    "a \<in> A \<or> eh_events (ui_events u) a = None"
    using assms(1) by (auto simp: event_new_def)
  obtain k m where w: "w = v\<lparr>ui_events := k, ui_log := m\<rparr>" "all_valid k" "eh_events k = eh_events (ui_events v) |` (- {a})"
    using assms(2) by (auto simp: event_step_def)
  have "eh_events k = eh_events (ui_events u) |` (- A)"
    using v w(3) by (auto simp: restrict_map_def fun_eq_iff)
  moreover have "w = u\<lparr>ui_events := k, ui_log := m\<rparr>" using v(1) w(1) by simp
  ultimately show ?thesis using w(2) unfolding event_step_def by blast
qed

lemma event_new_new:
  assumes "event_new A a u v" "event_new {a} b v w"
  shows "event_new A b u w"
proof -
  obtain h l y where v: "v = u\<lparr>ui_events := h, ui_log := l\<rparr>" "eh_events h = (eh_events (ui_events u) |` (- A))(a \<mapsto> y)"
    "a \<in> A \<or> eh_events (ui_events u) a = None"
    using assms(1) by (auto simp: event_new_def)
  obtain k m z where w: "w = v\<lparr>ui_events := k, ui_log := m\<rparr>" "all_valid k"
    "eh_events k = (eh_events (ui_events v) |` (- {a}))(b \<mapsto> z)"
    "b = a \<or> eh_events (ui_events v) b = None" "widget_alive (ui_widgets v) k b"
    using assms(2) by (auto simp: event_new_def)
  have "eh_events k = (eh_events (ui_events u) |` (- A))(b \<mapsto> z)"
    using v w(3) by (auto simp: restrict_map_def fun_eq_iff)
  moreover have "b \<in> A \<or> eh_events (ui_events u) b = None"
    using w(4) v by (auto simp: restrict_map_def split: if_splits)
  moreover have "w = u\<lparr>ui_events := k, ui_log := m\<rparr>" "widget_alive (ui_widgets u) k b" using v(1) w(1,5) by simp_all
  ultimately show ?thesis using w(2) unfolding event_new_def by blast
qed

lemma event_step_new:
  assumes "event_step A u v" "event_new B a v w"
  shows "event_new (A \<union> B) a u w"
proof -
  obtain h l where v: "v = u\<lparr>ui_events := h, ui_log := l\<rparr>" "eh_events h = eh_events (ui_events u) |` (- A)"
    using assms(1) by (auto simp: event_step_def)
  obtain k m z where w: "w = v\<lparr>ui_events := k, ui_log := m\<rparr>" "all_valid k"
    "eh_events k = (eh_events (ui_events v) |` (- B))(a \<mapsto> z)"
    "a \<in> B \<or> eh_events (ui_events v) a = None" "widget_alive (ui_widgets v) k a"
    using assms(2) by (auto simp: event_new_def)
  have "eh_events k = (eh_events (ui_events u) |` (- (A \<union> B)))(a \<mapsto> z)" using v w(3) by simp
  moreover have "a \<in> A \<union> B \<or> eh_events (ui_events u) a = None"
    using w(4) v by (auto simp: restrict_map_def split: if_splits)
  moreover have "w = u\<lparr>ui_events := k, ui_log := m\<rparr>" "widget_alive (ui_widgets u) k a" using v(1) w(1,5) by simp_all
  ultimately show ?thesis using w(2) unfolding event_new_def by blast
qed

text \<open>What has become of an event after the filters: freed, passed on, or replaced by a new one.\<close>

definition turned :: "app_filters \<Rightarrow> nat \<Rightarrow> nat option \<Rightarrow> ui \<Rightarrow> ui \<Rightarrow> bool" where
  "turned app e r u v \<longleftrightarrow> r = None \<and> event_step {e} u v \<or> r = Some e \<and> event_step {} u v
     \<or> (\<exists>a. r = Some a \<and> made app a \<and> event_new {e} a u v)"

lemma turned_later:
  assumes "event_step {} u v" "turned app e r v w"
  shows "turned app e r u w"
  using assms event_step_trans[OF assms(1), of "{e}" w] event_step_trans[OF assms(1), of "{}" w]
    event_step_new[OF assms(1), of "{e}" _ w] by (auto simp: turned_def)

lemma turned_new:
  assumes n: "event_new {e} a u v" "made app a" and t: "turned app a r v w"
  shows "turned app e r u w"
proof -
  have "event_new {e} a u w" if "event_step {} v w" using event_new_step[OF n(1) that] by simp
  then show ?thesis
    using t n(2) event_new_gone[OF n(1), of w] event_new_new[OF n(1), of _ w] by (auto simp: turned_def)
qed

lemma button_filter_step:
  assumes v: "all_valid (ui_events u)" and e: "e \<in> live (ui_events u)" "widget_alive (ui_widgets u) (ui_events u) e"
    and s: "\<And>w. ui_widgets u w \<noteq> None \<Longrightarrow> \<exists>shown u1. show_it w u = Some (Inr (shown, u1)) \<and> event_step {} u u1"
  shows "\<exists>r u1. button_filter wanted show_it e u = Some (Inr (r, u1)) \<and> r \<in> {Some e, None} \<and> event_step {} u u1"
proof -
  obtain x where x: "eh_events (ui_events u) e = Some x" using e by (auto simp: live_def)
  note r = event_step_refl[OF v]
  show ?thesis
  proof (cases "event_widget x")
    case None
    then show ?thesis using x r by (simp add: button_filter_def del: event_widget.simps)
  next
    case (Some w)
    then obtain ob where ob: "ui_widgets u w = Some ob" using e(2) x by (auto simp: widget_alive_def)
    from s[of w] ob obtain shown u1 where "show_it w u = Some (Inr (shown, u1))" "event_step {} u u1" by auto
    then show ?thesis
      using x Some ob r by (cases "wo_kind ob") (auto simp: button_filter_def simp del: event_widget.simps)
  qed
qed

lemma show_help_step:
  assumes "heap_ok (ui_widgets u)" "all_valid (ui_events u)" "ui_widgets u w \<noteq> None"
  shows "\<exists>shown u1. show_help w u = Some (Inr (shown, u1)) \<and> event_step {} u u1"
proof -
  obtain as where "up_path (ui_widgets u) (Some w) as" using up_path_exists[OF assms(1), of w] assms(3) by blast
  from find_helpText_up[OF this, of "[]"] obtain t where "find_helpText (ui_widgets u) (Some w) [] = Some (Inr t)" by blast
  then show ?thesis
    using event_step_refl[OF assms(2)] event_step_emit[OF assms(2)] by (auto simp: show_help_def showHelpText_def)
qed

text \<open>A filter of the application: a new event does not replace the old one yet.\<close>

lemma app_filter_step:
  assumes v: "all_valid (ui_events u)" and e: "e \<in> live (ui_events u)" and app: "documented (ui_widgets u) app"
    and f: "app f e (ui_events u) = (r, h)"
  shows "r \<in> {Some e, None} \<and> event_step {} u (u\<lparr>ui_events := h\<rparr>)
    \<or> (\<exists>a. r = Some a \<and> a \<noteq> e \<and> made app a \<and> event_new {} a u (u\<lparr>ui_events := h\<rparr>))"
proof -
  consider "r = None" "h = ui_events u" | "r = Some e" "h = ui_events u"
    | a ty cls dlg where "a \<notin> dom (eh_events (ui_events u))" "ty \<noteq> InvalidEvent" "r = Some a"
        "h = new_YEvent a ty cls dlg (ui_events u)" "widget_alive (ui_widgets u) (new_YEvent a ty cls dlg (ui_events u)) a"
  proof -
    let ?h = "ui_events u"
    from app[unfolded documented_def, rule_format, OF e, of f] f
    have "(r, h) = (None, ?h) \<or> (r, h) = (Some e, ?h) \<or> (\<exists>a ty cls dlg. a \<notin> dom (eh_events ?h) \<and> ty \<noteq> InvalidEvent
      \<and> (r, h) = (Some a, new_YEvent a ty cls dlg ?h) \<and> widget_alive (ui_widgets u) (new_YEvent a ty cls dlg ?h) a)" by simp
    then show thesis using that by blast
  qed
  then show ?thesis
  proof cases
    case 3
    have "made app a" using 3(1,3) e f unfolding made_def by (intro exI[of _ f] exI[of _ e] exI[of _ "ui_events u"]) simp
    moreover have "event_new {} a u (u\<lparr>ui_events := h\<rparr>)"
      unfolding event_new_def using 3 new_all_valid[OF v 3(2)]
      by (intro exI[of _ h] exI[of _ "ui_log u"]) (auto simp: new_YEvent_def restrict_map_def fun_eq_iff)
    moreover have "a \<noteq> e" using 3(1) e by (auto simp: live_def)
    ultimately show ?thesis using 3(3) by blast
  qed (use event_step_refl[OF v] in simp_all)
qed

lemma run_filter_step:
  assumes hp: "heap_ok (ui_widgets u)" and v: "all_valid (ui_events u)"
    and e: "e \<in> live (ui_events u)" "widget_alive (ui_widgets u) (ui_events u) e"
    and f: "ui_filters u f \<noteq> None" and app: "documented (ui_widgets u) app"
  shows "\<exists>r u1. run_filter relnotes app f e u = Some (Inr (r, u1)) \<and> (r \<in> {Some e, None} \<and> event_step {} u u1
    \<or> (\<exists>a. r = Some a \<and> a \<noteq> e \<and> made app a \<and> event_new {} a u u1))"
proof -
  obtain y where y: "ui_filters u f = Some y" using f by auto
  show ?thesis
  proof (cases "ef_kind y")
    case YHelpButtonHandler
    have "\<exists>r u1. button_filter (\<lambda>isHelp _. isHelp) show_help e u = Some (Inr (r, u1)) \<and> r \<in> {Some e, None} \<and> event_step {} u u1"
      by (rule button_filter_step[OF v e]) (rule show_help_step[OF hp v])
    moreover have "run_filter relnotes app f e u = button_filter (\<lambda>isHelp _. isHelp) show_help e u"
      using y YHelpButtonHandler by (simp add: run_filter_def)
    ultimately show ?thesis by metis
  next
    case YRelNotesButtonHandler
    have "\<exists>shown u1. show_relnotes relnotes w u = Some (Inr (shown, u1)) \<and> event_step {} u u1" for w
      using event_step_refl[OF v] event_step_emit[OF v] by (simp add: show_relnotes_def)
    then have "\<exists>r u1. button_filter (\<lambda>_ isRelNotes. isRelNotes) (show_relnotes relnotes) e u = Some (Inr (r, u1))
        \<and> r \<in> {Some e, None} \<and> event_step {} u u1"
      by (intro button_filter_step[OF v e])
    moreover have "run_filter relnotes app f e u = button_filter (\<lambda>_ isRelNotes. isRelNotes) (show_relnotes relnotes) e u"
      using y YRelNotesButtonHandler by (simp add: run_filter_def)
    ultimately show ?thesis by metis
  next
    case AppFilter
    obtain r h where r: "app f e (ui_events u) = (r, h)" by fastforce
    then have "run_filter relnotes app f e u = Some (Inr (r, u\<lparr>ui_events := h\<rparr>))"
      using AppFilter y by (simp add: run_filter_def)
    with app_filter_step[OF v e(1) app r] show ?thesis by metis
  qed
qed

lemma call_filters_step:
  assumes "heap_ok (ui_widgets u)" "all_valid (ui_events u)" "d \<in> dom (ui_dialogs u)"
    "\<And>l. last_event u d = Some l \<Longrightarrow> l \<in> live (ui_events u) - {e}"
    "e \<in> live (ui_events u)" "widget_alive (ui_widgets u) (ui_events u) e" "documented (ui_widgets u) app"
    "\<forall>f\<in>set fs. ui_filters u f \<noteq> None"
  shows "\<exists>r v. call_filters relnotes app d fs e u = Some (Inr (r, v)) \<and> turned app e r u v"
  using assms
proof (induction fs arbitrary: e u)
  case Nil
  then show ?case using event_step_refl by (auto simp: turned_def)
next
  case (Cons f fs)
  have le: "last_event u d \<noteq> Some e" using Cons.prems(4) by auto
  obtain r u1 where r: "run_filter relnotes app f e u = Some (Inr (r, u1))" and
    o: "r \<in> {Some e, None} \<and> event_step {} u u1 \<or> (\<exists>a. r = Some a \<and> a \<noteq> e \<and> made app a \<and> event_new {} a u u1)"
    using run_filter_step[OF Cons.prems(1,2,5,6) _ Cons.prems(7)] Cons.prems(8) by (meson list.set_intros(1))
  from o consider "r = None" "event_step {} u u1" | "r = Some e" "event_step {} u u1"
    | a where "r = Some a" "a \<noteq> e" "made app a" "event_new {} a u u1" by auto
  then show ?case
  proof cases
    case 1
    note p = event_step_parts[OF 1(2)]
    obtain v where "d_deleteEvent d (Some e) u1 = Inr v" "event_step {e} u1 v"
      using d_deleteEvent_step[of u1 d e] Cons.prems(3,5) le p by (auto simp: last_event_def)
    then show ?thesis using r 1(1) event_step_trans[OF 1(2)] by (fastforce simp: turned_def)
  next
    case 2
    note p = event_step_parts[OF 2(2)]
    have "\<exists>r v. call_filters relnotes app d fs e u1 = Some (Inr (r, v)) \<and> turned app e r u1 v"
      by (rule Cons.IH) (use Cons.prems p in \<open>auto simp: last_event_def widget_alive_def restrict_map_def\<close>)
    then show ?thesis using r 2(1) turned_later[OF 2(2)] by fastforce
  next
    case 3
    note p = event_new_parts[OF 3(4)]
    obtain v where v: "d_deleteEvent d (Some e) u1 = Inr v" "event_step {e} u1 v"
      using d_deleteEvent_step[of u1 d e] Cons.prems(3,5) le p by (auto simp: last_event_def)
    note q = event_step_parts[OF v(2)]
    have n: "event_new {e} a u v" using event_new_step[OF 3(4) v(2)] 3(2) by simp
    note n' = event_new_parts[OF n]
    have "\<exists>r w. call_filters relnotes app d fs a v = Some (Inr (r, w)) \<and> turned app a r v w"
      by (rule Cons.IH) (use Cons.prems n' 3(2) in \<open>auto simp: last_event_def\<close>)
    then show ?thesis using r 3(1,2) v(1) turned_new[OF n 3(3)] by fastforce
  qed
qed

text \<open>Filtering as a whole: an event that is not let through is freed.\<close>

definition filtered :: "app_filters \<Rightarrow> nat \<Rightarrow> nat option \<Rightarrow> nat option \<Rightarrow> ui \<Rightarrow> ui \<Rightarrow> bool" where
  "filtered app d event r u v \<longleftrightarrow> r = None \<and> event_step (set_option event) u v
     \<or> (\<exists>e a. event = Some e \<and> r = Some a \<and> belongs u d e
          \<and> (a = e \<and> event_step {} u v \<or> made app a \<and> event_new {e} a u v))"

lemma turned_filtered: "turned app e r u v \<Longrightarrow> belongs u d e \<Longrightarrow> filtered app d (Some e) r u v"
  by (auto simp: turned_def filtered_def)

lemma filter_event:
  assumes hp: "heap_ok (ui_widgets u)" and v: "all_valid (ui_events u)" and x: "ui_dialogs u d = Some x"
    and fl: "\<forall>f\<in>set (d_eventFilterList x). ui_filters u f \<noteq> None" and app: "documented (ui_widgets u) app"
    and l: "set_option (last_event u d) \<subseteq> live (ui_events u)"
    and e: "\<And>e. event = Some e \<Longrightarrow> last_event u d \<noteq> Some e \<and> e \<in> live (ui_events u)
      \<and> widget_alive (ui_widgets u) (ui_events u) e"
  shows "\<exists>r u1 r' v. filterInvalidEvents d event u = Some (Inr (r, u1))
    \<and> callEventFilters relnotes app d r u1 = Some (Inr (r', v)) \<and> filtered app d event r' u v"
proof (cases event)
  case None
  then show ?thesis
    using event_step_refl[OF v] by (simp add: filterInvalidEvents_def callEventFilters_def filtered_def)
next
  case (Some e)
  have d: "d \<in> dom (ui_dialogs u)" using x by auto
  obtain r u1 where r: "filterInvalidEvents d (Some e) u = Some (Inr (r, u1))"
    "r = Some e \<and> event_step {} u u1 \<and> belongs u d e \<or> r = None \<and> event_step {e} u u1"
    using filterInvalidEvents_step[OF hp v d] assms(7)[OF Some] by blast
  show ?thesis
  proof (cases r)
    case None
    then show ?thesis using r \<open>event = Some e\<close> by (simp add: callEventFilters_def filtered_def)
  next
    case (Some e')
    then have s: "r = Some e" "event_step {} u u1" "belongs u d e" using r(2) by auto
    note p = event_step_parts[OF s(2)]
    have "\<exists>r' v. call_filters relnotes app d (d_eventFilterList x) e u1 = Some (Inr (r', v)) \<and> turned app e r' u1 v"
      by (rule call_filters_step)
        (use hp x l assms(7)[OF \<open>event = Some e\<close>] fl app p in \<open>auto simp: last_event_def widget_alive_def restrict_map_def\<close>)
    then obtain r' v where c: "call_filters relnotes app d (d_eventFilterList x) e u1 = Some (Inr (r', v))"
      "turned app e r' u1 v" by blast
    then show ?thesis
      using r(1) s(1) x p(2) \<open>event = Some e\<close> turned_filtered[OF turned_later[OF s(2) c(2)] s(3)]
      by (auto simp: callEventFilters_def)
  qed
qed

definition in_flight :: "nat option list \<Rightarrow> nat set" where
  "in_flight evs = {e. Some e \<in> set evs}"

lemma in_flight_simps [simp]:
  "in_flight [] = {}" "in_flight (ev # evs) = set_option ev \<union> in_flight evs"
  by (auto simp: in_flight_def)

definition distinct_events :: "nat option list \<Rightarrow> bool" where
  "distinct_events evs \<longleftrightarrow> distinct (filter (\<lambda>ev. ev \<noteq> None) evs)"

lemma distinct_events_Cons:
  "distinct_events (ev # evs) \<Longrightarrow> distinct_events evs \<and> set_option ev \<inter> in_flight evs = {}"
  by (auto simp: distinct_events_def in_flight_def split: if_splits)

text \<open>
  The end of the loop: nothing got through and all events are freed, or the event \<open>a\<close> after \<open>pre\<close> got
  through, as it is or replaced by a filter, those of \<open>pre\<close> are freed and the dialog owns the event.
\<close>

definition waited :: "app_filters \<Rightarrow> nat \<Rightarrow> YDialog \<Rightarrow> nat option list \<Rightarrow> ui \<Rightarrow> nat option \<Rightarrow> ui \<Rightarrow> bool" where
  "waited app d x evs u r v \<longleftrightarrow>
     (case r of
        None \<Rightarrow> event_step (in_flight evs) u v
      | Some e \<Rightarrow> \<exists>pre a post w. evs = pre @ Some a # post \<and> belongs u d a
          \<and> (e = a \<and> event_step (in_flight pre) u w \<or> made app e \<and> event_new (in_flight pre \<union> {a}) e u w)
          \<and> v = w\<lparr>ui_dialogs := (ui_dialogs w)(d \<mapsto> x\<lparr>d_lastEvent := Some e\<rparr>)\<rparr>)"

lemma waited_here:
  assumes "filtered app d ev (Some e) u w"
  shows "waited app d x (ev # evs) u (Some e) (w\<lparr>ui_dialogs := (ui_dialogs w)(d \<mapsto> x\<lparr>d_lastEvent := Some e\<rparr>)\<rparr>)"
proof -
  from assms obtain a where "ev = Some a" "belongs u d a" "e = a \<and> event_step {} u w \<or> made app e \<and> event_new {a} e u w"
    by (auto simp: filtered_def)
  then show ?thesis unfolding waited_def option.case by (intro exI[of _ "[]"] exI[of _ a] exI[of _ evs] exI[of _ w]) simp
qed

lemma waited_later:
  assumes st: "event_step (set_option ev) u v" and w: "waited app d x evs v r w" and ds: "set_option ev \<inter> in_flight evs = {}"
  shows "waited app d x (ev # evs) u r w"
proof (cases r)
  case None
  then show ?thesis using w event_step_trans[OF st] by (simp add: waited_def)
next
  case (Some e)
  then obtain pre a post z where z: "evs = pre @ Some a # post" "belongs v d a"
    "e = a \<and> event_step (in_flight pre) v z \<or> made app e \<and> event_new (in_flight pre \<union> {a}) e v z"
    "w = z\<lparr>ui_dialogs := (ui_dialogs z)(d \<mapsto> x\<lparr>d_lastEvent := Some e\<rparr>)\<rparr>"
    using w by (auto simp: waited_def)
  have "a \<notin> set_option ev" using ds z(1) by (auto simp: in_flight_def)
  then have "belongs u d a" using belongs_step[OF st] z(2) by blast
  moreover have "e = a \<and> event_step (in_flight (ev # pre)) u z \<or> made app e \<and> event_new (in_flight (ev # pre) \<union> {a}) e u z"
    using z(3) event_step_trans[OF st, of "in_flight pre" z] event_step_new[OF st, of "in_flight pre \<union> {a}" e z]
    by (auto simp: Un_assoc)
  moreover have "ev # evs = (ev # pre) @ Some a # post" using z(1) by simp
  ultimately show ?thesis using z(4) unfolding Some waited_def option.case by blast
qed

text \<open>What the loop needs of the events that are still to come.\<close>

definition pending :: "nat option list \<Rightarrow> ui \<Rightarrow> bool" where
  "pending evs u \<longleftrightarrow> in_flight evs \<subseteq> live (ui_events u) \<and> distinct_events evs
     \<and> (\<forall>e\<in>in_flight evs. widget_alive (ui_widgets u) (ui_events u) e)"

lemma pending_later:
  assumes "pending (ev # evs) u" "event_step (set_option ev) u v"
  shows "pending evs v"
proof -
  note p = event_step_parts[OF assms(2)]
  have d: "distinct_events evs" "set_option ev \<inter> in_flight evs = {}"
    using assms(1) distinct_events_Cons by (auto simp: pending_def)
  have "widget_alive (ui_widgets v) (ui_events v) e" if "e \<in> in_flight evs" for e
  proof -
    have "e \<notin> set_option ev" using that d(2) by blast
    then have "eh_events (ui_events v) e = eh_events (ui_events u) e" by (simp add: p(6) restrict_map_def)
    from widget_alive_cong[OF this] show ?thesis using assms(1) that p(1) by (simp add: pending_def)
  qed
  then show ?thesis using assms(1) d p(7) by (auto simp: pending_def)
qed

lemma filter_next:
  assumes "heap_ok (ui_widgets u)" "all_valid (ui_events u)" "ui_dialogs u d = Some x"
    "\<forall>f\<in>set (d_eventFilterList x). ui_filters u f \<noteq> None" "documented (ui_widgets u) app"
    "d_lastEvent x = None" "pending (ev # evs) u"
  shows "\<exists>r u1 r' v. filterInvalidEvents d ev u = Some (Inr (r, u1))
    \<and> callEventFilters relnotes app d r u1 = Some (Inr (r', v)) \<and> filtered app d ev r' u v"
  by (rule filter_event[OF assms(1-5)]) (use assms(3,6,7) in \<open>auto simp: last_event_def pending_def\<close>)

lemma filtered_dialogs: "filtered app d ev r u v \<Longrightarrow> ui_dialogs v = ui_dialogs u"
  using event_step_parts(2) event_new_parts(2) by (auto simp: filtered_def)

lemma wait_loop_step:
  assumes "heap_ok (ui_widgets u)" "all_valid (ui_events u)" "ui_dialogs u d = Some x"
    "\<forall>f\<in>set (d_eventFilterList x). ui_filters u f \<noteq> None" "documented (ui_widgets u) app"
    "d_lastEvent x = None" "pending evs u"
  shows "\<exists>r v. wait_loop relnotes app d evs u = Some (Inr (r, v)) \<and> waited app d x evs u r v"
  using assms
proof (induction evs arbitrary: u)
  case Nil
  then show ?case using event_step_refl by (auto simp: waited_def)
next
  case (Cons ev evs)
  obtain r u1 r' v where r: "filterInvalidEvents d ev u = Some (Inr (r, u1))"
    "callEventFilters relnotes app d r u1 = Some (Inr (r', v))" "filtered app d ev r' u v"
    using filter_next[OF Cons.prems] by blast
  show ?case
  proof (cases r')
    case (Some e)
    have "wait_loop relnotes app d (ev # evs) u =
        Some (Inr (Some e, v\<lparr>ui_dialogs := (ui_dialogs v)(d \<mapsto> x\<lparr>d_lastEvent := Some e\<rparr>)\<rparr>))"
      using r(1,2) Some Cons.prems(3) filtered_dialogs[OF r(3)] by (simp add: on_dialog_Some)
    then show ?thesis using waited_here[OF r(3)[unfolded Some]] by blast
  next
    case None
    have st: "event_step (set_option ev) u v" using r(3) None by (auto simp: filtered_def)
    have ds: "set_option ev \<inter> in_flight evs = {}"
      using Cons.prems(7) distinct_events_Cons by (auto simp: pending_def)
    have "\<exists>r w. wait_loop relnotes app d evs v = Some (Inr (r, w)) \<and> waited app d x evs v r w"
      by (rule Cons.IH)
        (use Cons.prems(1-6) event_step_parts[OF st] pending_later[OF Cons.prems(7) st] in simp_all)
    then show ?thesis using r(1,2) None waited_later[OF st _ ds] by fastforce
  qed
qed


section \<open>Waiting and polling\<close>

text \<open>The preparations of \<^verbatim>\<open>waitForEvent\<close>, up to the deletion of the last event.\<close>

lemma ready_to_wait:
  assumes ok: "ui_ok u" and top: "isTopmostDialog d u"
  obtains u2 h y where "same_links u u2" "ui_dialogs u2 d = Some y" "d_lastEvent y = last_event u d"
    "\<And>relnotes app evs. waitForEvent relnotes app d evs u =
       wait_loop relnotes app d evs (u2\<lparr>ui_dialogs := (ui_dialogs u2)(d \<mapsto> y\<lparr>d_lastEvent := None\<rparr>), ui_events := h\<rparr>)"
    "all_valid h" "live h = live (ui_events u) - set_option (last_event u d)"
    "eh_events h = eh_events (ui_events u) |` (- set_option (last_event u d))"
proof -
  have d: "d \<in> dom (ui_dialogs u)"
    using ok top by (auto simp: ui_ok_def stack_ok_def isTopmostDialog_def dest: hd_in_set)
  obtain u1 where u1: "open_dialog d u = Inr u1" "same_links u u1" using open_dialog_links[OF d] by blast
  obtain x where x: "ui_dialogs u1 d = Some x" using d same_links_dom[OF u1(2)] by blast
  have "\<exists>u2. (if d_shortcutCheckPostponed x then d_checkShortcuts d True u1 else Inr u1) = Inr u2 \<and> same_links u1 u2"
    using d_checkShortcuts_links[of d u1 True] x by auto
  then obtain u2 where u2: "(if d_shortcutCheckPostponed x then d_checkShortcuts d True u1 else Inr u1) = Inr u2"
    "same_links u1 u2" by blast
  obtain y where y: "ui_dialogs u2 d = Some y" using x same_links_dom[OF u2(2)] by blast
  have s: "same_links u u2" by (rule same_links_trans[OF u1(2) u2(2)])
  have "ui_ok u2" by (rule same_links_ok[OF s ok])
  then have la: "last_ok u2" by (simp add: ui_ok_def)
  have le: "d_lastEvent y = last_event u d" using same_links_last[OF s, of d] y by (simp add: last_event_def)
  have sub: "set_option (d_lastEvent y) \<subseteq> live (ui_events u2)"
    using la y unfolding last_ok_def last_event_def by (metis option.case(2))
  obtain h where h: "d_deleteEvent d (d_lastEvent y) u2 =
      Inr (u2\<lparr>ui_dialogs := (ui_dialogs u2)(d \<mapsto> y\<lparr>d_lastEvent := None\<rparr>), ui_events := h\<rparr>)"
    "all_valid h" "live h = live (ui_events u2) - set_option (d_lastEvent y)"
    "eh_events h = eh_events (ui_events u2) |` (- set_option (d_lastEvent y))"
    by (rule d_deleteEvent_last[OF last_okD(1)[OF la] y sub])
  have ev: "ui_events u2 = ui_events u" using s by (simp add: same_links_def)
  show thesis
    by (rule that[OF s y le]) (use top u1(1) x u2(1) y h ev le in \<open>simp_all add: waitForEvent_def\<close>)
qed

lemma filters_alive:
  "filters_ok u \<Longrightarrow> ui_dialogs u d = Some x \<Longrightarrow> \<forall>f\<in>set (d_eventFilterList x). ui_filters u f \<noteq> None"
  using filters_okD(2) by fastforce

text \<open>Changing the last event of a dialog to one that no other dialog has.\<close>

lemma ui_ok_new_last:
  assumes ok: "ui_ok u" and y: "ui_dialogs u d = Some y"
    and v: "ui_widgets v = ui_widgets u" "ui_filters v = ui_filters u" "ui_stack v = ui_stack u"
      "ui_dialogs v = (ui_dialogs u)(d \<mapsto> y\<lparr>d_lastEvent := r\<rparr>)"
    and ev: "all_valid (ui_events v)" "set_option r \<subseteq> live (ui_events v)"
      "\<And>c e. c \<noteq> d \<Longrightarrow> last_event u c = Some e \<Longrightarrow> e \<in> live (ui_events v) \<and> r \<noteq> Some e"
  shows "ui_ok v"
proof -
  have dd: "dom (ui_dialogs v) = dom (ui_dialogs u)" using y by (auto simp: v(4))
  have "stack_ok v" using ok unfolding ui_ok_def stack_ok_def dd v(1,3) by blast
  moreover have "filters_ok v"
  proof -
    have fl: "filters_ok u" using ok by (simp add: ui_ok_def)
    have lists: "\<exists>z. ui_dialogs u c = Some z \<and> d_eventFilterList z = d_eventFilterList x" if "ui_dialogs v c = Some x" for c x
      using that y by (auto simp: v(4) split: if_splits)
    have lists2: "\<exists>x. ui_dialogs v c = Some x \<and> d_eventFilterList x = d_eventFilterList z" if "ui_dialogs u c = Some z" for c z
      using that y by (auto simp: v(4))
    show ?thesis
      unfolding filters_ok_def v(2)
    proof (intro conjI allI impI ballI)
      fix c x assume "ui_dialogs v c = Some x"
      from lists[OF this] obtain z where z: "ui_dialogs u c = Some z" "d_eventFilterList z = d_eventFilterList x" by blast
      show "distinct (d_eventFilterList x)" using filters_okD(1)[OF fl z(1)] z(2) by simp
      fix f assume "f \<in> set (d_eventFilterList x)"
      then show "\<exists>y. ui_filters u f = Some y \<and> ef_dialog y = c" using filters_okD(2)[OF fl z(1)] z(2) by simp
    next
      fix f y assume "ui_filters u f = Some y"
      from filters_okD(3)[OF fl this] show "\<exists>x. ui_dialogs v (ef_dialog y) = Some x \<and> f \<in> set (d_eventFilterList x)"
        using lists2 by metis
    qed
  qed
  moreover have "last_ok v"
  proof (rule last_okI[OF ev(1)])
    have le: "last_event v c = (if c = d then r else last_event u c)" for c
      by (simp add: last_event_def v(4))
    have la: "last_ok u" using ok by (simp add: ui_ok_def)
    show "e \<in> live (ui_events v)" if "last_event v c = Some e" for c e
      using that ev(2,3) by (auto simp: le split: if_splits)
    show "c = c'" if "last_event v c = Some e" "last_event v c' = Some e" for c c' e
      using that ev(3) last_okD(3)[OF la] by (auto simp: le split: if_splits)
  qed
  ultimately show ?thesis using ok v(1) by (simp add: ui_ok_def)
qed


text \<open>
  Events on their way: in memory, different, without a widget or of a widget in memory, and not the last
  event of any dialog.
\<close>

definition arriving :: "nat option list \<Rightarrow> ui \<Rightarrow> bool" where
  "arriving evs u \<longleftrightarrow> pending evs u \<and> (\<forall>d e. last_event u d = Some e \<longrightarrow> e \<notin> in_flight evs)"

text \<open>After the filters: nothing but events has changed, and the last events of other dialogs are kept.\<close>

lemma event_step_ok:
  assumes ok: "ui_ok u" and y: "ui_dialogs u d = Some y"
    and st: "event_step gone u w \<and> set_option r \<subseteq> live (ui_events w) \<or> (\<exists>a. r = Some a \<and> event_new gone a u w)"
    and gone: "\<And>c e. c \<noteq> d \<Longrightarrow> last_event u c = Some e \<Longrightarrow> e \<notin> gone"
    and kept: "\<And>c e. event_step gone u w \<Longrightarrow> c \<noteq> d \<Longrightarrow> last_event u c = Some e \<Longrightarrow> r \<noteq> Some e"
  shows "ui_ok (w\<lparr>ui_dialogs := (ui_dialogs w)(d \<mapsto> y\<lparr>d_lastEvent := r\<rparr>)\<rparr>)"
proof -
  have la: "last_ok u" using ok by (simp add: ui_ok_def)
  from st show ?thesis
  proof
    assume st: "event_step gone u w \<and> set_option r \<subseteq> live (ui_events w)"
    note p = event_step_parts[OF conjunct1[OF st]]
    have keep: "e \<in> live (ui_events w) \<and> r \<noteq> Some e" if "c \<noteq> d" "last_event u c = Some e" for c e
      using that last_okD(2)[OF la] gone kept st by (auto simp: p(7))
    show ?thesis by (rule ui_ok_new_last[OF ok y, where r = r]) (use p st keep in simp_all)
  next
    assume "\<exists>a. r = Some a \<and> event_new gone a u w"
    then obtain a where a: "r = Some a" "event_new gone a u w" by blast
    note p = event_new_parts[OF a(2)]
    have keep: "e \<in> live (ui_events w) \<and> r \<noteq> Some e" if "c \<noteq> d" "last_event u c = Some e" for c e
      using that last_okD(2)[OF la] gone p(8) by (auto simp: p(7) a(1))
    show ?thesis by (rule ui_ok_new_last[OF ok y, where r = r]) (use p a(1) keep in simp_all)
  qed
qed

text \<open>The state in which the loop of \<^verbatim>\<open>waitForEvent\<close> starts.\<close>

lemma wait_starts:
  assumes ok: "ui_ok u" and top: "isTopmostDialog d u"
  obtains u0 x where
    "\<And>relnotes app evs. waitForEvent relnotes app d evs u = wait_loop relnotes app d evs u0"
    "ui_ok u0" "ui_dialogs u0 d = Some x" "d_lastEvent x = None" "ui_widgets u0 = ui_widgets u" "ui_stack u0 = ui_stack u"
    "\<And>c. last_event u0 c = (if c = d then None else last_event u c)"
    "live (ui_events u0) = live (ui_events u) - set_option (last_event u d)"
    "eh_events (ui_events u0) = eh_events (ui_events u) |` (- set_option (last_event u d))"
proof -
  obtain u2 h y where y: "same_links u u2" "ui_dialogs u2 d = Some y" "d_lastEvent y = last_event u d"
    and wt: "\<And>relnotes app evs. waitForEvent relnotes app d evs u =
       wait_loop relnotes app d evs (u2\<lparr>ui_dialogs := (ui_dialogs u2)(d \<mapsto> y\<lparr>d_lastEvent := None\<rparr>), ui_events := h\<rparr>)"
    and h: "all_valid h" "live h = live (ui_events u) - set_option (last_event u d)"
      "eh_events h = eh_events (ui_events u) |` (- set_option (last_event u d))"
    by (rule ready_to_wait[OF ok top]) blast
  define x where "x = y\<lparr>d_lastEvent := None\<rparr>"
  define u0 where "u0 = u2\<lparr>ui_dialogs := (ui_dialogs u2)(d \<mapsto> x), ui_events := h\<rparr>"
  have ok2: "ui_ok u2" by (rule same_links_ok[OF y(1) ok])
  have eq: "ui_widgets u2 = ui_widgets u" "ui_stack u2 = ui_stack u" using y(1) by (simp_all add: same_links_def)
  have le2: "last_event u2 c = last_event u c" for c by (rule same_links_last[OF y(1)])
  have la: "last_ok u" using ok by (simp add: ui_ok_def)
  have keep: "e \<in> live h" if "c \<noteq> d" "last_event u c = Some e" for c e
    using that last_okD(2,3)[OF la] by (auto simp: h(2))
  have ok0: "ui_ok u0"
    by (rule ui_ok_new_last[OF ok2 y(2), where r = None]) (use h keep le2 in \<open>simp_all add: u0_def x_def\<close>)
  have le0: "last_event u0 c = (if c = d then None else last_event u c)" for c
    using le2[of c] by (simp add: u0_def x_def last_event_def)
  show thesis
    by (rule that[of u0 x]) (use wt ok0 le0 h eq in \<open>simp_all add: u0_def x_def\<close>)
qed

text \<open>
  An event that nothing holds back: it belongs to the dialog and is not from a button for help or
  release notes.
\<close>

definition plain_event :: "ui \<Rightarrow> nat \<Rightarrow> nat \<Rightarrow> bool" where
  "plain_event u d e \<longleftrightarrow> belongs u d e
     \<and> (\<forall>x w ob hb rb. eh_events (ui_events u) e = Some x \<and> event_widget x = Some w \<and> ui_widgets u w = Some ob
          \<and> wo_kind ob = KPushButton hb rb \<longrightarrow> \<not> hb \<and> \<not> rb)"

lemma plain_event_cong:
  "ui_widgets v = ui_widgets u \<Longrightarrow> eh_events (ui_events v) e = eh_events (ui_events u) e \<Longrightarrow>
     plain_event v d e \<longleftrightarrow> plain_event u d e"
  by (simp add: plain_event_def belongs_def)

lemma filterInvalidEvents_plain:
  assumes "plain_event u d e" "e \<in> live (ui_events u)"
  shows "filterInvalidEvents d (Some e) u = Some (Inr (Some e, u))"
proof -
  obtain x where "eh_events (ui_events u) e = Some x" using assms(2) by (auto simp: live_def)
  then show ?thesis
    using assms(1) by (cases "event_widget x")
      (auto simp: filterInvalidEvents_def plain_event_def belongs_def simp del: event_widget.simps)
qed

lemma run_filter_plain:
  assumes "plain_event u d e" "e \<in> live (ui_events u)" "ui_filters u f \<noteq> None" "\<And>h. app f e h = (Some e, h)"
  shows "run_filter relnotes app f e u = Some (Inr (Some e, u))"
proof -
  obtain x where x: "eh_events (ui_events u) e = Some x" using assms(2) by (auto simp: live_def)
  obtain y where y: "ui_filters u f = Some y" using assms(3) by auto
  have "button_filter wanted show_it e u = Some (Inr (Some e, u))" if "\<not> wanted False False" for wanted show_it
  proof (cases "event_widget x")
    case (Some w)
    then obtain ob where "ui_widgets u w = Some ob" using assms(1) x by (auto simp: plain_event_def belongs_def)
    then show ?thesis
      using Some x assms(1) that
      by (cases "wo_kind ob") (auto simp: button_filter_def plain_event_def simp del: event_widget.simps)
  qed (use x in \<open>simp add: button_filter_def del: event_widget.simps\<close>)
  then show ?thesis using y assms(4) by (cases "ef_kind y") (simp_all add: run_filter_def)
qed

lemma call_filters_plain:
  assumes "plain_event u d e" "e \<in> live (ui_events u)" "\<And>f h. app f e h = (Some e, h)"
  shows "\<forall>f\<in>set fs. ui_filters u f \<noteq> None \<Longrightarrow> call_filters relnotes app d fs e u = Some (Inr (Some e, u))"
  by (induction fs) (simp_all add: run_filter_plain[where app = app, OF assms(1,2) _ assms(3)])

lemma wait_loop_returns:
  assumes "heap_ok (ui_widgets u)" "all_valid (ui_events u)" "ui_dialogs u d = Some x"
    "\<forall>f\<in>set (d_eventFilterList x). ui_filters u f \<noteq> None" "documented (ui_widgets u) app"
    "d_lastEvent x = None" "pending evs u"
    and e: "Some e \<in> set evs" "plain_event u d e" and pass: "\<And>f h. app f e h = (Some e, h)"
  shows "\<exists>e' v. wait_loop relnotes app d evs u = Some (Inr (Some e', v))"
  using assms(1-9)
proof (induction evs arbitrary: u)
  case (Cons ev evs)
  obtain r u1 r' v where r: "filterInvalidEvents d ev u = Some (Inr (r, u1))"
    "callEventFilters relnotes app d r u1 = Some (Inr (r', v))" "filtered app d ev r' u v"
    using filter_next[OF Cons.prems(1-7)] by blast
  show ?case
  proof (cases r')
    case (Some e')
    then show ?thesis using r(1,2) Cons.prems(3) filtered_dialogs[OF r(3)] by (simp add: on_dialog_Some)
  next
    case None
    have st: "event_step (set_option ev) u v" using r(3) None by (auto simp: filtered_def)
    note p = event_step_parts[OF st]
    have "ev \<noteq> Some e"
    proof
      assume ev: "ev = Some e"
      then have lv: "e \<in> live (ui_events u)" using Cons.prems(7) by (simp add: pending_def)
      have "callEventFilters relnotes app d (Some e) u = Some (Inr (Some e, u))"
        using call_filters_plain[where app = app, OF Cons.prems(9) lv pass Cons.prems(4)] Cons.prems(3) by (simp add: callEventFilters_def)
      then show False using r(1,2) None filterInvalidEvents_plain[OF Cons.prems(9) lv] ev by auto
    qed
    then have "plain_event v d e" using Cons.prems(9) p(1,6) plain_event_cong[of v u e d] by auto
    then have "\<exists>e' w. wait_loop relnotes app d evs v = Some (Inr (Some e', w))"
      using Cons.prems(1-6,8) p(1-5) pending_later[OF Cons.prems(7) st] \<open>ev \<noteq> Some e\<close> by (intro Cons.IH) simp_all
    then show ?thesis using r(1,2) None by auto
  qed
qed simp

text \<open>
  What \<^verbatim>\<open>waitForEvent\<close> returns: the event that arrived after \<open>pre\<close>, or one a filter made of it. The
  previous event, those before it, and the one that was replaced are freed.
\<close>

definition delivered :: "app_filters \<Rightarrow> nat \<Rightarrow> nat option list \<Rightarrow> ui \<Rightarrow> nat \<Rightarrow> ui \<Rightarrow> bool" where
  "delivered app d evs u e v \<longleftrightarrow>
     (\<exists>pre a post. evs = pre @ Some a # post \<and> belongs u d a \<and> e \<in> live (ui_events v)
        \<and> live (ui_events v) = insert e (live (ui_events u) - set_option (last_event u d) - in_flight pre - {a})
        \<and> (e = a \<and> eh_events (ui_events v) a = eh_events (ui_events u) a
           \<or> made app e \<and> widget_alive (ui_widgets v) (ui_events v) e))"

lemma waited_delivered:
  assumes w: "waited app d x evs u0 (Some e) v" and evs: "pending evs u0"
    and u0: "ui_widgets u0 = ui_widgets u" "live (ui_events u0) = live (ui_events u) - set_option (last_event u d)"
      "eh_events (ui_events u0) = eh_events (ui_events u) |` (- set_option (last_event u d))"
      "set_option (last_event u d) \<inter> in_flight evs = {}"
  shows "delivered app d evs u e v"
proof -
  obtain pre a post z where z: "evs = pre @ Some a # post" "belongs u0 d a"
    "e = a \<and> event_step (in_flight pre) u0 z \<or> made app e \<and> event_new (in_flight pre \<union> {a}) e u0 z"
    "v = z\<lparr>ui_dialogs := (ui_dialogs z)(d \<mapsto> x\<lparr>d_lastEvent := Some e\<rparr>)\<rparr>"
    using w by (auto simp: waited_def)
  have "a \<in> in_flight evs" and pre: "a \<notin> in_flight pre"
    using evs by (auto simp: z(1) in_flight_def pending_def distinct_events_def)
  then have a: "a \<in> live (ui_events u0)" "a \<notin> set_option (last_event u d)" using evs u0(4) by (auto simp: pending_def)
  have eq: "eh_events (ui_events u0) a = eh_events (ui_events u) a" using a(2) by (simp add: u0(3) restrict_map_def)
  then have b: "belongs u d a" using z(2) u0(1) by (simp add: belongs_def)
  from z(3) show ?thesis
  proof
    assume e: "e = a \<and> event_step (in_flight pre) u0 z"
    note p = event_step_parts[OF conjunct2[OF e]]
    have lv: "live (ui_events v) = insert e (live (ui_events u) - set_option (last_event u d) - in_flight pre - {a})"
      using e a pre by (auto simp: z(4) p(7) u0(2))
    have "eh_events (ui_events v) a = eh_events (ui_events u) a" using eq pre by (simp add: z(4) p(6) restrict_map_def)
    with lv show ?thesis using z(1) b e unfolding delivered_def by blast
  next
    assume e: "made app e \<and> event_new (in_flight pre \<union> {a}) e u0 z"
    note p = event_new_parts[OF conjunct2[OF e]]
    have "live (ui_events v) = insert e (live (ui_events u) - set_option (last_event u d) - in_flight pre - {a})"
      by (auto simp: z(4) p(7) u0(2))
    moreover have "widget_alive (ui_widgets v) (ui_events v) e" using p(6) by (simp add: z(4))
    ultimately show ?thesis using z(1) b e unfolding delivered_def by blast
  qed
qed

lemma waited_ok:
  assumes ok: "ui_ok u" and x: "ui_dialogs u d = Some x" "d_lastEvent x = None" and w: "waited app d x evs u r v"
    and evs: "pending evs u" and other: "\<And>c e. last_event u c = Some e \<Longrightarrow> e \<notin> in_flight evs"
  shows "ui_ok v \<and> ui_stack v = ui_stack u \<and> ui_widgets v = ui_widgets u \<and> last_event v d = r"
proof (cases r)
  case None
  then have st: "event_step (in_flight evs) u v" using w by (simp add: waited_def)
  note p = event_step_parts[OF st]
  have "v\<lparr>ui_dialogs := (ui_dialogs v)(d \<mapsto> x\<lparr>d_lastEvent := None\<rparr>)\<rparr> = v"
    using x p(2) by (simp add: map_upd_triv)
  with event_step_ok[OF ok x(1), where r = None] st other have "ui_ok v" by fastforce
  then show ?thesis using None p x by (simp add: last_event_def)
next
  case (Some e)
  then obtain pre a post z where z: "evs = pre @ Some a # post"
    "e = a \<and> event_step (in_flight pre) u z \<or> made app e \<and> event_new (in_flight pre \<union> {a}) e u z"
    "v = z\<lparr>ui_dialogs := (ui_dialogs z)(d \<mapsto> x\<lparr>d_lastEvent := Some e\<rparr>)\<rparr>"
    using w by (auto simp: waited_def)
  have fl: "in_flight pre \<union> {a} \<subseteq> in_flight evs" and pre: "a \<notin> in_flight pre" "a \<in> live (ui_events u)"
    using evs by (auto simp: z(1) in_flight_def pending_def distinct_events_def)
  from z(2) have "ui_ok v \<and> ui_stack z = ui_stack u \<and> ui_widgets z = ui_widgets u \<and> ui_dialogs z = ui_dialogs u"
  proof
    assume e: "e = a \<and> event_step (in_flight pre) u z"
    note p = event_step_parts[OF conjunct2[OF e]]
    have "ui_ok v" unfolding z(3)
      by (rule event_step_ok[OF ok x(1), where gone = "in_flight pre"]) (use e p(7) pre fl other in auto)
    then show ?thesis using p by simp
  next
    assume e: "made app e \<and> event_new (in_flight pre \<union> {a}) e u z"
    note p = event_new_parts[OF conjunct2[OF e]]
    have "e \<noteq> l" if "last_event u c = Some l" for c l
      using p(8) other[OF that] fl last_okD(2)[of u c l] ok that by (auto simp: ui_ok_def)
    then have "ui_ok v" unfolding z(3)
      by (intro event_step_ok[OF ok x(1), where gone = "in_flight pre \<union> {a}"]) (use e fl other in auto)
    then show ?thesis using p by simp
  qed
  moreover have "ui_stack v = ui_stack z" "ui_widgets v = ui_widgets z" "last_event v d = Some e"
    by (simp_all add: z(3) last_event_def)
  ultimately show ?thesis using Some by simp
qed

lemma waitForEvent_ok:
  assumes ok: "ui_ok u" and top: "isTopmostDialog d u" and app: "documented (ui_widgets u) app" and arr: "arriving evs u"
  shows "\<exists>r v. waitForEvent relnotes app d evs u = Some (Inr (r, v)) \<and> ui_ok v
    \<and> ui_stack v = ui_stack u \<and> ui_widgets v = ui_widgets u \<and> last_event v d = r
    \<and> (case r of
         None \<Rightarrow> live (ui_events v) = live (ui_events u) - set_option (last_event u d) - in_flight evs
       | Some e \<Rightarrow> delivered app d evs u e v)
    \<and> (\<forall>e. Some e \<in> set evs \<and> plain_event u d e \<and> (\<forall>f h. app f e h = (Some e, h)) \<longrightarrow> r \<noteq> None)"
proof -
  obtain u0 x where wt: "\<And>relnotes app evs. waitForEvent relnotes app d evs u = wait_loop relnotes app d evs u0"
    and ok0: "ui_ok u0" and x0: "ui_dialogs u0 d = Some x" "d_lastEvent x = None"
    and eq: "ui_widgets u0 = ui_widgets u" "ui_stack u0 = ui_stack u"
    and le0: "\<And>c. last_event u0 c = (if c = d then None else last_event u c)"
    and lv0: "live (ui_events u0) = live (ui_events u) - set_option (last_event u d)"
    and ev0: "eh_events (ui_events u0) = eh_events (ui_events u) |` (- set_option (last_event u d))"
    by (rule wait_starts[OF ok top]) blast
  have own: "set_option (last_event u d) \<inter> in_flight evs = {}" using arr by (auto simp: arriving_def)
  have pend: "pending evs u0"
    using arr own unfolding arriving_def pending_def lv0 eq widget_alive_def ev0 restrict_map_def by auto
  have ps: "filters_ok u0" "heap_ok (ui_widgets u0)" "all_valid (ui_events u0)" using ok0 by (simp_all add: ui_ok_def last_ok_def)
  note pre = ps(2,3) x0(1) filters_alive[OF ps(1) x0(1)] app[folded eq(1)] x0(2) pend
  from wait_loop_step[OF pre, of relnotes]
  obtain r v where w: "wait_loop relnotes app d evs u0 = Some (Inr (r, v))" "waited app d x evs u0 r v" by blast
  have "r \<noteq> None" if e: "Some e \<in> set evs" "plain_event u d e" "\<And>f h. app f e h = (Some e, h)" for e
  proof -
    have "last_event u d \<noteq> Some e" using e(1) arr by (auto simp: arriving_def in_flight_def)
    then have "plain_event u0 d e" using e(2) plain_event_cong[of u0 u e d] eq(1) ev0 by simp
    from wait_loop_returns[where app = app and relnotes = relnotes, OF pre e(1) this e(3)] show ?thesis
      using w(1) by auto
  qed
  then have prompt: "\<forall>e. Some e \<in> set evs \<and> plain_event u d e \<and> (\<forall>f h. app f e h = (Some e, h)) \<longrightarrow> r \<noteq> None"
    by blast
  have other: "e \<notin> in_flight evs" if "last_event u0 c = Some e" for c e
    using that arr by (auto simp: le0 arriving_def split: if_splits)
  note good = waited_ok[OF ok0 x0 w(2) pend other]
  have "case r of None \<Rightarrow> live (ui_events v) = live (ui_events u) - set_option (last_event u d) - in_flight evs
       | Some e \<Rightarrow> delivered app d evs u e v"
  proof (cases r)
    case None
    then show ?thesis using w(2) event_step_parts(7)[of "in_flight evs" u0 v] lv0 by (simp add: waited_def)
  next
    case (Some e)
    then show ?thesis using waited_delivered[OF w(2)[unfolded Some] pend eq(1) lv0 ev0 own] by simp
  qed
  then show ?thesis using wt w(1) good prompt eq by (intro exI[of _ r] exI[of _ v]) simp
qed

lemma filtered_ok:
  assumes ok: "ui_ok u" and x: "ui_dialogs u d = Some x" and f: "filtered app d ev r u w"
    and own: "\<And>c e. last_event u c = Some e \<Longrightarrow> e \<notin> set_option ev" and lv: "set_option ev \<subseteq> live (ui_events u)"
  shows "ui_ok (w\<lparr>ui_dialogs := (ui_dialogs w)(d \<mapsto> x\<lparr>d_lastEvent := r\<rparr>)\<rparr>) \<and> ui_stack w = ui_stack u
    \<and> ui_widgets w = ui_widgets u \<and> live (ui_events w) = live (ui_events u) - set_option ev \<union> set_option r
    \<and> (\<forall>c e. last_event u c = Some e \<longrightarrow> r \<noteq> Some e)
    \<and> last_event (w\<lparr>ui_dialogs := (ui_dialogs w)(d \<mapsto> x\<lparr>d_lastEvent := r\<rparr>)\<rparr>) d = r
    \<and> (\<forall>c. c \<noteq> d \<longrightarrow> last_event (w\<lparr>ui_dialogs := (ui_dialogs w)(d \<mapsto> x\<lparr>d_lastEvent := r\<rparr>)\<rparr>) c = last_event u c)"
proof -
  have la: "last_ok u" using ok by (simp add: ui_ok_def)
  have dl: "ui_dialogs w = ui_dialogs u" by (rule filtered_dialogs[OF f])
  from f consider "r = None" "event_step (set_option ev) u w" | "r = ev" "event_step {} u w"
    | e a where "ev = Some e" "r = Some a" "event_new {e} a u w" by (auto simp: filtered_def)
  then have "ui_ok (w\<lparr>ui_dialogs := (ui_dialogs w)(d \<mapsto> x\<lparr>d_lastEvent := r\<rparr>)\<rparr>) \<and> ui_stack w = ui_stack u
    \<and> ui_widgets w = ui_widgets u \<and> live (ui_events w) = live (ui_events u) - set_option ev \<union> set_option r
    \<and> (\<forall>c e. last_event u c = Some e \<longrightarrow> r \<noteq> Some e)"
  proof cases
    case 1
    note p = event_step_parts[OF 1(2)]
    have "ui_ok (w\<lparr>ui_dialogs := (ui_dialogs w)(d \<mapsto> x\<lparr>d_lastEvent := r\<rparr>)\<rparr>)"
      by (rule event_step_ok[OF ok x, where gone = "set_option ev"]) (use 1 own in auto)
    then show ?thesis using p 1(1) by simp
  next
    case 2
    note p = event_step_parts[OF 2(2)]
    have k: "r \<noteq> Some e" if "last_event u c = Some e" for c e using own[OF that] 2(1) by auto
    have "ui_ok (w\<lparr>ui_dialogs := (ui_dialogs w)(d \<mapsto> x\<lparr>d_lastEvent := r\<rparr>)\<rparr>)"
      by (rule event_step_ok[OF ok x, where gone = "{}"]) (use 2 k lv p(7) in auto)
    moreover have "live (ui_events w) = live (ui_events u) - set_option ev \<union> set_option r" using p(7) lv 2(1) by auto
    ultimately show ?thesis using p k by simp
  next
    case 3
    note p = event_new_parts[OF 3(3)]
    have k: "r \<noteq> Some l" if "last_event u c = Some l" for c l
      using own[OF that] last_okD(2)[OF la that] p(8) 3(1,2) by auto
    have "ui_ok (w\<lparr>ui_dialogs := (ui_dialogs w)(d \<mapsto> x\<lparr>d_lastEvent := r\<rparr>)\<rparr>)"
      by (rule event_step_ok[OF ok x, where gone = "{e}"]) (use 3 k own in auto)
    then show ?thesis using p 3(1,2) k by auto
  qed
  moreover have "last_event (w\<lparr>ui_dialogs := (ui_dialogs w)(d \<mapsto> x\<lparr>d_lastEvent := r\<rparr>)\<rparr>) c = (if c = d then r else last_event u c)" for c
    by (simp add: last_event_def dl)
  ultimately show ?thesis by simp
qed

lemma pollEvent_ok:
  assumes ok: "ui_ok u" and top: "isTopmostDialog d u" and app: "documented (ui_widgets u) app" and arr: "arriving [ev] u"
  shows "\<exists>r v. pollEvent relnotes app d ev u = Some (Inr (r, v)) \<and> ui_ok v
    \<and> ui_stack v = ui_stack u \<and> ui_widgets v = ui_widgets u \<and> last_event v d = r
    \<and> live (ui_events v) = live (ui_events u) - set_option ev \<union> set_option r
    \<and> (\<forall>c e. last_event u c = Some e \<longrightarrow> r \<noteq> Some e) \<and> (\<forall>c. c \<noteq> d \<longrightarrow> last_event v c = last_event u c)"
proof -
  have d: "d \<in> dom (ui_dialogs u)"
    using ok top by (auto simp: ui_ok_def stack_ok_def isTopmostDialog_def dest: hd_in_set)
  obtain u1 where u1: "open_dialog d u = Inr u1" "same_links u u1" using open_dialog_links[OF d] by blast
  have ok1: "ui_ok u1" by (rule same_links_ok[OF u1(2) ok])
  have eq: "ui_widgets u1 = ui_widgets u" "ui_stack u1 = ui_stack u" "ui_events u1 = ui_events u"
    using u1(2) by (simp_all add: same_links_def)
  have le1: "last_event u1 c = last_event u c" for c by (rule same_links_last[OF u1(2)])
  obtain x where x: "ui_dialogs u1 d = Some x" using d same_links_dom[OF u1(2)] by blast
  have parts: "heap_ok (ui_widgets u1)" "all_valid (ui_events u1)" "filters_ok u1" "last_ok u1"
    using ok1 by (simp_all add: ui_ok_def last_ok_def)
  have ls: "set_option (last_event u1 d) \<subseteq> live (ui_events u1)" using parts(4) unfolding last_ok_def by blast
  have evs: "last_event u1 d \<noteq> Some e \<and> e \<in> live (ui_events u1) \<and> widget_alive (ui_widgets u1) (ui_events u1) e"
    if "ev = Some e" for e
    using arr that by (auto simp: arriving_def pending_def le1 eq)
  from filter_event[where event = ev and relnotes = relnotes,
    OF parts(1,2) x filters_alive[OF parts(3) x] app[folded eq(1)] ls evs]
  obtain r u2 r' u3 where f: "filterInvalidEvents d ev u1 = Some (Inr (r, u2))"
    "callEventFilters relnotes app d r u2 = Some (Inr (r', u3))" "filtered app d ev r' u1 u3" by blast
  let ?v = "u3\<lparr>ui_dialogs := (ui_dialogs u3)(d \<mapsto> x\<lparr>d_lastEvent := r'\<rparr>)\<rparr>"
  have "(if r \<noteq> None then callEventFilters relnotes app d r u2 else Some (Inr (None, u2))) = Some (Inr (r', u3))"
    using f(2) by (auto simp: callEventFilters_def)
  then have res: "pollEvent relnotes app d ev u = Some (Inr (r', ?v))"
    using top u1(1) f(1) x filtered_dialogs[OF f(3)] by (simp add: pollEvent_def on_dialog_Some)
  note good = filtered_ok[OF ok1 x f(3)]
  have own: "e \<notin> set_option ev" if "last_event u1 c = Some e" for c e
    using arr that by (auto simp: arriving_def le1)
  have lv: "set_option ev \<subseteq> live (ui_events u1)" using arr by (auto simp: arriving_def pending_def eq)
  from good[OF own lv] show ?thesis
    using res eq le1 by (intro exI[of _ r'] exI[of _ ?v]) simp
qed

end
