(* ===== verification/Yui_DialogLife.thy ===== *)
theory Yui_DialogLife
  imports Yui_DialogEvents
begin

text \<open>
  Whole histories of the user interface: every sequence of the operations of YDialog, YEventFilter
  and YWidget from the empty state keeps the state consistent, and the dialog stack refines an
  abstract stack.
\<close>

section \<open>Histories\<close>

definition empty_ui :: ui where
  "empty_ui = \<lparr>ui_widgets = Map.empty, ui_events = \<lparr>eh_events = Map.empty, eh_nextSerial = 0\<rparr>,
     ui_dialogs = Map.empty, ui_filters = Map.empty, ui_stack = [], ui_log = []\<rparr>"

text \<open>
  Every state a program and its toolkit can reach. New objects get free addresses, dialogs are only
  deleted through the operations of the stack, events that arrive have no freed widget and are not
  owned by a dialog, and the filters of the application do what their documentation allows: they
  consume an event, pass it on, or return a new one.
\<close>

inductive ui_life :: "ui \<Rightarrow> bool" where
  start: "ui_life empty_ui"
| dialog: "ui_life u \<Longrightarrow> d \<notin> dom (ui_widgets u) \<Longrightarrow> f1 \<notin> dom (ui_filters u) \<Longrightarrow> f2 \<notin> dom (ui_filters u) \<Longrightarrow>
    f1 \<noteq> f2 \<Longrightarrow> new_YDialog d ty f1 f2 u = Inr v \<Longrightarrow> ui_life v"
| widget: "ui_life u \<Longrightarrow> a \<notin> dom (ui_widgets u) \<Longrightarrow> kind \<noteq> KDialog \<Longrightarrow>
    new_YWidget a kind mc parent (ui_widgets u) = Inr w \<Longrightarrow> ui_life (u\<lparr>ui_widgets := w\<rparr>)"
| delete: "ui_life u \<Longrightarrow> \<not> is_dialog (ui_widgets u) a \<Longrightarrow>
    delete_widget n a (ui_widgets u) = Some (Inr w) \<Longrightarrow> ui_life (u\<lparr>ui_widgets := w\<rparr>)"
| destroy: "ui_life u \<Longrightarrow> card (dom (ui_widgets u)) \<le> n \<Longrightarrow> destroy n d doThrow u = Some (Inr (r, v)) \<Longrightarrow> ui_life v"
| delete_to: "ui_life u \<Longrightarrow> card (dom (ui_widgets u)) \<le> n \<Longrightarrow> deleteTo n d u = Some (Inr (x, v)) \<Longrightarrow> ui_life v"
| filter: "ui_life u \<Longrightarrow> f \<notin> dom (ui_filters u) \<Longrightarrow> new_YEventFilter f kind dlg u = Inr v \<Longrightarrow> ui_life v"
| unfilter: "ui_life u \<Longrightarrow> delete_filter f u = Inr v \<Longrightarrow> ui_life v"
| event: "ui_life u \<Longrightarrow> e \<notin> dom (eh_events (ui_events u)) \<Longrightarrow> ty \<noteq> InvalidEvent \<Longrightarrow>
    ui_life (u\<lparr>ui_events := new_YEvent e ty cls dlg (ui_events u)\<rparr>)"
| open_it: "ui_life u \<Longrightarrow> open_dialog d u = Inr v \<Longrightarrow> ui_life v"
| postpone: "ui_life u \<Longrightarrow> postponeShortcutCheck d u = Inr v \<Longrightarrow> ui_life v"
| multi_pass: "ui_life u \<Longrightarrow> requestMultiPassLayout d u = Inr v \<Longrightarrow> ui_life v"
| wait: "ui_life u \<Longrightarrow> documented (ui_widgets u) app \<Longrightarrow> arriving evs u \<Longrightarrow>
    waitForEvent relnotes app d evs u = Some (Inr (r, v)) \<Longrightarrow> ui_life v"
| poll: "ui_life u \<Longrightarrow> documented (ui_widgets u) app \<Longrightarrow> arriving [ev] u \<Longrightarrow>
    pollEvent relnotes app d ev u = Some (Inr (r, v)) \<Longrightarrow> ui_life v"

lemma ui_ok_filters:
  assumes ok: "ui_ok u" and v: "ui_widgets v = ui_widgets u" "ui_events v = ui_events u" "ui_stack v = ui_stack u"
    "\<And>c. map_option d_lastEvent (ui_dialogs v c) = map_option d_lastEvent (ui_dialogs u c)" and fl: "filters_ok v"
  shows "ui_ok v"
proof -
  have none: "ui_dialogs v c = None \<longleftrightarrow> ui_dialogs u c = None" for c
    using v(4)[of c] by (metis option.map_disc_iff)
  have dd: "dom (ui_dialogs v) = dom (ui_dialogs u)" unfolding dom_def none by simp
  have le: "last_event v c = last_event u c" for c
    using v(4)[of c] by (cases "ui_dialogs v c"; cases "ui_dialogs u c") (simp_all add: last_event_def)
  have "stack_ok v" using ok unfolding ui_ok_def stack_ok_def dd v(1,3) by blast
  moreover have "last_ok v" using ok unfolding ui_ok_def last_ok_def le v(2) by blast
  ultimately show ?thesis using ok fl v(1) by (simp add: ui_ok_def)
qed

lemma new_YEventFilter_ok:
  assumes ok: "ui_ok u" and f: "f \<notin> dom (ui_filters u)" and new: "new_YEventFilter f kind dlg u = Inr v"
  shows "ui_ok v"
proof -
  obtain d x where x: "ui_dialogs u d = Some x" and v: "v = u\<lparr>ui_filters := (ui_filters u)(f \<mapsto> \<lparr>ef_kind = kind, ef_dialog = d\<rparr>),
      ui_dialogs := (ui_dialogs u)(d \<mapsto> (if f \<in> set (d_eventFilterList x) then x
         else x\<lparr>d_eventFilterList := d_eventFilterList x @ [f]\<rparr>))\<rparr>"
    using new by (auto simp: new_YEventFilter_def bind_result_Inr_iff addEventFilter_def on_dialog_Inr_iff split: option.splits)
  have fl: "filters_ok u" using ok by (simp add: ui_ok_def)
  have nf: "f \<notin> set (d_eventFilterList z)" if "ui_dialogs u c = Some z" for c z
    using filters_okD(2)[OF fl that] f by auto
  show ?thesis
  proof (rule ui_ok_filters[OF ok])
    show "map_option d_lastEvent (ui_dialogs v c) = map_option d_lastEvent (ui_dialogs u c)" for c
      using x by (simp add: v)
    show "filters_ok v"
      unfolding filters_ok_def
    proof (intro conjI allI impI ballI)
      fix c z assume z: "ui_dialogs v c = Some z"
      show "distinct (d_eventFilterList z)"
        using z filters_okD(1)[OF fl] x nf[OF x] by (auto simp: v split: if_splits)
      fix g assume "g \<in> set (d_eventFilterList z)"
      then show "\<exists>y. ui_filters v g = Some y \<and> ef_dialog y = c"
        using z filters_okD(2)[OF fl] x nf by (auto simp: v split: if_splits)
    next
      fix g y assume g: "ui_filters v g = Some y"
      show "\<exists>x. ui_dialogs v (ef_dialog y) = Some x \<and> g \<in> set (d_eventFilterList x)"
      proof (cases "g = f")
        case True
        then show ?thesis using g x nf[OF x] by (auto simp: v)
      next
        case False
        then have "ui_filters u g = Some y" using g by (simp add: v)
        from filters_okD(3)[OF fl this] show ?thesis using x by (auto simp: v)
      qed
    qed
  qed (simp_all add: v)
qed

lemma delete_filter_ok:
  assumes ok: "ui_ok u" and del: "delete_filter f u = Inr v"
  shows "ui_ok v"
proof -
  obtain z x where z: "ui_filters u f = Some z" and x: "ui_dialogs u (ef_dialog z) = Some x"
    and v: "v = u\<lparr>ui_dialogs := (ui_dialogs u)(ef_dialog z \<mapsto> x\<lparr>d_eventFilterList := removeAll f (d_eventFilterList x)\<rparr>),
      ui_filters := (ui_filters u)(f := None)\<rparr>"
    using del by (auto simp: delete_filter_def removeEventFilter_def bind_result_Inr_iff on_dialog_Inr_iff split: option.splits)
  have fl: "filters_ok u" using ok by (simp add: ui_ok_def)
  have nf: "f \<notin> set (d_eventFilterList y)" if "ui_dialogs u c = Some y" "c \<noteq> ef_dialog z" for c y
    using filters_okD(2)[OF fl that(1), of f] z that(2) by auto
  show ?thesis
  proof (rule ui_ok_filters[OF ok])
    show "map_option d_lastEvent (ui_dialogs v c) = map_option d_lastEvent (ui_dialogs u c)" for c
      using x by (simp add: v)
    show "filters_ok v"
      unfolding filters_ok_def
    proof (intro conjI allI impI ballI)
      fix c y assume y: "ui_dialogs v c = Some y"
      show "distinct (d_eventFilterList y)"
        using y filters_okD(1)[OF fl] x by (auto simp: v distinct_removeAll split: if_splits)
      fix g assume "g \<in> set (d_eventFilterList y)"
      then show "\<exists>y. ui_filters v g = Some y \<and> ef_dialog y = c"
        using y filters_okD(2)[OF fl] x nf by (auto simp: v split: if_splits)
    next
      fix g y assume g: "ui_filters v g = Some y"
      then have "g \<noteq> f" "ui_filters u g = Some y" by (auto simp: v split: if_splits)
      with filters_okD(3)[OF fl this(2)] show "\<exists>x. ui_dialogs v (ef_dialog y) = Some x \<and> g \<in> set (d_eventFilterList x)"
        using x by (auto simp: v)
    qed
  qed (simp_all add: v)
qed


lemma new_YWidget_dialogs:
  assumes "new_YWidget a kind mc parent h = Inr h'" "a \<notin> dom h"
  shows "is_dialog h' c \<longleftrightarrow> is_dialog h c \<or> c = a \<and> kind = KDialog"
    "h' c = Some co \<Longrightarrow> c \<noteq> a \<Longrightarrow> \<exists>co'. h c = Some co' \<and> wo_parent co' = wo_parent co \<and> wo_kind co' = wo_kind co"
    "h' a = Some ao \<Longrightarrow> parent \<noteq> Some a \<Longrightarrow> wo_parent ao = parent"
  using assms
  by (auto simp: new_YWidget_def new_wobj_def is_dialog_def bind_result_Inr_iff split: option.splits if_splits)

lemma ui_ok_widgets:
  assumes ok: "ui_ok u" and w: "heap_ok w" "\<And>c. is_dialog w c \<longleftrightarrow> is_dialog (ui_widgets u) c"
    "\<And>c co. w c = Some co \<Longrightarrow> wo_kind co = KDialog \<Longrightarrow> wo_parent co = None"
  shows "ui_ok (u\<lparr>ui_widgets := w\<rparr>)"
proof -
  have "stack_ok (u\<lparr>ui_widgets := w\<rparr>)"
    using ok w(2,3) unfolding ui_ok_def stack_ok_def by auto
  moreover have "filters_ok (u\<lparr>ui_widgets := w\<rparr>)" using ok by (simp add: ui_ok_def filters_ok_def)
  moreover have "last_ok (u\<lparr>ui_widgets := w\<rparr>)" using ok by (simp add: ui_ok_def last_ok_def last_event_def)
  ultimately show ?thesis using w(1) by (simp add: ui_ok_def)
qed

lemma new_YWidget_ui_ok:
  assumes ok: "ui_ok u" and a: "a \<notin> dom (ui_widgets u)" "kind \<noteq> KDialog"
    and new: "new_YWidget a kind mc parent (ui_widgets u) = Inr w"
  shows "ui_ok (u\<lparr>ui_widgets := w\<rparr>)"
proof -
  have "heap_ok w" using new_YWidget_ok[OF _ a(1) new] ok by (simp add: ui_ok_def)
  moreover have "is_dialog w c \<longleftrightarrow> is_dialog (ui_widgets u) c" for c
    using new_YWidget_dialogs(1)[OF new a(1)] a(2) by simp
  moreover have "wo_parent co = None" if wc: "w c = Some co" "wo_kind co = KDialog" for c co
  proof (cases "c = a")
    case True
    then have "is_dialog w a" using wc by (auto simp: is_dialog_def)
    then show ?thesis using new_YWidget_dialogs(1)[OF new a(1), of a] a by (auto simp: is_dialog_def)
  next
    case False
    then obtain co' where "ui_widgets u c = Some co'" "wo_parent co' = wo_parent co" "wo_kind co' = wo_kind co"
      using new_YWidget_dialogs(2)[OF new a(1) wc(1)] by blast
    then show ?thesis using ok wc(2) unfolding ui_ok_def stack_ok_def by metis
  qed
  ultimately show ?thesis by (intro ui_ok_widgets[OF ok]) auto
qed

lemma delete_widget_ui_ok:
  assumes ok: "ui_ok u" and a: "\<not> is_dialog (ui_widgets u) a"
    and del: "delete_widget n a (ui_widgets u) = Some (Inr w)"
  shows "ui_ok (u\<lparr>ui_widgets := w\<rparr>)"
proof -
  have hp: "heap_ok (ui_widgets u)" using ok by (simp add: ui_ok_def)
  have w: "w = pruned a (ui_widgets u)" using delete_widget_result[OF hp del] by simp
  have root: "\<And>c co. ui_widgets u c = Some co \<Longrightarrow> wo_kind co = KDialog \<Longrightarrow> wo_parent co = None"
    using ok by (auto simp: ui_ok_def stack_ok_def)
  have "is_dialog w c \<longleftrightarrow> is_dialog (ui_widgets u) c" for c
    using is_dialog_pruned[where d = a and c = c, OF hp root] a by (auto simp: w)
  moreover have "wo_parent co = None" if "w c = Some co" "wo_kind co = KDialog" for c co
    using that root by (auto simp: w pruned_def split: if_splits)
  moreover have "heap_ok w" unfolding w by (rule pruned_ok[OF hp])
  ultimately show ?thesis by (intro ui_ok_widgets[OF ok]) auto
qed

text \<open>A new dialog before its two filters are created.\<close>

lemma new_dialog_plain_ok:
  assumes ok: "ui_ok u" and d: "d \<notin> dom (ui_widgets u)"
    and new: "new_YWidget d KDialog YSingleChildManager None (ui_widgets u) = Inr w"
  shows "ui_ok (u\<lparr>ui_widgets := w, ui_dialogs := (ui_dialogs u)(d \<mapsto> new_YDialogPrivate ty), ui_stack := d # ui_stack u\<rparr>)"
    (is "ui_ok ?v")
proof -
  have parts: "heap_ok (ui_widgets u)" "stack_ok u" "filters_ok u" "last_ok u" using ok by (simp_all add: ui_ok_def)
  have nd: "d \<notin> dom (ui_dialogs u)" using parts(2) d by (auto simp: stack_ok_def is_dialog_def)
  have "heap_ok w" by (rule new_YWidget_ok[OF parts(1) d new])
  moreover have "stack_ok ?v"
  proof -
    have "is_dialog w c \<longleftrightarrow> is_dialog (ui_widgets u) c \<or> c = d" for c
      using new_YWidget_dialogs(1)[OF new d] by simp
    moreover have "wo_parent co = None" if wc: "w c = Some co" "wo_kind co = KDialog" for c co
    proof (cases "c = d")
      case True
      then show ?thesis using new_YWidget_dialogs(3)[OF new d] wc(1) by simp
    next
      case False
      then obtain co' where "ui_widgets u c = Some co'" "wo_parent co' = wo_parent co" "wo_kind co' = wo_kind co"
        using new_YWidget_dialogs(2)[OF new d wc(1)] by blast
      then show ?thesis using parts(2) wc(2) unfolding stack_ok_def by metis
    qed
    ultimately show ?thesis using parts(2) nd unfolding stack_ok_def by auto
  qed
  moreover have "filters_ok ?v"
    unfolding filters_ok_def
  proof (intro conjI allI impI ballI)
    fix c x assume x: "ui_dialogs ?v c = Some x"
    show "distinct (d_eventFilterList x)"
      using x filters_okD(1)[OF parts(3)] by (auto simp: new_YDialogPrivate_def split: if_splits)
    fix f assume "f \<in> set (d_eventFilterList x)"
    then show "\<exists>y. ui_filters ?v f = Some y \<and> ef_dialog y = c"
      using x filters_okD(2)[OF parts(3)] by (auto simp: new_YDialogPrivate_def split: if_splits)
  next
    fix f y assume "ui_filters ?v f = Some y"
    then obtain x where "ui_dialogs u (ef_dialog y) = Some x" "f \<in> set (d_eventFilterList x)"
      using filters_okD(3)[OF parts(3), of f y] by auto
    then show "\<exists>x. ui_dialogs ?v (ef_dialog y) = Some x \<and> f \<in> set (d_eventFilterList x)" using nd by auto
  qed
  moreover have "last_ok ?v"
  proof (rule last_okI)
    have le: "last_event ?v c = last_event u c" for c
      using nd by (auto simp: last_event_def new_YDialogPrivate_def)
    show "all_valid (ui_events ?v)" using last_okD(1)[OF parts(4)] by simp
    show "e \<in> live (ui_events ?v)" if "last_event ?v c = Some e" for c e
      using last_okD(2)[OF parts(4)] that le by simp
    show "c = c'" if "last_event ?v c = Some e" "last_event ?v c' = Some e" for c c' e
      using last_okD(3)[OF parts(4)] that le by simp
  qed
  ultimately show ?thesis by (simp add: ui_ok_def)
qed

lemma new_YDialog_ok:
  assumes ok: "ui_ok u" and d: "d \<notin> dom (ui_widgets u)" and f: "f1 \<notin> dom (ui_filters u)" "f2 \<notin> dom (ui_filters u)" "f1 \<noteq> f2"
    and new: "new_YDialog d ty f1 f2 u = Inr v"
  shows "ui_ok v"
proof -
  obtain w u2 where w: "new_YWidget d KDialog YSingleChildManager None (ui_widgets u) = Inr w"
    and u2: "new_YEventFilter f1 YHelpButtonHandler (Some d)
      (u\<lparr>ui_widgets := w, ui_dialogs := (ui_dialogs u)(d \<mapsto> new_YDialogPrivate ty), ui_stack := d # ui_stack u\<rparr>) = Inr u2"
    and v: "new_YEventFilter f2 YRelNotesButtonHandler (Some d) u2 = Inr v"
    using new by (auto simp: new_YDialog_def bind_result_Inr_iff Let_def)
  have ok2: "ui_ok u2" by (rule new_YEventFilter_ok[OF new_dialog_plain_ok[OF ok d w] _ u2]) (use f in auto)
  have "dom (ui_filters u2) = insert f1 (dom (ui_filters u))"
    using u2 by (auto simp: new_YEventFilter_def addEventFilter_def on_dialog_Inr_iff)
  then show ?thesis by (intro new_YEventFilter_ok[OF ok2 _ v]) (use f in auto)
qed


lemma destroy_ok:
  assumes ok: "ui_ok u" and n: "card (dom (ui_widgets u)) \<le> n" and des: "destroy n d doThrow u = Some (Inr (r, v))"
  shows "ui_ok v"
proof (cases "isTopmostDialog d u")
  case True
  then obtain ds where top: "ui_stack u = d # ds" by (cases "ui_stack u") (auto simp: isTopmostDialog_def)
  obtain u' where "delete_dialog n d u = Some (Inr u')" "ui_ok u'" by (rule delete_top_dialog[OF ok top n])
  then show ?thesis using des True by (auto simp: destroy_def split: if_splits)
next
  case False
  then show ?thesis using des ok by (auto simp: destroy_def split: if_splits)
qed

lemma deleteTo_result:
  assumes ok: "ui_ok u" and n: "card (dom (ui_widgets u)) \<le> n" and d: "ui_widgets u d \<noteq> None"
  shows "\<exists>x v. deleteTo n (Some d) u = Some (Inr (x, v)) \<and> ui_ok v \<and> shrinks u v
    \<and> (x, ui_stack v) = (if d \<in> set (ui_stack u) then (None, tl (dropWhile (\<lambda>c. c \<noteq> d) (ui_stack u)))
         else (Some YUIDialogStackingOrderException, []))"
proof (cases "d \<in> set (ui_stack u)")
  case True
  then obtain ds below where st: "ui_stack u = ds @ d # below" "d \<notin> set ds" by (meson split_list_first)
  have "dropWhile (\<lambda>c. c \<noteq> d) (ui_stack u) = d # below"
    using st(2) by (auto simp: st(1) dropWhile_append)
  with deleteTo_loop_found[OF ok n st(1)] show ?thesis using True d by (auto simp: deleteTo_def)
next
  case False
  with deleteTo_loop_not_found[OF ok n refl False] show ?thesis using d by (auto simp: deleteTo_def)
qed

lemma new_event_ok:
  assumes ok: "ui_ok u" and ty: "ty \<noteq> InvalidEvent"
  shows "ui_ok (u\<lparr>ui_events := new_YEvent e ty cls dlg (ui_events u)\<rparr>)" (is "ui_ok ?v")
proof -
  have "last_ok ?v"
    using ok new_all_valid[OF _ ty] live_new[OF ty] unfolding ui_ok_def last_ok_def last_event_def by auto
  moreover have "stack_ok ?v \<longleftrightarrow> stack_ok u" "filters_ok ?v \<longleftrightarrow> filters_ok u"
    by (simp_all add: stack_ok_def filters_ok_def)
  ultimately show ?thesis using ok by (simp add: ui_ok_def)
qed

lemma on_dialog_dom: "on_dialog d f u = Inr v \<Longrightarrow> d \<in> dom (ui_dialogs u)"
  by (auto simp: on_dialog_Inr_iff)

lemma ui_life_ok: "ui_life u \<Longrightarrow> ui_ok u"
proof (induction rule: ui_life.induct)
  case start
  then show ?case
    by (simp add: empty_ui_def ui_ok_def heap_ok_def kid_rel_def parent_rel_def acyclic_def stack_ok_def
        is_dialog_def filters_ok_def last_ok_def last_event_def all_valid_def)
next
  case (dialog u d f1 f2 ty v)
  then show ?case using new_YDialog_ok by blast
next
  case (widget u a kind mc parent w)
  then show ?case using new_YWidget_ui_ok by blast
next
  case (delete u a n w)
  then show ?case using delete_widget_ui_ok by blast
next
  case (destroy u n d doThrow r v)
  then show ?case using destroy_ok by blast
next
  case (delete_to u n target x v)
  show ?case
  proof (cases target)
    case None
    then show ?thesis using delete_to by (simp add: deleteTo_def)
  next
    case (Some d)
    then have "ui_widgets u d \<noteq> None" using delete_to.hyps(3) by (auto simp: deleteTo_def split: if_splits)
    from deleteTo_result[OF delete_to.IH delete_to.hyps(2) this] show ?thesis using delete_to.hyps(3) Some by auto
  qed
next
  case (filter u f kind dlg v)
  then show ?case using new_YEventFilter_ok by blast
next
  case (unfilter u f v)
  then show ?case using delete_filter_ok by blast
next
  case (event u e ty cls dlg)
  then show ?case using new_event_ok by blast
next
  case (open_it u d v)
  then have "d \<in> dom (ui_dialogs u)" by (auto simp: open_dialog_def split: option.splits)
  with open_it show ?case using open_dialog_links same_links_ok by fastforce
next
  case (postpone u d v)
  then have "same_links u v" unfolding postponeShortcutCheck_def by (elim same_links_on_dialog) (simp add: links_def)
  with postpone show ?case using same_links_ok by blast
next
  case (multi_pass u d v)
  then have "same_links u v" unfolding requestMultiPassLayout_def by (elim same_links_on_dialog) (simp add: links_def)
  with multi_pass show ?case using same_links_ok by blast
next
  case (wait u app evs relnotes d r v)
  then have top: "isTopmostDialog d u" by (auto simp: waitForEvent_def split: if_splits)
  from waitForEvent_ok[OF wait.IH top wait.hyps(2,3), of relnotes] wait.hyps(4) show ?case by auto
next
  case (poll u app ev relnotes d r v)
  then have top: "isTopmostDialog d u" by (auto simp: pollEvent_def split: if_splits)
  from pollEvent_ok[OF poll.IH top poll.hyps(2,3), of relnotes] poll.hyps(4) show ?case by auto
qed

section \<open>The stack as an abstract data type\<close>

text \<open>
  What the operations that close dialogs promise, in terms of the stack alone: the exception they
  throw, if any, and the stack they leave. A dialog they are called with, unless it is a null pointer,
  must be one of the stack.
\<close>

datatype stack_op = Destroy nat | DeleteTopmost | DeleteTo "nat option" | DeleteAll

fun stack_spec :: "stack_op \<Rightarrow> nat list \<Rightarrow> yui_exception option \<times> nat list" where
  "stack_spec (Destroy d) st = (if st \<noteq> [] \<and> hd st = d then (None, tl st) else (Some YUIDialogStackingOrderException, st))"
| "stack_spec DeleteTopmost st = (if st = [] then (Some YUINoDialogException, st) else (None, tl st))"
| "stack_spec (DeleteTo None) st = (Some YUIInvalidWidgetException, st)"
| "stack_spec (DeleteTo (Some d)) st = (None, tl (dropWhile (\<lambda>c. c \<noteq> d) st))"
| "stack_spec DeleteAll st = (None, [])"

fun on_stack :: "stack_op \<Rightarrow> nat list \<Rightarrow> bool" where
  "on_stack (Destroy d) st \<longleftrightarrow> d \<in> set st"
| "on_stack (DeleteTo (Some d)) st \<longleftrightarrow> d \<in> set st"
| "on_stack _ st \<longleftrightarrow> True"

text \<open>The code's operations with the exception they throw as a value.\<close>

definition thrown :: "ui \<Rightarrow> ('a \<times> ui) run \<Rightarrow> (yui_exception option \<times> ui) option" where
  "thrown u m = map_option (\<lambda>r. case r of Inl e \<Rightarrow> (Some e, u) | Inr (_, v) \<Rightarrow> (None, v)) m"

fun stack_step :: "nat \<Rightarrow> stack_op \<Rightarrow> ui \<Rightarrow> (yui_exception option \<times> ui) option" where
  "stack_step n (Destroy d) u = thrown u (destroy n d True u)"
| "stack_step n DeleteTopmost u = thrown u (deleteTopmostDialog n True u)"
| "stack_step n (DeleteTo d) u =
     map_option (\<lambda>r. case r of Inl e \<Rightarrow> (Some e, u) | Inr (x, v) \<Rightarrow> (x, v)) (deleteTo n d u)"
| "stack_step n DeleteAll u = thrown u (map_option (\<lambda>r. bind_result r (\<lambda>v. return ((), v))) (deleteAllDialogs n u))"

text \<open>Running a sequence of operations.\<close>

fun run_ops :: "('op \<Rightarrow> 's \<Rightarrow> ('r \<times> 's) option) \<Rightarrow> 'op list \<Rightarrow> 's \<Rightarrow> ('r list \<times> 's) option" where
  "run_ops step [] s = Some ([], s)"
| "run_ops step (p # ps) s =
     (case step p s of
        None \<Rightarrow> None
      | Some (r, s1) \<Rightarrow> map_option (\<lambda>(rs, s2). (r # rs, s2)) (run_ops step ps s1))"

text \<open>The precondition of each operation holds at the time of its call, by the specification.\<close>

fun legal_ops :: "('op \<Rightarrow> 'a \<Rightarrow> bool) \<Rightarrow> ('op \<Rightarrow> 'a \<Rightarrow> 'r \<times> 'a) \<Rightarrow> 'op list \<Rightarrow> 'a \<Rightarrow> bool" where
  "legal_ops pre spec [] a \<longleftrightarrow> True"
| "legal_ops pre spec (p # ps) a \<longleftrightarrow> pre p a \<and> legal_ops pre spec ps (snd (spec p a))"

text \<open>
  Data refinement: a step that simulates its specification, on states of an invariant and where the
  precondition of the operation holds, does so over every sequence of such steps.
\<close>

locale simulation =
  fixes abs :: "'s \<Rightarrow> 'a"
    and inv :: "'s \<Rightarrow> bool"
    and pre :: "'op \<Rightarrow> 'a \<Rightarrow> bool"
    and step :: "'op \<Rightarrow> 's \<Rightarrow> ('r \<times> 's) option"
    and spec :: "'op \<Rightarrow> 'a \<Rightarrow> 'r \<times> 'a"
  assumes step_simulates:
      "inv s \<Longrightarrow> pre p (abs s) \<Longrightarrow> \<exists>r s'. step p s = Some (r, s') \<and> inv s' \<and> spec p (abs s) = (r, abs s')"
begin

lemma run_simulates:
  "inv s \<Longrightarrow> legal_ops pre spec ps (abs s) \<Longrightarrow>
     \<exists>rs s'. run_ops step ps s = Some (rs, s') \<and> inv s'
       \<and> run_ops (\<lambda>p a. Some (spec p a)) ps (abs s) = Some (rs, abs s')"
proof (induction ps arbitrary: s)
  case (Cons p ps)
  obtain r s1 where s1: "step p s = Some (r, s1)" "inv s1" "spec p (abs s) = (r, abs s1)"
    using step_simulates[of s p] Cons.prems by auto
  with Cons.IH[OF s1(2)] Cons.prems(2) show ?case by auto
qed simp

end

lemma on_stack_alive: "ui_ok u \<Longrightarrow> d \<in> set (ui_stack u) \<Longrightarrow> ui_widgets u d \<noteq> None"
  by (auto simp: ui_ok_def stack_ok_def is_dialog_def)

lemma stack_step_simulates:
  assumes ok: "ui_ok u" and n: "card (dom (ui_widgets u)) \<le> n" and p: "on_stack p (ui_stack u)"
  shows "\<exists>r v. stack_step n p u = Some (r, v) \<and> ui_ok v \<and> shrinks u v \<and> stack_spec p (ui_stack u) = (r, ui_stack v)"
proof -
  have top: "\<exists>v. delete_dialog n d u = Some (Inr v) \<and> ui_ok v \<and> shrinks u v \<and> ui_stack v = ds" if "ui_stack u = d # ds" for d ds
    using delete_top_dialog[OF ok that n] shrinks_pruned by metis
  consider (1) d where "p = Destroy d" | (2) d where "p = DeleteTo (Some d)" | (3) "p = DeleteTopmost"
    | (4) "p = DeleteTo None" | (5) "p = DeleteAll" by (metis not_Some_eq stack_op.exhaust)
  then show ?thesis
  proof cases
    case (1 d)
    then have d: "ui_widgets u d \<noteq> None" using on_stack_alive[OF ok] p by simp
    show ?thesis
    proof (cases "isTopmostDialog d u")
      case True
      then obtain ds where st: "ui_stack u = d # ds" by (cases "ui_stack u") (auto simp: isTopmostDialog_def)
      then show ?thesis using top[OF st] True d 1 by (auto simp: destroy_def thrown_def)
    next
      case False
      then show ?thesis using d ok 1 by (auto simp: destroy_def thrown_def isTopmostDialog_def)
    qed
  next
    case (2 d)
    then have d: "d \<in> set (ui_stack u)" using p by simp
    from deleteTo_result[OF ok n on_stack_alive[OF ok d]] obtain x v where
      "deleteTo n (Some d) u = Some (Inr (x, v))" "ui_ok v" "shrinks u v"
      "(x, ui_stack v) = (None, tl (dropWhile (\<lambda>c. c \<noteq> d) (ui_stack u)))" using d by auto
    then show ?thesis using 2 by auto
  next
    case 3
    show ?thesis
    proof (cases "ui_stack u")
      case Nil
      then show ?thesis using ok 3 by (simp add: deleteTopmostDialog_def thrown_def)
    next
      case (Cons d ds)
      then show ?thesis using top[OF Cons] 3 by (auto simp: deleteTopmostDialog_def thrown_def)
    qed
  next
    case 4
    then show ?thesis using ok by (simp add: deleteTo_def)
  next
    case 5
    then show ?thesis using deleteAllDialogs_all[OF ok n refl] by (auto simp: thrown_def)
  qed
qed

interpretation dialogs: simulation ui_stack "\<lambda>u. ui_ok u \<and> card (dom (ui_widgets u)) \<le> n" on_stack "stack_step n" stack_spec
  for n
proof
  fix u p
  assume u: "ui_ok u \<and> card (dom (ui_widgets u)) \<le> n" and p: "on_stack p (ui_stack u)"
  from stack_step_simulates[of u n p] u p obtain r v where
    v: "stack_step n p u = Some (r, v)" "ui_ok v" "shrinks u v" "stack_spec p (ui_stack u) = (r, ui_stack v)" by blast
  then show "\<exists>r s'. stack_step n p u = Some (r, s') \<and> (ui_ok s' \<and> card (dom (ui_widgets s')) \<le> n)
      \<and> stack_spec p (ui_stack u) = (r, ui_stack s')"
    using shrinks_card[OF v(3)] u by blast
qed

section \<open>A sample history\<close>

text \<open>
  A main dialog, a popup dialog above it with a button, an event of the main dialog, a timeout and an
  event of the button.
\<close>

definition popup_ui :: ui where
  "popup_ui =
     \<lparr>ui_widgets =
        [0 \<mapsto> new_wobj KDialog YSingleChildManager None,
         2 \<mapsto> new_wobj (KPushButton False False) YChildrenRejector (Some 1),
         1 \<mapsto> (new_wobj KDialog YSingleChildManager None)\<lparr>wo_manager := \<lparr>cm_class = YSingleChildManager, cm_children = [2]\<rparr>\<rparr>],
      ui_events = \<lparr>eh_events = Map.empty, eh_nextSerial = 0\<rparr>,
      ui_dialogs =
        [0 \<mapsto> (new_YDialogPrivate YMainDialog)\<lparr>d_eventFilterList := [0, 1]\<rparr>,
         1 \<mapsto> (new_YDialogPrivate YPopupDialog)\<lparr>d_eventFilterList := [2, 3]\<rparr>],
      ui_filters =
        [0 \<mapsto> \<lparr>ef_kind = YHelpButtonHandler, ef_dialog = 0\<rparr>, 1 \<mapsto> \<lparr>ef_kind = YRelNotesButtonHandler, ef_dialog = 0\<rparr>,
         2 \<mapsto> \<lparr>ef_kind = YHelpButtonHandler, ef_dialog = 1\<rparr>, 3 \<mapsto> \<lparr>ef_kind = YRelNotesButtonHandler, ef_dialog = 1\<rparr>],
      ui_stack = [1, 0], ui_log = []\<rparr>"

lemma popup_life: "ui_life popup_ui"
proof -
  define u1 where "u1 = (case new_YDialog 0 YMainDialog 0 1 empty_ui of Inr u \<Rightarrow> u | Inl _ \<Rightarrow> empty_ui)"
  have n1: "new_YDialog 0 YMainDialog 0 1 empty_ui = Inr u1"
    by (simp add: u1_def new_YDialog_def empty_ui_def new_YWidget_def new_YEventFilter_def addEventFilter_def on_dialog_def
        Let_def new_YDialogPrivate_def)
  then have l1: "ui_life u1" by (intro ui_life.dialog[OF ui_life.start]) (simp_all add: empty_ui_def)
  define u2 where "u2 = (case new_YDialog 1 YPopupDialog 2 3 u1 of Inr u \<Rightarrow> u | Inl _ \<Rightarrow> empty_ui)"
  have u1: "u1 = popup_ui\<lparr>ui_widgets := [0 \<mapsto> new_wobj KDialog YSingleChildManager None],
      ui_dialogs := [0 \<mapsto> (new_YDialogPrivate YMainDialog)\<lparr>d_eventFilterList := [0, 1]\<rparr>],
      ui_filters := [0 \<mapsto> \<lparr>ef_kind = YHelpButtonHandler, ef_dialog = 0\<rparr>, 1 \<mapsto> \<lparr>ef_kind = YRelNotesButtonHandler, ef_dialog = 0\<rparr>],
      ui_stack := [0]\<rparr>"
    by (simp add: u1_def new_YDialog_def empty_ui_def new_YWidget_def new_YEventFilter_def addEventFilter_def on_dialog_def
        Let_def new_YDialogPrivate_def popup_ui_def)
  have u2: "new_YDialog 1 YPopupDialog 2 3 u1 = Inr (popup_ui\<lparr>ui_widgets := [0 \<mapsto> new_wobj KDialog YSingleChildManager None,
      1 \<mapsto> new_wobj KDialog YSingleChildManager None]\<rparr>)"
    by (simp add: u1 new_YDialog_def new_YWidget_def new_YEventFilter_def addEventFilter_def on_dialog_def
        Let_def new_YDialogPrivate_def popup_ui_def fun_eq_iff)
  have l2: "ui_life (popup_ui\<lparr>ui_widgets := [0 \<mapsto> new_wobj KDialog YSingleChildManager None,
      1 \<mapsto> new_wobj KDialog YSingleChildManager None]\<rparr>)"
    by (rule ui_life.dialog[OF l1 _ _ _ _ u2]) (simp_all add: u1)
  have "new_YWidget 2 (KPushButton False False) YChildrenRejector (Some 1)
      [0 \<mapsto> new_wobj KDialog YSingleChildManager None, 1 \<mapsto> new_wobj KDialog YSingleChildManager None] = Inr (ui_widgets popup_ui)"
    by (simp add: new_YWidget_def new_wobj_def addChild_def cm_contains_def cm_add_def popup_ui_def fun_eq_iff)
  with ui_life.widget[OF l2, of 2 "KPushButton False False" YChildrenRejector "Some 1" "ui_widgets popup_ui"]
  show ?thesis by simp
qed

definition events_ui :: ui where
  "events_ui = popup_ui\<lparr>ui_events :=
     new_YEvent 12 WidgetEvent (YWidgetEvent (Some 2) Activated) (Some 1)
      (new_YEvent 11 TimeoutEvent PlainEvent (Some 1)
        (new_YEvent 10 WidgetEvent (YWidgetEvent (Some 0) ValueChanged) (Some 0) (ui_events popup_ui)))\<rparr>"

definition pass_on :: app_filters where
  "pass_on f e h = (Some e, h)"

lemma pass_on_documented: "documented ws pass_on"
  by (simp add: documented_def pass_on_def)

text \<open>A filter that returns a cancel event at a free address in place of every event.\<close>

definition cancel_instead :: app_filters where
  "cancel_instead f e h =
     (if eh_events h 20 = None then (Some 20, new_YEvent 20 CancelEvent PlainEvent None h) else (Some e, h))"

lemma cancel_instead_documented: "documented ws cancel_instead"
proof -
  have "widget_alive ws (new_YEvent 20 CancelEvent PlainEvent None h) 20" for h
    by (simp add: widget_alive_def new_YEvent_def)
  moreover have "a \<notin> dom (eh_events h) \<longleftrightarrow> eh_events h a = None" for a h by auto
  ultimately show ?thesis unfolding documented_def cancel_instead_def by fastforce
qed

lemma events_life: "ui_life events_ui"
proof -
  let ?e1 = "new_YEvent 10 WidgetEvent (YWidgetEvent (Some 0) ValueChanged) (Some 0) (ui_events popup_ui)"
  let ?e2 = "new_YEvent 11 TimeoutEvent PlainEvent (Some 1) ?e1"
  have l1: "ui_life (popup_ui\<lparr>ui_events := ?e1\<rparr>)"
    by (rule ui_life.event[OF popup_life]) (simp_all add: popup_ui_def)
  have l2: "ui_life ((popup_ui\<lparr>ui_events := ?e1\<rparr>)\<lparr>ui_events := new_YEvent 11 TimeoutEvent PlainEvent (Some 1)
      (ui_events (popup_ui\<lparr>ui_events := ?e1\<rparr>))\<rparr>)"
    by (rule ui_life.event[OF l1]) (simp_all add: new_YEvent_def popup_ui_def)
  then have l2': "ui_life (popup_ui\<lparr>ui_events := ?e2\<rparr>)" by simp
  have "ui_life ((popup_ui\<lparr>ui_events := ?e2\<rparr>)\<lparr>ui_events := new_YEvent 12 WidgetEvent (YWidgetEvent (Some 2) Activated) (Some 1)
      (ui_events (popup_ui\<lparr>ui_events := ?e2\<rparr>))\<rparr>)"
    by (rule ui_life.event[OF l2']) (simp_all add: new_YEvent_def popup_ui_def)
  then show ?thesis by (simp add: events_ui_def)
qed

lemma events_top: "isTopmostDialog 1 events_ui"
  by (simp add: isTopmostDialog_def events_ui_def popup_ui_def)

lemma events_arriving: "arriving [Some 10, None, Some 12] events_ui" "arriving [Some 11] events_ui"
  by (auto simp: arriving_def pending_def widget_alive_def events_ui_def popup_ui_def new_YEvent_def live_def distinct_events_def last_event_def
      new_YDialogPrivate_def isValidEvent_def split: if_splits option.splits)

lemma events_plain: "plain_event events_ui 1 12" "plain_event events_ui 1 11"
proof -
  have "findDialog (ui_widgets events_ui) (Some 2) = Some (Inr (Some 1))"
    by (subst findDialog.simps, subst findDialog.simps) (simp add: events_ui_def popup_ui_def new_wobj_def)
  then show "plain_event events_ui 1 12"
    by (simp add: plain_event_def belongs_def) (simp add: events_ui_def new_YEvent_def popup_ui_def new_wobj_def)
  show "plain_event events_ui 1 11"
    by (simp add: plain_event_def belongs_def events_ui_def new_YEvent_def)
qed

text \<open>The same with a filter of the application on the popup dialog.\<close>

definition app_ui :: ui where
  "app_ui = events_ui\<lparr>ui_filters := (ui_filters events_ui)(4 \<mapsto> \<lparr>ef_kind = AppFilter, ef_dialog = 1\<rparr>),
     ui_dialogs := (ui_dialogs events_ui)(1 \<mapsto> (new_YDialogPrivate YPopupDialog)\<lparr>d_eventFilterList := [2, 3, 4]\<rparr>)\<rparr>"

lemma app_life: "ui_life app_ui"
proof -
  have "new_YEventFilter 4 AppFilter (Some 1) events_ui = Inr app_ui"
    by (simp add: new_YEventFilter_def addEventFilter_def on_dialog_def app_ui_def events_ui_def popup_ui_def)
  then show ?thesis by (intro ui_life.filter[OF events_life]) (auto simp: events_ui_def popup_ui_def)
qed

lemma app_arriving: "arriving [Some 10, None, Some 12] app_ui"
  using events_arriving(1)
  by (auto simp: arriving_def pending_def widget_alive_def app_ui_def last_event_def new_YDialogPrivate_def split: if_splits)

section \<open>Properties\<close>

text \<open>
  C9: In every state that the operations on dialogs, widgets, filters and events can lead to, the
  dialogs in memory are exactly those of the stack and have no parent, the widget tree is
  consistent, a filter in memory is in the list of the dialog it belongs to and in no other, and the
  last event of a dialog is in memory and is not the last event of another dialog. The operations are
  called on objects in memory; the filters of the application, called while a dialog waits or polls,
  consume an event, pass it on or return a new event; the events the toolkit delivers are in memory,
  are not those a dialog owns, and have no widget that was deleted.
\<close>

theorem dialogs_consistent:
  assumes "ui_life u"
  shows "ui_ok u"
  using ui_life_ok[OF assms] .

theorem dialogs_consistent_witness: "ui_life events_ui \<and> ui_ok events_ui"
  using dialogs_consistent[OF events_life] events_life by simp

text \<open>
  C3: The operations that take dialogs off the stack implement an abstract stack: over every sequence
  of calls of destroy, deleteTopmostDialog, deleteTo and deleteAllDialogs, each on a dialog that is on
  the stack at the time of the call, or for deleteTo on a null pointer, they return, throw exactly the
  exceptions that the specification has, and leave the stack it has; fuel for as many nested
  destructors as there are widgets is enough.
\<close>

theorem dialog_stack_refines:
  assumes "ui_life u" "card (dom (ui_widgets u)) \<le> n" "legal_ops on_stack stack_spec ps (ui_stack u)"
  shows "\<exists>rs v. run_ops (stack_step n) ps u = Some (rs, v) \<and> ui_ok v
    \<and> run_ops (\<lambda>p st. Some (stack_spec p st)) ps (ui_stack u) = Some (rs, ui_stack v)"
  using dialogs.run_simulates[where s = u and n = n and ps = ps] ui_life_ok[OF assms(1)] assms(2,3) by blast

theorem dialog_stack_refines_witness:
  "\<exists>v. run_ops (stack_step 3) [Destroy 0, DeleteTo None, Destroy 1, DeleteTo (Some 0), DeleteTopmost] popup_ui =
      Some ([Some YUIDialogStackingOrderException, Some YUIInvalidWidgetException, None, None, Some YUINoDialogException], v)
    \<and> ui_stack v = []"
proof -
  have "card (dom (ui_widgets popup_ui)) \<le> 3" by (simp add: popup_ui_def card_insert_if)
  moreover have "ui_stack popup_ui = [1, 0]" by (simp add: popup_ui_def)
  ultimately show ?thesis
    using dialog_stack_refines[OF popup_life,
      where n = 3 and ps = "[Destroy 0, DeleteTo None, Destroy 1, DeleteTo (Some 0), DeleteTopmost]"] by auto
qed

text \<open>
  C4: When the topmost dialog waits, and the filters of the application do what their documentation
  allows (consume an event, pass it on, or return a new event, whose widget is in memory), no event is
  read after it was freed or freed twice, whatever events the toolkit delivers that are in memory, not
  owned by a dialog and not of a deleted widget. If an event is returned, it comes from the first event
  that gets through, which is without a widget or of a live widget of this dialog: it is this event,
  unchanged, or a new one a filter made, without a widget or of a live widget. It is in memory and the
  dialog owns it. The previous event of the dialog, all events before the one that got through, and
  this one if it was replaced, are freed, and no other; if no event gets through, all of them are. The
  stack and the widgets stay.
\<close>

theorem waitForEvent_delivers:
  assumes "ui_life u" "isTopmostDialog d u" "documented (ui_widgets u) app" "arriving evs u"
  shows "\<exists>r v. waitForEvent relnotes app d evs u = Some (Inr (r, v)) \<and> ui_ok v
    \<and> ui_stack v = ui_stack u \<and> ui_widgets v = ui_widgets u \<and> last_event v d = r
    \<and> (case r of
         None \<Rightarrow> live (ui_events v) = live (ui_events u) - set_option (last_event u d) - in_flight evs
       | Some e \<Rightarrow> delivered app d evs u e v)"
  using waitForEvent_ok[OF ui_life_ok[OF assms(1)] assms(2-4), of relnotes] by blast

theorem waitForEvent_delivers_witness:
  "(\<exists>r v. waitForEvent False pass_on 1 [Some 10, None, Some 12] events_ui = Some (Inr (r, v)) \<and> ui_ok v
     \<and> ui_stack v = [1, 0] \<and> last_event v 1 = r)
   \<and> (\<exists>r v. waitForEvent False cancel_instead 1 [Some 10, None, Some 12] app_ui = Some (Inr (r, v)) \<and> ui_ok v
     \<and> ui_stack v = [1, 0] \<and> last_event v 1 = r)"
proof -
  have st: "ui_stack events_ui = [1, 0]" "ui_stack app_ui = [1, 0]" by (simp_all add: app_ui_def events_ui_def popup_ui_def)
  have top: "isTopmostDialog 1 app_ui" by (simp add: isTopmostDialog_def st)
  show ?thesis
    using waitForEvent_delivers[OF events_life events_top pass_on_documented events_arriving(1), of False]
      waitForEvent_delivers[OF app_life top cancel_instead_documented app_arriving, of False]
    unfolding st by blast
qed

text \<open>
  C10: The topmost dialog does not wait for ever: if among the events that arrive is one of a live
  widget of this dialog, or one without a widget, that is not from a button for help or release notes
  and that the filters of the application pass on, waitForEvent returns an event. The other events are
  in memory and not of deleted widgets, and the filters may consume them, pass them on or return new
  ones for them.
\<close>

theorem waitForEvent_returns:
  assumes "ui_life u" "isTopmostDialog d u" "documented (ui_widgets u) app" "arriving evs u"
    and "Some e \<in> set evs" "plain_event u d e" "\<forall>f h. app f e h = (Some e, h)"
  shows "\<exists>e' v. waitForEvent relnotes app d evs u = Some (Inr (Some e', v))"
  using waitForEvent_ok[OF ui_life_ok[OF assms(1)] assms(2-4), of relnotes] assms(5-7) by auto

theorem waitForEvent_returns_witness:
  "\<exists>e' v. waitForEvent False pass_on 1 [Some 10, None, Some 12] events_ui = Some (Inr (Some e', v))"
  by (rule waitForEvent_returns[OF events_life events_top pass_on_documented events_arriving(1) _ events_plain(1)])
    (simp_all add: pass_on_def)

text \<open>
  C39: pollEvent overwrites the last event of the dialog without deleting it: afterwards the event is
  still in memory, and no dialog owns it any more. The header file promises that the event is valid
  until the next call of waitForEvent or pollEvent, and waitForEvent does delete it. The filters of the
  application consume the new event, pass it on or return another new one.
\<close>

theorem pollEvent_leaks:
  assumes "ui_life u" "isTopmostDialog d u" "documented (ui_widgets u) app" "arriving [ev] u" "last_event u d = Some e"
  shows "\<exists>r v. pollEvent relnotes app d ev u = Some (Inr (r, v)) \<and> e \<in> live (ui_events v)
    \<and> (\<forall>c. last_event v c \<noteq> Some e)"
proof -
  have ok: "ui_ok u" by (rule ui_life_ok[OF assms(1)])
  then have la: "last_ok u" by (simp add: ui_ok_def)
  from pollEvent_ok[OF ok assms(2-4), of relnotes] obtain r v where
    v: "pollEvent relnotes app d ev u = Some (Inr (r, v))" "last_event v d = r"
      "live (ui_events v) = live (ui_events u) - set_option ev \<union> set_option r"
      "r \<noteq> Some e" "\<And>c. c \<noteq> d \<Longrightarrow> last_event v c = last_event u c" using assms(5) by blast
  have "e \<notin> set_option ev" using assms(4,5) by (auto simp: arriving_def)
  then have "e \<in> live (ui_events v)" using last_okD(2)[OF la assms(5)] by (simp add: v(3))
  moreover have "last_event v c \<noteq> Some e" for c
    using v(2,4) v(5)[of c] assms(5) last_okD(3)[OF la] by (cases "c = d") auto
  ultimately show ?thesis using v(1) by blast
qed

theorem pollEvent_leaks_witness:
  "\<exists>u r v. ui_life u \<and> last_event u 1 = Some 11 \<and> pollEvent False pass_on 1 None u = Some (Inr (r, v))
     \<and> 11 \<in> live (ui_events v) \<and> last_event v 1 \<noteq> Some 11"
proof -
  from waitForEvent_ok[OF ui_life_ok[OF events_life] events_top pass_on_documented events_arriving(2), of False]
  obtain r u where u: "waitForEvent False pass_on 1 [Some 11] events_ui = Some (Inr (r, u))" "ui_stack u = ui_stack events_ui"
    "last_event u 1 = r" "\<And>e. r = Some e \<Longrightarrow> delivered pass_on 1 [Some 11] events_ui e u" "r \<noteq> None"
    using events_plain(2) by (auto simp: pass_on_def split: option.splits)
  from u(5) obtain e where e: "r = Some e" by auto
  have "\<not> made pass_on e" by (auto simp: made_def pass_on_def live_def)
  then have "e = 11" using u(4)[OF e] by (auto simp: delivered_def Cons_eq_append_conv)
  then have r: "last_event u 1 = Some 11" using u(3) e by simp
  have life: "ui_life u" by (rule ui_life.wait[OF events_life pass_on_documented events_arriving(2) u(1)])
  have "isTopmostDialog 1 u" using events_top u(2) by (simp add: isTopmostDialog_def)
  moreover have "arriving [None] u" by (simp add: arriving_def pending_def distinct_events_def)
  ultimately show ?thesis using pollEvent_leaks[where ev = None and relnotes = False, OF life _ pass_on_documented _ r] life r by blast
qed

end
