(* ===== verification/Yui_LogView.thy ===== *)
theory Yui_LogView
  imports Yui_Shortcut
begin

text \<open>
  The log of \<^verbatim>\<open>YLogView.cc\<close>: a queue of lines with an upper limit, filled by splitting texts into
  lines. The index loop that splits a str equals a structural reference function, appending keeps
  exactly the last lines, as many as the limit or the log before has, a str that was set is read back,
  and changing the limit removes the wrong number of lines.
\<close>

section \<open>State and operations\<close>

record YLogView =
  lv_visibleLines :: int
  lv_maxLines :: int
  lv_logText :: "string list"

definition new_YLogView :: "int \<Rightarrow> int \<Rightarrow> YLogView" where
  "new_YLogView visibleLines maxLines = \<lparr>lv_visibleLines = visibleLines, lv_maxLines = maxLines, lv_logText = []\<rparr>"

definition setVisibleLines :: "int \<Rightarrow> YLogView \<Rightarrow> YLogView" where
  "setVisibleLines n v = v\<lparr>lv_visibleLines := n\<rparr>"

text \<open>
  \<^verbatim>\<open>pop_front\<close> of an empty deque is undefined.
\<close>

definition setMaxLines :: "int \<Rightarrow> YLogView \<Rightarrow> YLogView result" where
  "setMaxLines newMaxLines v =
     (let linesToDelete = nat (lv_maxLines v - newMaxLines)
      in if linesToDelete \<le> length (lv_logText v)
         then return (v\<lparr>lv_maxLines := newMaxLines, lv_logText := drop linesToDelete (lv_logText v)\<rparr>)
         else throw (undefined_behaviour ''pop_front of an empty deque''))"

definition logText :: "YLogView \<Rightarrow> string" where
  "logText v =
     (let str = concat (lv_logText v)
      in if str \<noteq> [] \<and> last str = CHR 0x0A then butlast str else str)"

definition lastLine :: "YLogView \<Rightarrow> string" where
  "lastLine v = (if lv_logText v = [] then [] else last (lv_logText v))"

definition lines :: "YLogView \<Rightarrow> nat" where
  "lines v = length (lv_logText v)"

definition appendLine :: "string \<Rightarrow> YLogView \<Rightarrow> YLogView" where
  "appendLine line v =
     (let log = lv_logText v @ [line]
      in v\<lparr>lv_logText := (if lv_maxLines v > 0 \<and> int (length log) > lv_maxLines v then tl log else log)\<rparr>)"

text \<open>The loop of \<^verbatim>\<open>appendLines\<close>. The code after the loop is never reached with str left over.\<close>

function appendLines_from :: "string \<Rightarrow> nat \<Rightarrow> YLogView \<Rightarrow> YLogView" where
  "appendLines_from str to v =
     (if to < length str
      then let to' = (case str_find (CHR 0x0A) str to of None \<Rightarrow> length str | Some p \<Rightarrow> p + 1)
           in appendLines_from str to' (appendLine (take (to' - to) (drop to str)) v)
      else v)"
  by pat_completeness auto
termination
  by (relation "measure (\<lambda>(str, to, v). length str - to)")
    (auto dest!: str_find_bounds split: option.splits)

declare appendLines_from.simps [simp del]

definition appendLines :: "string \<Rightarrow> YLogView \<Rightarrow> YLogView" where
  "appendLines newText v = appendLines_from newText 0 v"

definition clearText :: "YLogView \<Rightarrow> YLogView" where
  "clearText v = v\<lparr>lv_logText := []\<rparr>"

definition setLogText :: "string \<Rightarrow> YLogView \<Rightarrow> YLogView" where
  "setLogText str v = (if str = logText v then v else appendLines str (v\<lparr>lv_logText := []\<rparr>))"

section \<open>Splitting into lines\<close>

fun split_lines :: "string \<Rightarrow> string list" where
  "split_lines [] = []"
| "split_lines (c # cs) =
     (if c = CHR 0x0A then [c] # split_lines cs
      else (case split_lines cs of [] \<Rightarrow> [[c]] | l # ls \<Rightarrow> (c # l) # ls))"

lemma concat_split_lines [simp]: "concat (split_lines str) = str"
  by (induction str) (auto split: list.splits)

lemma split_lines_Nil_iff [simp]: "split_lines str = [] \<longleftrightarrow> str = []"
  by (cases str) (auto split: list.splits)

text \<open>Every line but the last ends with the newline, and has no other.\<close>

lemma split_lines_newline:
  "CHR 0x0A \<notin> set l \<Longrightarrow> split_lines (l @ CHR 0x0A # rest) = (l @ [CHR 0x0A]) # split_lines rest"
  by (induction l) auto

lemma split_lines_single: "CHR 0x0A \<notin> set l \<Longrightarrow> l \<noteq> [] \<Longrightarrow> split_lines l = [l]"
proof (induction l)
  case (Cons c l)
  then show ?case by (cases l) auto
qed simp

lemma str_find_None: "str_find c s pos = None \<Longrightarrow> c \<notin> set (drop pos s)"
proof (induction c s pos rule: str_find.induct)
  case (1 c s pos)
  show ?case
  proof (cases "pos < length s")
    case True
    then have "s ! pos \<noteq> c" "str_find c s (Suc pos) = None"
      using "1.prems" by (auto simp: str_find.simps[of c s pos] split: if_splits)
    then show ?thesis using "1.IH"[OF True] True by (simp add: Cons_nth_drop_Suc[symmetric])
  qed simp
qed

lemma str_find_first: "str_find c s pos = Some p \<Longrightarrow> c \<notin> set (take (p - pos) (drop pos s))"
proof (induction c s pos rule: str_find.induct)
  case (1 c s pos)
  show ?case
  proof (cases "pos < length s \<and> s ! pos \<noteq> c")
    case True
    then have f: "str_find c s (Suc pos) = Some p" using "1.prems" by (simp add: str_find.simps[of c s pos])
    then have "Suc pos \<le> p" using str_find_bounds by blast
    then obtain k where k: "p - pos = Suc k" "k = p - Suc pos" by (cases "p - pos") auto
    then show ?thesis using "1.IH" True f by (auto simp: Cons_nth_drop_Suc[symmetric])
  next
    case False
    then have "p = pos" using "1.prems" by (auto simp: str_find.simps[of c s pos] split: if_splits)
    then show ?thesis by simp
  qed
qed

lemma appendLines_from_fold:
  "appendLines_from str to v = fold appendLine (split_lines (drop to str)) v"
proof (induction str to v rule: appendLines_from.induct)
  case (1 str to v)
  show ?case
  proof (cases "to < length str")
    case True
    show ?thesis
    proof (cases "str_find (CHR 0x0A) str to")
      case None
      have "split_lines (drop to str) = [drop to str]"
        using str_find_None[OF None] True by (intro split_lines_single) auto
      then show ?thesis
        using "1.IH"[OF True refl] True None by (simp add: appendLines_from.simps[of str to])
    next
      case (Some p)
      have p: "to \<le> p" "p < length str" "str ! p = CHR 0x0A" using str_find_bounds[OF Some] by auto
      have "drop to str = take (p - to) (drop to str) @ CHR 0x0A # drop (Suc p) str"
        using p id_take_nth_drop[of "p - to" "drop to str"] by simp
      then have "split_lines (drop to str) = (take (p - to) (drop to str) @ [CHR 0x0A]) # split_lines (drop (Suc p) str)"
        using split_lines_newline[OF str_find_first[OF Some]] by metis
      moreover have "take (Suc p - to) (drop to str) = take (p - to) (drop to str) @ [CHR 0x0A]"
        using p by (simp add: Suc_diff_le take_Suc_conv_app_nth)
      ultimately show ?thesis
        using "1.IH"[OF True refl] True Some by (simp add: appendLines_from.simps[of str to])
    qed
  qed (simp add: appendLines_from.simps[of str to])
qed

lemma appendLines_fold: "appendLines str v = fold appendLine (split_lines str) v"
  by (simp add: appendLines_def appendLines_from_fold)

section \<open>The limit\<close>

text \<open>The last \<open>n\<close> lines; a limit of zero or less is none.\<close>

definition last_lines :: "int \<Rightarrow> string list \<Rightarrow> string list" where
  "last_lines n ls = (if n > 0 then drop (length ls - nat n) ls else ls)"

definition within_limit :: "YLogView \<Rightarrow> bool" where
  "within_limit v \<longleftrightarrow> (lv_maxLines v > 0 \<longrightarrow> int (length (lv_logText v)) \<le> lv_maxLines v)"

lemma appendLine_within: "within_limit v \<Longrightarrow> within_limit (appendLine l v)"
  by (auto simp: within_limit_def appendLine_def Let_def)

lemma appendLine_last_lines:
  assumes "within_limit v"
  shows "lv_logText (appendLine l v) = last_lines (lv_maxLines v) (lv_logText v @ [l])"
proof (cases "lv_maxLines v > 0 \<and> int (length (lv_logText v) + 1) > lv_maxLines v")
  case True
  then have "length (lv_logText v) + 1 - nat (lv_maxLines v) = 1" using assms by (auto simp: within_limit_def nat_eq_iff)
  then show ?thesis using True by (auto simp: appendLine_def last_lines_def drop_Suc tl_append split: list.splits)
next
  case False
  then show ?thesis by (auto simp: appendLine_def last_lines_def)
qed

lemma last_lines_append: "last_lines n (last_lines n ls @ ms) = last_lines n (ls @ ms)"
  by (cases "length ls \<le> nat n") (simp_all add: last_lines_def add.commute)

lemma fold_appendLine:
  "within_limit v \<Longrightarrow>
     lv_logText (fold appendLine ls v) = last_lines (lv_maxLines v) (lv_logText v @ ls)
     \<and> within_limit (fold appendLine ls v) \<and> lv_maxLines (fold appendLine ls v) = lv_maxLines v"
proof (induction ls arbitrary: v)
  case Nil
  then show ?case by (auto simp: within_limit_def last_lines_def)
next
  case (Cons l ls)
  have "lv_maxLines (appendLine l v) = lv_maxLines v" by (simp add: appendLine_def Let_def)
  then show ?case
    using Cons.IH[OF appendLine_within[OF Cons.prems, of l]] appendLine_last_lines[OF Cons.prems, of l]
      last_lines_append[of "lv_maxLines v" "lv_logText v @ [l]" ls] by simp
qed

text \<open>
  The lines a log keeps: as many as the limit allows, and no fewer than it had, since a line is only
  dropped for a line that is added.
\<close>

definition capacity :: "YLogView \<Rightarrow> int" where
  "capacity v = (if lv_maxLines v > 0 then max (lv_maxLines v) (int (length (lv_logText v))) else 0)"

lemma appendLine_capacity:
  "lv_logText (appendLine l v) = last_lines (capacity v) (lv_logText v @ [l])" "capacity (appendLine l v) = capacity v"
proof -
  show "lv_logText (appendLine l v) = last_lines (capacity v) (lv_logText v @ [l])"
  proof (cases "lv_maxLines v > 0 \<and> int (length (lv_logText v) + 1) > lv_maxLines v")
    case True
    then have "length (lv_logText v) + 1 - nat (capacity v) = 1" by (auto simp: capacity_def nat_eq_iff)
    then show ?thesis
      using True by (auto simp: appendLine_def last_lines_def capacity_def drop_Suc tl_append split: list.splits)
  next
    case False
    then show ?thesis by (auto simp: appendLine_def last_lines_def capacity_def)
  qed
  show "capacity (appendLine l v) = capacity v" by (auto simp: capacity_def appendLine_def Let_def)
qed

lemma fold_appendLine_capacity:
  "lv_logText (fold appendLine ls v) = last_lines (capacity v) (lv_logText v @ ls)"
proof (induction ls arbitrary: v)
  case Nil
  then show ?case by (auto simp: capacity_def last_lines_def)
next
  case (Cons l ls)
  then show ?case
    using last_lines_append[of "capacity v" "lv_logText v @ [l]" ls] by (simp add: appendLine_capacity)
qed

text \<open>Without the last newline.\<close>

definition chomp :: "string \<Rightarrow> string" where
  "chomp str = (if str \<noteq> [] \<and> last str = CHR 0x0A then butlast str else str)"

lemma logText_chomp: "logText v = chomp (concat (lv_logText v))"
  by (simp add: logText_def chomp_def Let_def)

lemma drop_eq_drop_iff: "drop i ls = drop j ls \<longleftrightarrow> i = j \<or> length ls \<le> min i j"
proof
  assume "drop i ls = drop j ls"
  then have "length ls - i = length ls - j" by (metis length_drop)
  then show "i = j \<or> length ls \<le> min i j" by auto
qed auto

lemma shrink_arith:
  "l \<le> m \<Longrightarrow> 0 < n \<Longrightarrow> n < m \<Longrightarrow> m - n \<le> l \<and> (m - n = l - n \<or> l \<le> min (m - n) (l - n)) \<longleftrightarrow> l = m" for l m n :: nat
  by (cases "l = m") auto

section \<open>Properties\<close>

text \<open>
  C35: Appending a text to a log splits it after every newline and keeps exactly the last lines of the
  old log and the text together: as many as the limit allows, or as many as the log had before if these
  are more, as after the limit of a longer log was lowered. A log that does not exceed its limit never
  comes to exceed it, and a log without a limit keeps everything.
\<close>

theorem appendLines_keeps_last:
  "lv_logText (appendLines str v) =
     (if lv_maxLines v > 0
      then last_lines (max (lv_maxLines v) (int (length (lv_logText v)))) (lv_logText v @ split_lines str)
      else lv_logText v @ split_lines str)
   \<and> (within_limit v \<longrightarrow> within_limit (appendLines str v))"
proof -
  have "lv_logText (appendLines str v) = last_lines (capacity v) (lv_logText v @ split_lines str)"
    by (simp add: appendLines_fold fold_appendLine_capacity)
  moreover have "within_limit v \<longrightarrow> within_limit (appendLines str v)"
    using fold_appendLine[of v "split_lines str"] by (simp add: appendLines_fold)
  ultimately show ?thesis by (cases "lv_maxLines v > 0") (simp_all add: capacity_def last_lines_def)
qed

theorem appendLines_keeps_last_witness:
  "lv_logText (appendLines (''c'' @ [CHR 0x0A] @ ''d'') \<lparr>lv_visibleLines = 3, lv_maxLines = 2, lv_logText = [''a'', ''b'']\<rparr>)
     = [''c'' @ [CHR 0x0A], ''d'']
   \<and> lv_logText (appendLines ''d'' \<lparr>lv_visibleLines = 3, lv_maxLines = 1, lv_logText = [''a'', ''b'', ''c'']\<rparr>)
     = [''b'', ''c'', ''d'']
   \<and> within_limit (appendLines ''d'' \<lparr>lv_visibleLines = 3, lv_maxLines = 2, lv_logText = [''a'', ''b'']\<rparr>)"
proof -
  let ?v = "\<lparr>lv_visibleLines = 3, lv_maxLines = 2, lv_logText = [''a'', ''b'']\<rparr>"
  have "within_limit ?v" by (simp add: within_limit_def)
  then have "within_limit (appendLines ''d'' ?v)" using appendLines_keeps_last[of "''d''" ?v] by blast
  then show ?thesis
    using appendLines_keeps_last[of "''c'' @ [CHR 0x0A] @ ''d''" ?v]
      appendLines_keeps_last[of "''d''" "\<lparr>lv_visibleLines = 3, lv_maxLines = 1, lv_logText = [''a'', ''b'', ''c'']\<rparr>"]
    by (simp add: last_lines_def)
qed

text \<open>
  A text that is set and fits into the limit is read back without its last newline. Setting the
  very text that is shown changes nothing, so then it is read back unchanged.
\<close>

theorem setLogText_round_trip:
  assumes "lv_maxLines v \<le> 0 \<or> int (length (split_lines str)) \<le> lv_maxLines v"
  shows "logText (setLogText str v) = (if str = logText v then str else chomp str)"
proof (cases "str = logText v")
  case False
  have "within_limit (v\<lparr>lv_logText := []\<rparr>)" by (simp add: within_limit_def)
  from fold_appendLine[OF this, of "split_lines str"]
  have "lv_logText (setLogText str v) = last_lines (lv_maxLines v) (split_lines str)"
    using False by (simp add: setLogText_def appendLines_fold)
  also have "\<dots> = split_lines str" using assms by (auto simp: last_lines_def)
  finally show ?thesis using False by (simp add: logText_chomp)
qed (simp add: setLogText_def)

theorem setLogText_round_trip_witness:
  "logText (setLogText (''a'' @ [CHR 0x0A] @ ''b'' @ [CHR 0x0A]) (new_YLogView 3 2)) = ''a'' @ [CHR 0x0A] @ ''b''"
  using setLogText_round_trip[of "new_YLogView 3 2" "''a'' @ [CHR 0x0A] @ ''b'' @ [CHR 0x0A]"]
  by (simp add: new_YLogView_def logText_chomp chomp_def)

text \<open>
  setMaxLines removes as many lines as the limit shrinks, however many lines there are. It leaves
  the last lines that the new limit allows only if the log is full, or the limit does not shrink; a
  log that had no limit must have few enough lines already. In all other cases lines that would fit
  are lost, lines are taken from an empty queue, or more lines stay than the limit allows.
\<close>

theorem setMaxLines_right_iff:
  assumes "within_limit v" "0 < n"
  shows "setMaxLines n v = Inr (v\<lparr>lv_maxLines := n, lv_logText := last_lines n (lv_logText v)\<rparr>) \<longleftrightarrow>
    (if lv_maxLines v \<le> 0 then int (length (lv_logText v)) \<le> n
     else lv_maxLines v \<le> n \<or> int (length (lv_logText v)) = lv_maxLines v)"
proof -
  let ?len = "length (lv_logText v)" and ?k = "nat (lv_maxLines v - n)"
  have "setMaxLines n v = Inr (v\<lparr>lv_maxLines := n, lv_logText := last_lines n (lv_logText v)\<rparr>) \<longleftrightarrow>
      ?k \<le> ?len \<and> drop ?k (lv_logText v) = drop (?len - nat n) (lv_logText v)"
    using assms(2) by (cases v) (simp add: setMaxLines_def last_lines_def Let_def)
  also have "\<dots> \<longleftrightarrow> ?k \<le> ?len \<and> (?k = ?len - nat n \<or> ?len \<le> min ?k (?len - nat n))"
    by (simp add: drop_eq_drop_iff)
  also have "\<dots> \<longleftrightarrow> (if lv_maxLines v \<le> 0 then int ?len \<le> n else lv_maxLines v \<le> n \<or> int ?len = lv_maxLines v)"
  proof (cases "lv_maxLines v \<le> 0")
    case True
    then have "?k = 0" using assms(2) by simp
    then show ?thesis using True assms(2) by (auto simp: le_nat_iff)
  next
    case False
    then have "int ?len \<le> lv_maxLines v" using assms(1) by (simp add: within_limit_def)
    then have len: "?len \<le> nat (lv_maxLines v)" by simp
    have eq: "int ?len = lv_maxLines v \<longleftrightarrow> ?len = nat (lv_maxLines v)" using False by auto
    show ?thesis
    proof (cases "lv_maxLines v \<le> n")
      case True
      then have "?k = 0" "?len - nat n = 0" using len by simp_all
      then show ?thesis using False True by simp
    next
      case less: False
      have "?k = nat (lv_maxLines v) - nat n" "0 < nat n" "nat n < nat (lv_maxLines v)"
        using less assms(2) by (simp_all add: nat_diff_distrib)
      then have "?k \<le> ?len \<and> (?k = ?len - nat n \<or> ?len \<le> min ?k (?len - nat n)) \<longleftrightarrow> ?len = nat (lv_maxLines v)"
        using len shrink_arith[of ?len "nat (lv_maxLines v)" "nat n"] by simp
      then show ?thesis using False less eq by simp
    qed
  qed
  finally show ?thesis .
qed

theorem setMaxLines_right_iff_witness:
  "setMaxLines 3 \<lparr>lv_visibleLines = 3, lv_maxLines = 5, lv_logText = [''a'']\<rparr>
     \<noteq> Inr \<lparr>lv_visibleLines = 3, lv_maxLines = 3, lv_logText = [''a'']\<rparr>"
  using setMaxLines_right_iff[of "\<lparr>lv_visibleLines = 3, lv_maxLines = 5, lv_logText = [''a'']\<rparr>" 3]
  by (simp add: within_limit_def last_lines_def)

end
