(* ===== verification/Yui_Property.thy ===== *)
theory Yui_Property
  imports Yui_Widget Yui_LogView "HOL-Library.Word"
begin

text \<open>
  Widget properties (\<^verbatim>\<open>YProperty.h\<close>, \<^verbatim>\<open>YProperty.cc\<close>): typed values, the sets of properties that a
  class declares, the checks against them, and the part of \<^verbatim>\<open>YWidget.cc\<close> that sets and gets the
  properties all widgets have. The theory states what a class promises of its properties as a locale.
\<close>

section \<open>Values and sets\<close>

datatype YPropertyType =
    YUnknownPropertyType | YOtherProperty | YStringProperty | YBoolProperty | YIntegerProperty

fun typeAsStr :: "YPropertyType \<Rightarrow> string" where
  "typeAsStr YUnknownPropertyType = ''<Unknown>''"
| "typeAsStr YOtherProperty = ''<Other>''"
| "typeAsStr YStringProperty = ''String''"
| "typeAsStr YBoolProperty = ''Bool''"
| "typeAsStr YIntegerProperty = ''Integer''"

record YProperty =
  pr_name :: string
  pr_type :: YPropertyType
  pr_isReadOnly :: bool

definition new_YProperty :: "string \<Rightarrow> YPropertyType \<Rightarrow> YProperty" where
  "new_YProperty name ty = \<lparr>pr_name = name, pr_type = ty, pr_isReadOnly = False\<rparr>"

definition read_only :: "string \<Rightarrow> YPropertyType \<Rightarrow> YProperty" where
  "read_only name ty = \<lparr>pr_name = name, pr_type = ty, pr_isReadOnly = True\<rparr>"

text \<open>
  The constructors of a value. The one that takes a type only leaves the members for numbers and
  truth values without a value; the string member is always initialised.
\<close>

datatype YPropertyValue = StringValue string | BoolValue bool | IntegerValue int | TypeValue YPropertyType

fun pv_type :: "YPropertyValue \<Rightarrow> YPropertyType" where
  "pv_type (StringValue s) = YStringProperty"
| "pv_type (BoolValue b) = YBoolProperty"
| "pv_type (IntegerValue i) = YIntegerProperty"
| "pv_type (TypeValue ty) = ty"

fun stringVal :: "YPropertyValue \<Rightarrow> string" where
  "stringVal (StringValue s) = s"
| "stringVal _ = []"

fun boolVal :: "YPropertyValue \<Rightarrow> bool result" where
  "boolVal (BoolValue b) = return b"
| "boolVal _ = throw (undefined_behaviour ''uninitialised bool'')"

fun integerVal :: "YPropertyValue \<Rightarrow> int result" where
  "integerVal (IntegerValue i) = return i"
| "integerVal _ = throw (undefined_behaviour ''uninitialised integer'')"

definition pv_equals :: "YPropertyValue \<Rightarrow> YPropertyValue \<Rightarrow> bool result" where
  "pv_equals v v' =
     (if pv_type v \<noteq> pv_type v' then return False
      else (case pv_type v of
              YStringProperty \<Rightarrow> return (stringVal v = stringVal v')
            | YBoolProperty \<Rightarrow> bind_result (boolVal v) (\<lambda>b. bind_result (boolVal v') (\<lambda>b'. return (b = b')))
            | YIntegerProperty \<Rightarrow> bind_result (integerVal v) (\<lambda>i. bind_result (integerVal v') (\<lambda>i'. return (i = i')))
            | ty \<Rightarrow> throw (YUIException (''Cannot compare '' @ typeAsStr ty @ '' properties''))))"

type_synonym YPropertySet = "YProperty list"

fun ps_contains :: "YPropertySet \<Rightarrow> string \<Rightarrow> bool" where
  "ps_contains [] name \<longleftrightarrow> False"
| "ps_contains (p # ps) name \<longleftrightarrow> (if pr_name p = name then True else ps_contains ps name)"

fun ps_contains_type :: "YPropertySet \<Rightarrow> string \<Rightarrow> YPropertyType \<Rightarrow> bool result" where
  "ps_contains_type [] name ty = return False"
| "ps_contains_type (p # ps) name ty =
     (if pr_name p = name
      then if pr_isReadOnly p then throw (YUISetReadOnlyPropertyException name)
           else if pr_type p = ty \<or> pr_type p = YOtherProperty then return True
           else throw (YUIPropertyTypeMismatchException name)
      else ps_contains_type ps name ty)"

definition ps_check :: "YPropertySet \<Rightarrow> string \<Rightarrow> unit result" where
  "ps_check ps name = (if ps_contains ps name then return () else throw (YUIUnknownPropertyException name))"

definition ps_check_type :: "YPropertySet \<Rightarrow> string \<Rightarrow> YPropertyType \<Rightarrow> unit result" where
  "ps_check_type ps name ty =
     bind_result (ps_contains_type ps name ty)
       (\<lambda>found. if found then return () else throw (YUIUnknownPropertyException name))"

definition ps_add :: "YProperty \<Rightarrow> YPropertySet \<Rightarrow> YPropertySet" where
  "ps_add p ps = ps @ [p]"

fun ps_addSet :: "YPropertySet \<Rightarrow> YPropertySet \<Rightarrow> YPropertySet" where
  "ps_addSet [] ps = ps"
| "ps_addSet (p # other) ps = ps_addSet other (ps_add p ps)"

text \<open>The property a name stands for is the first of the set that has the name.\<close>

definition ps_lookup :: "YPropertySet \<Rightarrow> string \<Rightarrow> YProperty option" where
  "ps_lookup ps name = find (\<lambda>p. pr_name p = name) ps"

lemma ps_lookup_simps [simp]:
  "ps_lookup [] name = None"
  "ps_lookup (p # ps) name = (if pr_name p = name then Some p else ps_lookup ps name)"
  by (simp_all add: ps_lookup_def)

lemma ps_addSet_append: "ps_addSet other ps = ps @ other"
  by (induction other arbitrary: ps) (simp_all add: ps_add_def)

lemma ps_check_lookup:
  "ps_check ps name = (if ps_lookup ps name = None then Inl (YUIUnknownPropertyException name) else Inr ())"
proof -
  have "ps_contains ps name \<longleftrightarrow> ps_lookup ps name \<noteq> None" by (induction ps) auto
  then show ?thesis by (simp add: ps_check_def)
qed

lemma ps_check_type_lookup:
  "ps_check_type ps name ty =
     (case ps_lookup ps name of
        None \<Rightarrow> Inl (YUIUnknownPropertyException name)
      | Some p \<Rightarrow>
          if pr_isReadOnly p then Inl (YUISetReadOnlyPropertyException name)
          else if pr_type p = ty \<or> pr_type p = YOtherProperty then Inr ()
          else Inl (YUIPropertyTypeMismatchException name))"
  unfolding ps_check_type_def by (induction ps) auto

section \<open>Widgets with properties\<close>

text \<open>
  The conversion from a number of a property to an \<^verbatim>\<open>int\<close> parameter.
\<close>

definition c_int :: "int \<Rightarrow> int" where
  "c_int i = sint (word_of_int i :: 32 word)"

lemma c_int_id: "- (2 ^ 31) \<le> i \<Longrightarrow> i < 2 ^ 31 \<Longrightarrow> c_int i = i"
  by (simp add: c_int_def signed_of_int signed_take_bit_int_eq_self)

text \<open>
  The private data members of the subclasses that properties read or write, in one record; a class
  uses its own only. \<open>p_text\<close> is the text of a \<^verbatim>\<open>YLabel\<close> or \<^verbatim>\<open>YRichText\<close>. \<open>p_shown\<close>, \<open>p_number\<close>,
  \<open>p_checked\<close> and \<open>p_zone\<close> are what the toolkit holds for the classes whose \<^verbatim>\<open>value()\<close> is pure virtual,
  \<open>p_childStretch\<close> what the child of a container answers. The label is \<^const>\<open>w_label\<close>.

  Some virtual functions are overridden by classes of a toolkit that do not call the function of the
  base class, such as \<^verbatim>\<open>setEnabled\<close> by \<^verbatim>\<open>YQItemSelector\<close> and \<^verbatim>\<open>NCDialog\<close>, \<^verbatim>\<open>isEnabled\<close> by
  \<^verbatim>\<open>YQGenericButton\<close>, and \<^verbatim>\<open>setAlive\<close> by \<^verbatim>\<open>NCBusyIndicator\<close>. What such a function does is part of the
  object: \<open>ov_setEnabled\<close> maps the argument, the flag of \<^verbatim>\<open>YWidget\<close> and the state of the toolkit's widget
  to the flag and the state it leaves.
\<close>

record overrides =
  ov_setEnabled :: "bool \<Rightarrow> bool \<times> bool \<Rightarrow> bool \<times> bool"
  ov_isEnabled :: "bool \<times> bool \<Rightarrow> bool"
  ov_setAlive :: "bool \<Rightarrow> bool \<Rightarrow> bool"

record members = widget_data +
  p_iconBasePath :: string
  p_enforceSingleSelection :: bool
  p_itemLabels :: "string list"
  p_text :: string
  p_isHeading :: bool
  p_isOutputField :: bool
  p_passwordMode :: bool
  p_validChars :: string
  p_inputMaxLength :: int
  p_minValue :: int
  p_maxValue :: int
  p_value :: int
  p_timeout :: int
  p_alive :: bool
  p_filename :: string
  p_expectedSize :: int
  p_layoutAlgorithm :: string
  p_visibleItems :: int
  p_customStatus :: bool
  p_log :: YLogView
  p_shown :: string
  p_number :: int
  p_checked :: bool
  p_zone :: string
  p_childStretch :: "bool YBothDim option"
  p_tkEnabled :: bool
  p_overrides :: overrides

text \<open>The functions of the base classes, of a widget that overrides none of them.\<close>

definition base_overrides :: overrides where
  "base_overrides = \<lparr>ov_setEnabled = (\<lambda>b (flag, state). (b, state)), ov_isEnabled = fst, ov_setAlive = (\<lambda>b alive. b)\<rparr>"

definition virtual_setEnabled :: "bool \<Rightarrow> members \<Rightarrow> members" where
  "virtual_setEnabled b w =
     (let (flag, state) = ov_setEnabled (p_overrides w) b (w_enabled w, p_tkEnabled w)
      in (setEnabled flag w)\<lparr>p_tkEnabled := state\<rparr>)"

definition virtual_isEnabled :: "members \<Rightarrow> bool" where
  "virtual_isEnabled w = ov_isEnabled (p_overrides w) (w_enabled w, p_tkEnabled w)"

lemma virtual_base:
  assumes "p_overrides w = base_overrides"
  shows "virtual_setEnabled b w = setEnabled b w" "virtual_isEnabled w = w_enabled w"
  using assms by (simp_all add: virtual_setEnabled_def virtual_isEnabled_def base_overrides_def setEnabled_def)

text \<open>
  What the toolkit and the operating system decide: the value a toolkit widget holds after its
  setter was called, and the size of a file.
\<close>

record toolkit =
  tk_text :: "members \<Rightarrow> string \<Rightarrow> string"
  tk_number :: "members \<Rightarrow> int \<Rightarrow> int"
  tk_checked :: "members \<Rightarrow> bool \<Rightarrow> bool"
  tk_zone :: "members \<Rightarrow> string \<Rightarrow> bool \<Rightarrow> string"
  tk_fileSize :: "string \<Rightarrow> int"

text \<open>The virtual functions that the property code of \<^verbatim>\<open>YWidget\<close> calls.\<close>

record vtable =
  vt_propertySet :: YPropertySet
  vt_widgetClass :: "members \<Rightarrow> string"
  vt_debugLabel :: "members \<Rightarrow> string"
  vt_stretchable :: "members \<Rightarrow> YUIDimension \<Rightarrow> bool"

definition YWidget_stretchable :: "members \<Rightarrow> YUIDimension \<Rightarrow> bool" where
  "YWidget_stretchable w dim = at_dim (w_stretch w) dim"

definition YSingleChildContainerWidget_stretchable :: "members \<Rightarrow> YUIDimension \<Rightarrow> bool" where
  "YSingleChildContainerWidget_stretchable w dim =
     (case p_childStretch w of Some s \<Rightarrow> at_dim s dim | None \<Rightarrow> YWidget_stretchable w dim)"

definition plain_vtable :: "YPropertySet \<Rightarrow> string \<Rightarrow> vtable" where
  "plain_vtable ps cls =
     \<lparr>vt_propertySet = ps, vt_widgetClass = (\<lambda>_. cls), vt_debugLabel = widget_debugLabel,
      vt_stretchable = YWidget_stretchable\<rparr>"

definition container_vtable :: "YPropertySet \<Rightarrow> string \<Rightarrow> vtable" where
  "container_vtable ps cls = (plain_vtable ps cls)\<lparr>vt_stretchable := YSingleChildContainerWidget_stretchable\<rparr>"

lemma vtable_simps [simp]:
  "vt_propertySet (plain_vtable ps cls) = ps" "vt_stretchable (plain_vtable ps cls) = YWidget_stretchable"
  "vt_propertySet (container_vtable ps cls) = ps"
  by (simp_all add: plain_vtable_def container_vtable_def)

definition YWidget_propertySet :: YPropertySet where
  "YWidget_propertySet =
     [new_YProperty ''Enabled'' YBoolProperty, new_YProperty ''Notify'' YBoolProperty,
      read_only ''WidgetClass'' YStringProperty, read_only ''DebugLabel'' YStringProperty,
      read_only ''ID'' YStringProperty, new_YProperty ''HelpText'' YStringProperty,
      new_YProperty ''HWeight'' YIntegerProperty, new_YProperty ''VWeight'' YIntegerProperty,
      new_YProperty ''HStretch'' YBoolProperty, new_YProperty ''VStretch'' YBoolProperty]"

definition YWidget_setProperty :: "vtable \<Rightarrow> string \<Rightarrow> YPropertyValue \<Rightarrow> members \<Rightarrow> (bool \<times> members) result" where
  "YWidget_setProperty vt name v w =
     bind_result (ps_check_type (vt_propertySet vt) name (pv_type v)) (\<lambda>_.
       if name = ''Enabled'' then bind_result (boolVal v) (\<lambda>b. return (True, virtual_setEnabled b w))
       else if name = ''Notify'' then bind_result (boolVal v) (\<lambda>b. return (True, w\<lparr>w_notify := b\<rparr>))
       else if name = ''HelpText'' then return (True, w\<lparr>w_helpText := stringVal v\<rparr>)
       else if name = ''HWeight'' then bind_result (integerVal v) (\<lambda>i. return (True, setWeight YD_HORIZ (c_int i) w))
       else if name = ''VWeight'' then bind_result (integerVal v) (\<lambda>i. return (True, setWeight YD_VERT (c_int i) w))
       else if name = ''HStretch'' then bind_result (boolVal v) (\<lambda>b. return (True, setStretchable YD_HORIZ b w))
       else if name = ''VStretch'' then bind_result (boolVal v) (\<lambda>b. return (True, setStretchable YD_VERT b w))
       else return (True, w))"

definition YWidget_getProperty :: "vtable \<Rightarrow> string \<Rightarrow> members \<Rightarrow> YPropertyValue result" where
  "YWidget_getProperty vt name w =
     bind_result (ps_check (vt_propertySet vt) name) (\<lambda>_. return (
       if name = ''Enabled'' then BoolValue (virtual_isEnabled w)
       else if name = ''Notify'' then BoolValue (w_notify w)
       else if name = ''ContextMenu'' then BoolValue (w_notifyContextMenu w)
       else if name = ''WidgetClass'' then StringValue (vt_widgetClass vt w)
       else if name = ''HelpText'' then StringValue (w_helpText w)
       else if name = ''DebugLabel'' then StringValue (vt_debugLabel vt w)
       else if name = ''HWeight'' then IntegerValue (weight w YD_HORIZ)
       else if name = ''VWeight'' then IntegerValue (weight w YD_VERT)
       else if name = ''HStretch'' then BoolValue (vt_stretchable vt w YD_HORIZ)
       else if name = ''VStretch'' then BoolValue (vt_stretchable vt w YD_VERT)
       else if name = ''ID'' \<and> w_id w \<noteq> None then StringValue (the (w_id w))
       else BoolValue False))"

section \<open>What a class promises of its properties\<close>

text \<open>A value that was made with a content, not from a type alone.\<close>

fun has_content :: "YPropertyValue \<Rightarrow> bool" where
  "has_content (TypeValue ty) \<longleftrightarrow> False"
| "has_content _ \<longleftrightarrow> True"

text \<open>
  A value with a content, and with a number that an \<^verbatim>\<open>int\<close> can hold.
\<close>

fun proper :: "YPropertyValue \<Rightarrow> bool" where
  "proper (IntegerValue i) \<longleftrightarrow> - (2 ^ 31) \<le> i \<and> i < 2 ^ 31"
| "proper (TypeValue ty) \<longleftrightarrow> False"
| "proper _ \<longleftrightarrow> True"

text \<open>
  \<open>put\<close> and \<open>query\<close> are \<^verbatim>\<open>setProperty\<close> and \<^verbatim>\<open>getProperty\<close> of a class with the property set \<open>ps\<close>.
  \<open>untyped\<close> are the properties whose value does not have the declared type or cannot be set safely,
  \<open>adjusted\<close> those that the widget may change when it stores them.
\<close>

locale property_owner =
  fixes ps :: YPropertySet
    and put :: "string \<Rightarrow> YPropertyValue \<Rightarrow> members \<Rightarrow> (bool \<times> members) result"
    and query :: "string \<Rightarrow> members \<Rightarrow> YPropertyValue result"
    and untyped :: "string list"
    and adjusted :: "string list"
  assumes put_checks: "ps_check_type ps n (pv_type v) = Inl e \<Longrightarrow> put n v w = Inl e"
    and query_checks: "ps_check ps n = Inl e \<Longrightarrow> query n w = Inl e"
    and put_succeeds: "ps_check_type ps n (pv_type v) = Inr () \<Longrightarrow> has_content v \<Longrightarrow> n \<notin> set untyped \<Longrightarrow>
          \<exists>b w'. put n v w = Inr (b, w')"
    and query_typed: "ps_lookup ps n = Some p \<Longrightarrow> n \<notin> set untyped \<Longrightarrow> n \<noteq> ''ID'' \<or> w_id w \<noteq> None \<Longrightarrow>
          \<exists>v. query n w = Inr v \<and> pv_type v = pr_type p"
    and put_query: "ps_lookup ps n = Some p \<Longrightarrow> pr_type p \<noteq> YOtherProperty \<Longrightarrow> n \<notin> set untyped \<Longrightarrow> n \<notin> set adjusted \<Longrightarrow>
          proper v \<Longrightarrow> put n v w = Inr (b, w') \<Longrightarrow> b \<and> query n w' = Inr v"
begin

text \<open>Which exception a class throws is decided by its property set alone.\<close>

lemma put_error_iff:
  assumes "has_content v" "n \<notin> set untyped"
  shows "put n v w = Inl e \<longleftrightarrow>
    (case ps_lookup ps n of
       None \<Rightarrow> e = YUIUnknownPropertyException n
     | Some p \<Rightarrow>
         if pr_isReadOnly p then e = YUISetReadOnlyPropertyException n
         else pr_type p \<noteq> pv_type v \<and> pr_type p \<noteq> YOtherProperty \<and> e = YUIPropertyTypeMismatchException n)"
proof (cases "ps_check_type ps n (pv_type v)")
  case (Inl e')
  then show ?thesis
    using put_checks[OF Inl, of w] by (auto simp: ps_check_type_lookup split: option.splits if_splits)
next
  case (Inr x)
  then obtain b w' where "put n v w = Inr (b, w')" using put_succeeds[of n v w] assms by auto
  then show ?thesis using Inr by (auto simp: ps_check_type_lookup split: option.splits if_splits)
qed

lemma query_error_iff:
  assumes "n \<notin> set untyped" "n \<noteq> ''ID'' \<or> w_id w \<noteq> None"
  shows "query n w = Inl e \<longleftrightarrow> ps_lookup ps n = None \<and> e = YUIUnknownPropertyException n"
proof (cases "ps_lookup ps n")
  case None
  then show ?thesis using query_checks[of n _ w] by (auto simp: ps_check_lookup)
next
  case (Some p)
  then show ?thesis using query_typed[OF Some assms] by auto
qed

end

lemmas property_set_simps = new_YProperty_def read_only_def ps_check_lookup ps_check_type_lookup

lemmas widget_simps = setEnabled_def setWeight_def weight_def setStretchable_def YWidget_stretchable_def

lemma content_cases:
  assumes "has_content v"
  obtains (string) s where "v = StringValue s" | (bool) b where "v = BoolValue b" | (int) i where "v = IntegerValue i"
  using assms by (cases v) auto

lemma proper_cases:
  assumes "proper v"
  obtains (string) s where "v = StringValue s" | (bool) b where "v = BoolValue b"
    | (int) i where "v = IntegerValue i" "c_int i = i"
  using assms c_int_id by (cases v) auto

section \<open>The properties all widgets have\<close>

lemma base_names:
  assumes "ps_lookup YWidget_propertySet n = Some p"
  shows "n = ''Enabled'' \<and> p = new_YProperty n YBoolProperty \<or> n = ''Notify'' \<and> p = new_YProperty n YBoolProperty
    \<or> n = ''WidgetClass'' \<and> p = read_only n YStringProperty \<or> n = ''DebugLabel'' \<and> p = read_only n YStringProperty
    \<or> n = ''ID'' \<and> p = read_only n YStringProperty \<or> n = ''HelpText'' \<and> p = new_YProperty n YStringProperty
    \<or> n = ''HWeight'' \<and> p = new_YProperty n YIntegerProperty \<or> n = ''VWeight'' \<and> p = new_YProperty n YIntegerProperty
    \<or> n = ''HStretch'' \<and> p = new_YProperty n YBoolProperty \<or> n = ''VStretch'' \<and> p = new_YProperty n YBoolProperty"
  using assms unfolding YWidget_propertySet_def ps_lookup_simps new_YProperty_def read_only_def YProperty.select_convs
  by (simp split: if_split_asm)

lemmas base_cases = base_names [elim_format]

lemma base_typed:
  assumes "ps_lookup YWidget_propertySet n = Some p" "ps_lookup (vt_propertySet vt) n \<noteq> None" "n \<noteq> ''ID'' \<or> w_id w \<noteq> None"
  shows "\<exists>v. YWidget_getProperty vt n w = Inr v \<and> pv_type v = pr_type p"
  using assms by (elim base_cases disjE conjE) (simp_all add: YWidget_getProperty_def property_set_simps)

lemma base_put:
  assumes "ps_lookup YWidget_propertySet n = Some p" "pv_type v = pr_type p" "has_content v"
    "ps_check_type (vt_propertySet vt) n (pv_type v) = Inr ()"
  shows "\<exists>w'. YWidget_setProperty vt n v w = Inr (True, w')"
  using assms(3,1,2,4)
  by (elim content_cases base_cases disjE conjE) (simp_all add: YWidget_setProperty_def new_YProperty_def read_only_def)

lemma base_not_other: "ps_lookup YWidget_propertySet n = Some p \<Longrightarrow> pr_type p \<noteq> YOtherProperty"
  by (elim base_cases disjE conjE) (simp_all add: new_YProperty_def read_only_def)

lemma base_put_query:
  assumes "ps_lookup YWidget_propertySet n = Some p" "ps_lookup (vt_propertySet vt) n = Some p" "proper v"
    "vt_stretchable vt = YWidget_stretchable \<or> n \<notin> {''HStretch'', ''VStretch''}"
    "YWidget_setProperty vt n v w = Inr (b, w')" "n \<noteq> ''Enabled''"
  shows "b \<and> YWidget_getProperty vt n w' = Inr v"
proof -
  have "ps_check_type (vt_propertySet vt) n (pv_type v) = Inr ()"
    using assms(5) by (cases "ps_check_type (vt_propertySet vt) n (pv_type v)") (simp_all add: YWidget_setProperty_def)
  then have "pv_type v = pr_type p" "\<not> pr_isReadOnly p"
    using assms(2) base_not_other[OF assms(1)] by (auto simp: ps_check_type_lookup split: if_splits)
  with assms(3,1,2,4,5,6) show ?thesis
    by (elim proper_cases base_cases disjE conjE)
      (simp_all add: YWidget_setProperty_def YWidget_getProperty_def property_set_simps widget_simps, auto)
qed

text \<open>
  A class that adds properties of its own, none of them with a name that all widgets have, and leaves
  the others to \<^verbatim>\<open>YWidget\<close>. Containers answer \<^verbatim>\<open>stretchable\<close> for their child. Whether a widget is
  enabled is left to its toolkit, for all classes.
\<close>

locale property_class =
  fixes own :: YPropertySet
    and vt :: vtable
    and put :: "string \<Rightarrow> YPropertyValue \<Rightarrow> members \<Rightarrow> (bool \<times> members) result"
    and query :: "string \<Rightarrow> members \<Rightarrow> YPropertyValue result"
    and untyped :: "string list"
    and adjusted :: "string list"
  assumes set_extends: "vt_propertySet vt = own @ YWidget_propertySet"
    and put_rejects: "ps_check_type (vt_propertySet vt) n (pv_type v) = Inl e \<Longrightarrow> put n v w = Inl e"
    and query_rejects: "ps_check (vt_propertySet vt) n = Inl e \<Longrightarrow> query n w = Inl e"
    and put_base: "ps_lookup own n = None \<Longrightarrow> put n v w = YWidget_setProperty vt n v w"
    and query_base: "ps_lookup own n = None \<Longrightarrow> query n w = YWidget_getProperty vt n w"
    and stretch: "vt_stretchable vt = YWidget_stretchable \<or> {''HStretch'', ''VStretch''} \<subseteq> set adjusted"
    and put_own: "ps_lookup own n = Some p \<Longrightarrow> \<not> pr_isReadOnly p \<Longrightarrow> pr_type p \<in> {pv_type v, YOtherProperty} \<Longrightarrow>
          has_content v \<Longrightarrow> n \<notin> set untyped \<Longrightarrow> \<exists>b w'. put n v w = Inr (b, w')"
    and query_own: "ps_lookup own n = Some p \<Longrightarrow> n \<notin> set untyped \<Longrightarrow> \<exists>v. query n w = Inr v \<and> pv_type v = pr_type p"
    and put_query_own: "ps_lookup own n = Some p \<Longrightarrow> \<not> pr_isReadOnly p \<Longrightarrow> pv_type v = pr_type p \<Longrightarrow> proper v \<Longrightarrow>
          n \<notin> set untyped \<Longrightarrow> n \<notin> set adjusted \<Longrightarrow> put n v w = Inr (b, w') \<Longrightarrow> b \<and> query n w' = Inr v"
begin

lemma lookup_append:
  "ps_lookup (own @ YWidget_propertySet) n = (case ps_lookup own n of None \<Rightarrow> ps_lookup YWidget_propertySet n | Some p \<Rightarrow> Some p)"
  by (induction own) (auto split: option.splits)

end

sublocale property_class \<subseteq> property_owner "own @ YWidget_propertySet" put query untyped "''Enabled'' # adjusted"
proof
  fix n v w e p b w'
  show "ps_check_type (own @ YWidget_propertySet) n (pv_type v) = Inl e \<Longrightarrow> put n v w = Inl e"
    using put_rejects set_extends by simp
  show "ps_check (own @ YWidget_propertySet) n = Inl e \<Longrightarrow> query n w = Inl e"
    using query_rejects set_extends by simp
  show "\<exists>b w'. put n v w = Inr (b, w')"
    if ck: "ps_check_type (own @ YWidget_propertySet) n (pv_type v) = Inr ()" and v: "has_content v" "n \<notin> set untyped"
  proof (cases "ps_lookup own n")
    case None
    then obtain p where p: "ps_lookup YWidget_propertySet n = Some p" "pr_type p \<in> {pv_type v, YOtherProperty}"
      using ck by (auto simp: ps_check_type_lookup lookup_append split: option.splits if_splits)
    then show ?thesis using base_put[OF p(1) _ v(1), of vt w] base_not_other[OF p(1)] ck None set_extends by (auto simp: put_base)
  next
    case (Some p)
    then show ?thesis using put_own[OF Some _ _ v] ck by (auto simp: ps_check_type_lookup lookup_append split: if_splits)
  qed
  show "\<exists>v. query n w = Inr v \<and> pv_type v = pr_type p"
    if p: "ps_lookup (own @ YWidget_propertySet) n = Some p" "n \<notin> set untyped" "n \<noteq> ''ID'' \<or> w_id w \<noteq> None"
  proof (cases "ps_lookup own n")
    case None
    then show ?thesis using p base_typed[of n p vt w] set_extends by (simp add: lookup_append query_base)
  next
    case (Some q)
    then show ?thesis using p query_own[OF Some p(2)] by (simp add: lookup_append)
  qed
  show "b \<and> query n w' = Inr v"
    if p: "ps_lookup (own @ YWidget_propertySet) n = Some p" "pr_type p \<noteq> YOtherProperty" "n \<notin> set untyped" "n \<notin> set (''Enabled'' # adjusted)"
      and v: "proper v" and put: "put n v w = Inr (b, w')"
  proof (cases "ps_lookup own n")
    case None
    then show ?thesis
      using p base_put_query[of n p vt v w b w'] v put stretch set_extends by (auto simp: lookup_append query_base put_base)
  next
    case (Some q)
    have "ps_check_type (own @ YWidget_propertySet) n (pv_type v) = Inr ()"
      using put put_rejects[of n v _ w] set_extends by (cases "ps_check_type (own @ YWidget_propertySet) n (pv_type v)") auto
    then have "\<not> pr_isReadOnly p" "pv_type v = pr_type p"
      using p(1,2) by (auto simp: ps_check_type_lookup split: if_splits)
    then show ?thesis using put_query_own[OF _ _ _ v p(3) _ put] p(1,4) Some by (simp add: lookup_append)
  qed
qed

text \<open>Widgets that have no more properties than all widgets have.\<close>

definition YWidget_vtable :: vtable where
  "YWidget_vtable = plain_vtable YWidget_propertySet ''YWidget''"

interpretation plain_props: property_class "[]" YWidget_vtable
  "YWidget_setProperty YWidget_vtable" "YWidget_getProperty YWidget_vtable" "[]" "[]"
  by unfold_locales (simp_all add: YWidget_vtable_def YWidget_setProperty_def YWidget_getProperty_def)

end
