(* ===== verification/Yui_PropertyWidgets.thy ===== *)
theory Yui_PropertyWidgets
  imports Yui_Property
begin

text \<open>
  The properties of every widget class of libyui: for each class the set it declares and its
  \<^verbatim>\<open>setProperty\<close> and \<^verbatim>\<open>getProperty\<close>, on top of those of \<^verbatim>\<open>YWidget\<close>. Every class is shown to keep the
  promises of the locale \<open>property_class\<close>; a virtual call picks the class. The theory proves which
  exceptions the calls throw, that values have the declared types, that values are read back, and
  names the properties for which this fails.
\<close>

section \<open>Setters that change the value\<close>

definition enforceRange :: "members \<Rightarrow> int \<Rightarrow> int" where
  "enforceRange w val =
     (let val1 = (if val < p_minValue w then p_minValue w else val)
      in if val1 > p_maxValue w then p_maxValue w else val1)"

definition IntField_setValue :: "toolkit \<Rightarrow> int \<Rightarrow> members \<Rightarrow> members" where
  "IntField_setValue tk val w = w\<lparr>p_number := tk_number tk w (enforceRange w val)\<rparr>"

definition setMinValue :: "toolkit \<Rightarrow> int \<Rightarrow> members \<Rightarrow> members" where
  "setMinValue tk val w =
     (let w1 = w\<lparr>p_minValue := val\<rparr>; oldValue = p_number w1; newValue = enforceRange w1 oldValue
      in if oldValue \<noteq> newValue then IntField_setValue tk newValue w1 else w1)"

definition setMaxValue :: "toolkit \<Rightarrow> int \<Rightarrow> members \<Rightarrow> members" where
  "setMaxValue tk val w =
     (let w1 = w\<lparr>p_maxValue := val\<rparr>; oldValue = p_number w1; newValue = enforceRange w1 oldValue
      in if oldValue \<noteq> newValue then IntField_setValue tk newValue w1 else w1)"

definition ProgressBar_setValue :: "int \<Rightarrow> members \<Rightarrow> members" where
  "ProgressBar_setValue newValue w =
     (let v1 = (if newValue < 0 then 0 else newValue); v2 = (if v1 > p_maxValue w then p_maxValue w else v1)
      in w\<lparr>p_value := v2\<rparr>)"

definition setTimeout :: "int \<Rightarrow> members \<Rightarrow> members" where
  "setTimeout newTimeout w = w\<lparr>p_timeout := (if newTimeout < 1 then 1 else newTimeout)\<rparr>"

definition setVisibleItems :: "int \<Rightarrow> members \<Rightarrow> members" where
  "setVisibleItems newVal w = w\<lparr>p_visibleItems := (if newVal < 1 then 1 else newVal)\<rparr>"

definition currentPercent :: "toolkit \<Rightarrow> members \<Rightarrow> int" where
  "currentPercent tk w =
     (if p_expectedSize w = 0 then 0
      else let currentSize = tk_fileSize tk (p_filename w)
           in if currentSize \<ge> p_expectedSize w then 100 else c_int (c_div (100 * currentSize) (p_expectedSize w)))"

section \<open>Names and descriptions of some classes\<close>

definition YInputField_widgetClass :: "members \<Rightarrow> string" where
  "YInputField_widgetClass w = (if p_passwordMode w then ''YPasswordField'' else ''YInputField'')"

definition YItemSelector_widgetClass :: "members \<Rightarrow> string" where
  "YItemSelector_widgetClass w =
     (if p_customStatus w then ''YCustomStatusItemSelector''
      else if p_enforceSingleSelection w then ''YSingleItemSelector'' else ''YMultiItemSelector'')"

definition YLabel_widgetClass :: "members \<Rightarrow> string" where
  "YLabel_widgetClass w =
     (if p_isHeading w then ''YLabel_Heading'' else if p_isOutputField w then ''YLabel_OutputField'' else ''YLabel'')"

definition YLabel_debugLabel :: "members \<Rightarrow> string" where
  "YLabel_debugLabel w =
     (let label = (if length (p_text w) > 32 then take 32 (p_text w) @ ''...'' else p_text w)
      in map (\<lambda>c. if c = CHR 0x0A \<or> c = CHR 0x22 then CHR '' '' else c) label)"

definition YDumbTab_debugLabel :: "members \<Rightarrow> string" where
  "YDumbTab_debugLabel w = foldl (\<lambda>str label. str @ '' ['' @ label @ '']'') ''YDumbTab'' (p_itemLabels w)"

section \<open>The classes\<close>

text \<open>\<^verbatim>\<open>YFrame.cc\<close>\<close>

definition YFrame_properties :: YPropertySet where
  "YFrame_properties =
     [new_YProperty ''Label'' YStringProperty]"

definition YFrame_propertySet :: YPropertySet where
  "YFrame_propertySet = ps_addSet YWidget_propertySet YFrame_properties"

definition YFrame_vtable :: vtable where
  "YFrame_vtable = container_vtable YFrame_propertySet ''YFrame''"

definition YFrame_setProperty :: "string \<Rightarrow> YPropertyValue \<Rightarrow> members \<Rightarrow> (bool \<times> members) result" where
  "YFrame_setProperty name v w =
     bind_result (ps_check_type YFrame_propertySet name (pv_type v)) (\<lambda>_.
       if name = ''Label'' then return (True, w\<lparr>w_label := stringVal v\<rparr>)
       else YWidget_setProperty YFrame_vtable name v w)"

definition YFrame_getProperty :: "string \<Rightarrow> members \<Rightarrow> YPropertyValue result" where
  "YFrame_getProperty name w =
     bind_result (ps_check YFrame_propertySet name) (\<lambda>_.
       if name = ''Label'' then return (StringValue (w_label w))
       else YWidget_getProperty YFrame_vtable name w)"

text \<open>\<^verbatim>\<open>YPushButton.cc\<close>\<close>

definition YPushButton_properties :: YPropertySet where
  "YPushButton_properties =
     [new_YProperty ''Label'' YStringProperty]"

definition YPushButton_propertySet :: YPropertySet where
  "YPushButton_propertySet = ps_addSet YWidget_propertySet YPushButton_properties"

definition YPushButton_vtable :: vtable where
  "YPushButton_vtable = plain_vtable YPushButton_propertySet ''YPushButton''"

definition YPushButton_setProperty :: "string \<Rightarrow> YPropertyValue \<Rightarrow> members \<Rightarrow> (bool \<times> members) result" where
  "YPushButton_setProperty name v w =
     bind_result (ps_check_type YPushButton_propertySet name (pv_type v)) (\<lambda>_.
       if name = ''Label'' then return (True, w\<lparr>w_label := stringVal v\<rparr>)
       else bind_result (YWidget_setProperty YPushButton_vtable name v w) (\<lambda>(_, w'). return (True, w')))"

definition YPushButton_getProperty :: "string \<Rightarrow> members \<Rightarrow> YPropertyValue result" where
  "YPushButton_getProperty name w =
     bind_result (ps_check YPushButton_propertySet name) (\<lambda>_.
       if name = ''Label'' then return (StringValue (w_label w))
       else YWidget_getProperty YPushButton_vtable name w)"

text \<open>\<^verbatim>\<open>YCheckBox.cc\<close>\<close>

definition YCheckBox_properties :: YPropertySet where
  "YCheckBox_properties =
     [new_YProperty ''Value'' YOtherProperty, new_YProperty ''Label'' YStringProperty]"

definition YCheckBox_propertySet :: YPropertySet where
  "YCheckBox_propertySet = ps_addSet YWidget_propertySet YCheckBox_properties"

definition YCheckBox_vtable :: vtable where
  "YCheckBox_vtable = plain_vtable YCheckBox_propertySet ''YCheckBox''"

definition YCheckBox_setProperty :: "string \<Rightarrow> YPropertyValue \<Rightarrow> members \<Rightarrow> (bool \<times> members) result" where
  "YCheckBox_setProperty name v w =
     bind_result (ps_check_type YCheckBox_propertySet name (pv_type v)) (\<lambda>_.
       if name = ''Value'' then return (False, w)
       else if name = ''Label'' then return (True, w\<lparr>w_label := stringVal v\<rparr>)
       else YWidget_setProperty YCheckBox_vtable name v w)"

definition YCheckBox_getProperty :: "string \<Rightarrow> members \<Rightarrow> YPropertyValue result" where
  "YCheckBox_getProperty name w =
     bind_result (ps_check YCheckBox_propertySet name) (\<lambda>_.
       if name = ''Value'' then return (TypeValue YOtherProperty)
       else if name = ''Label'' then return (StringValue (w_label w))
       else YWidget_getProperty YCheckBox_vtable name w)"

text \<open>\<^verbatim>\<open>YCheckBoxFrame.cc\<close>\<close>

definition YCheckBoxFrame_properties :: YPropertySet where
  "YCheckBoxFrame_properties =
     [new_YProperty ''Value'' YBoolProperty, new_YProperty ''Label'' YStringProperty]"

definition YCheckBoxFrame_propertySet :: YPropertySet where
  "YCheckBoxFrame_propertySet = ps_addSet YWidget_propertySet YCheckBoxFrame_properties"

definition YCheckBoxFrame_vtable :: vtable where
  "YCheckBoxFrame_vtable = container_vtable YCheckBoxFrame_propertySet ''YCheckBoxFrame''"

definition YCheckBoxFrame_setProperty :: "toolkit \<Rightarrow> string \<Rightarrow> YPropertyValue \<Rightarrow> members \<Rightarrow> (bool \<times> members) result" where
  "YCheckBoxFrame_setProperty tk name v w =
     bind_result (ps_check_type YCheckBoxFrame_propertySet name (pv_type v)) (\<lambda>_.
       if name = ''Value'' then bind_result (boolVal v) (\<lambda>b. return (True, w\<lparr>p_checked := tk_checked tk w b\<rparr>))
       else if name = ''Label'' then return (True, w\<lparr>w_label := stringVal v\<rparr>)
       else YWidget_setProperty YCheckBoxFrame_vtable name v w)"

definition YCheckBoxFrame_getProperty :: "string \<Rightarrow> members \<Rightarrow> YPropertyValue result" where
  "YCheckBoxFrame_getProperty name w =
     bind_result (ps_check YCheckBoxFrame_propertySet name) (\<lambda>_.
       if name = ''Value'' then return (BoolValue (p_checked w))
       else if name = ''Label'' then return (StringValue (w_label w))
       else YWidget_getProperty YCheckBoxFrame_vtable name w)"

text \<open>\<^verbatim>\<open>YRadioButton.cc\<close>\<close>

definition YRadioButton_properties :: YPropertySet where
  "YRadioButton_properties =
     [new_YProperty ''Value'' YBoolProperty, new_YProperty ''Label'' YStringProperty]"

definition YRadioButton_propertySet :: YPropertySet where
  "YRadioButton_propertySet = ps_addSet YWidget_propertySet YRadioButton_properties"

definition YRadioButton_vtable :: vtable where
  "YRadioButton_vtable = plain_vtable YRadioButton_propertySet ''YRadioButton''"

definition YRadioButton_setProperty :: "toolkit \<Rightarrow> string \<Rightarrow> YPropertyValue \<Rightarrow> members \<Rightarrow> (bool \<times> members) result" where
  "YRadioButton_setProperty tk name v w =
     bind_result (ps_check_type YRadioButton_propertySet name (pv_type v)) (\<lambda>_.
       if name = ''Value'' then bind_result (boolVal v) (\<lambda>b. return (True, w\<lparr>p_checked := tk_checked tk w b\<rparr>))
       else if name = ''Label'' then return (True, w\<lparr>w_label := stringVal v\<rparr>)
       else YWidget_setProperty YRadioButton_vtable name v w)"

definition YRadioButton_getProperty :: "string \<Rightarrow> members \<Rightarrow> YPropertyValue result" where
  "YRadioButton_getProperty name w =
     bind_result (ps_check YRadioButton_propertySet name) (\<lambda>_.
       if name = ''Value'' then return (BoolValue (p_checked w))
       else if name = ''Label'' then return (StringValue (w_label w))
       else YWidget_getProperty YRadioButton_vtable name w)"

text \<open>\<^verbatim>\<open>YRadioButtonGroup.cc\<close>\<close>

definition YRadioButtonGroup_properties :: YPropertySet where
  "YRadioButtonGroup_properties =
     [new_YProperty ''Value'' YOtherProperty, new_YProperty ''CurrentButton'' YOtherProperty]"

definition YRadioButtonGroup_propertySet :: YPropertySet where
  "YRadioButtonGroup_propertySet = ps_addSet YWidget_propertySet YRadioButtonGroup_properties"

definition YRadioButtonGroup_vtable :: vtable where
  "YRadioButtonGroup_vtable = container_vtable YRadioButtonGroup_propertySet ''YRadioButtonGroup''"

definition YRadioButtonGroup_setProperty :: "string \<Rightarrow> YPropertyValue \<Rightarrow> members \<Rightarrow> (bool \<times> members) result" where
  "YRadioButtonGroup_setProperty name v w =
     bind_result (ps_check_type YRadioButtonGroup_propertySet name (pv_type v)) (\<lambda>_.
       if name = ''Value'' then return (False, w)
       else if name = ''CurrentButton'' then return (False, w)
       else YWidget_setProperty YRadioButtonGroup_vtable name v w)"

definition YRadioButtonGroup_getProperty :: "string \<Rightarrow> members \<Rightarrow> YPropertyValue result" where
  "YRadioButtonGroup_getProperty name w =
     bind_result (ps_check YRadioButtonGroup_propertySet name) (\<lambda>_.
       if name = ''Value'' then return (TypeValue YOtherProperty)
       else if name = ''CurrentButton'' then return (TypeValue YOtherProperty)
       else YWidget_getProperty YRadioButtonGroup_vtable name w)"

text \<open>\<^verbatim>\<open>YComboBox.cc\<close>\<close>

definition YComboBox_properties :: YPropertySet where
  "YComboBox_properties =
     [new_YProperty ''Value'' YOtherProperty, new_YProperty ''Items'' YOtherProperty,
      new_YProperty ''Label'' YStringProperty, new_YProperty ''ValidChars'' YStringProperty,
      new_YProperty ''InputMaxLength'' YIntegerProperty, new_YProperty ''IconPath'' YStringProperty]"

definition YComboBox_propertySet :: YPropertySet where
  "YComboBox_propertySet = ps_addSet YWidget_propertySet YComboBox_properties"

definition YComboBox_vtable :: vtable where
  "YComboBox_vtable = plain_vtable YComboBox_propertySet ''YComboBox''"

definition YComboBox_setProperty :: "string \<Rightarrow> YPropertyValue \<Rightarrow> members \<Rightarrow> (bool \<times> members) result" where
  "YComboBox_setProperty name v w =
     bind_result (ps_check_type YComboBox_propertySet name (pv_type v)) (\<lambda>_.
       if name = ''Value'' then return (False, w)
       else if name = ''Items'' then return (False, w)
       else if name = ''Label'' then return (True, w\<lparr>w_label := stringVal v\<rparr>)
       else if name = ''ValidChars'' then return (True, w\<lparr>p_validChars := stringVal v\<rparr>)
       else if name = ''InputMaxLength'' then bind_result (integerVal v) (\<lambda>i. return (True, w\<lparr>p_inputMaxLength := c_int i\<rparr>))
       else if name = ''IconPath'' then return (True, w\<lparr>p_iconBasePath := stringVal v\<rparr>)
       else YWidget_setProperty YComboBox_vtable name v w)"

definition YComboBox_getProperty :: "string \<Rightarrow> members \<Rightarrow> YPropertyValue result" where
  "YComboBox_getProperty name w =
     bind_result (ps_check YComboBox_propertySet name) (\<lambda>_.
       if name = ''Value'' then return (TypeValue YOtherProperty)
       else if name = ''Items'' then return (TypeValue YOtherProperty)
       else if name = ''Label'' then return (StringValue (w_label w))
       else if name = ''ValidChars'' then return (StringValue (p_validChars w))
       else if name = ''InputMaxLength'' then return (IntegerValue (p_inputMaxLength w))
       else if name = ''IconPath'' then return (StringValue (p_iconBasePath w))
       else YWidget_getProperty YComboBox_vtable name w)"

text \<open>\<^verbatim>\<open>YContextMenu.cc\<close>\<close>

definition YContextMenu_properties :: YPropertySet where
  "YContextMenu_properties =
     [new_YProperty ''Label'' YStringProperty, new_YProperty ''Items'' YOtherProperty,
      new_YProperty ''IconPath'' YStringProperty]"

definition YContextMenu_propertySet :: YPropertySet where
  "YContextMenu_propertySet = ps_addSet YWidget_propertySet YContextMenu_properties"

definition YContextMenu_vtable :: vtable where
  "YContextMenu_vtable = plain_vtable YContextMenu_propertySet ''YContextMenu''"

definition YContextMenu_setProperty :: "string \<Rightarrow> YPropertyValue \<Rightarrow> members \<Rightarrow> (bool \<times> members) result" where
  "YContextMenu_setProperty name v w =
     bind_result (ps_check_type YContextMenu_propertySet name (pv_type v)) (\<lambda>_.
       if name = ''Label'' then return (True, w\<lparr>w_label := stringVal v\<rparr>)
       else if name = ''Items'' then return (False, w)
       else if name = ''IconPath'' then return (True, w\<lparr>p_iconBasePath := stringVal v\<rparr>)
       else YWidget_setProperty YContextMenu_vtable name v w)"

definition YContextMenu_getProperty :: "string \<Rightarrow> members \<Rightarrow> YPropertyValue result" where
  "YContextMenu_getProperty name w =
     bind_result (ps_check YContextMenu_propertySet name) (\<lambda>_.
       if name = ''Label'' then return (StringValue (w_label w))
       else if name = ''Items'' then return (TypeValue YOtherProperty)
       else if name = ''IconPath'' then return (StringValue (p_iconBasePath w))
       else YWidget_getProperty YContextMenu_vtable name w)"

text \<open>\<^verbatim>\<open>YMenuButton.cc\<close>\<close>

definition YMenuButton_properties :: YPropertySet where
  "YMenuButton_properties =
     [new_YProperty ''Label'' YStringProperty, new_YProperty ''Items'' YOtherProperty,
      new_YProperty ''IconPath'' YStringProperty]"

definition YMenuButton_propertySet :: YPropertySet where
  "YMenuButton_propertySet = ps_addSet YWidget_propertySet YMenuButton_properties"

definition YMenuButton_vtable :: vtable where
  "YMenuButton_vtable = plain_vtable YMenuButton_propertySet ''YMenuButton''"

definition YMenuButton_setProperty :: "string \<Rightarrow> YPropertyValue \<Rightarrow> members \<Rightarrow> (bool \<times> members) result" where
  "YMenuButton_setProperty name v w =
     bind_result (ps_check_type YMenuButton_propertySet name (pv_type v)) (\<lambda>_.
       if name = ''Label'' then return (True, w\<lparr>w_label := stringVal v\<rparr>)
       else if name = ''Items'' then return (False, w)
       else if name = ''IconPath'' then return (True, w\<lparr>p_iconBasePath := stringVal v\<rparr>)
       else YWidget_setProperty YMenuButton_vtable name v w)"

definition YMenuButton_getProperty :: "string \<Rightarrow> members \<Rightarrow> YPropertyValue result" where
  "YMenuButton_getProperty name w =
     bind_result (ps_check YMenuButton_propertySet name) (\<lambda>_.
       if name = ''Label'' then return (StringValue (w_label w))
       else if name = ''Items'' then return (TypeValue YOtherProperty)
       else if name = ''IconPath'' then return (StringValue (p_iconBasePath w))
       else YWidget_getProperty YMenuButton_vtable name w)"

text \<open>\<^verbatim>\<open>YMenuBar.cc\<close>\<close>

definition YMenuBar_properties :: YPropertySet where
  "YMenuBar_properties =
     [new_YProperty ''Items'' YOtherProperty, new_YProperty ''EnabledItems'' YOtherProperty,
      new_YProperty ''IconPath'' YStringProperty]"

definition YMenuBar_propertySet :: YPropertySet where
  "YMenuBar_propertySet = ps_addSet YWidget_propertySet YMenuBar_properties"

definition YMenuBar_vtable :: vtable where
  "YMenuBar_vtable = plain_vtable YMenuBar_propertySet ''YMenuBar''"

definition YMenuBar_setProperty :: "string \<Rightarrow> YPropertyValue \<Rightarrow> members \<Rightarrow> (bool \<times> members) result" where
  "YMenuBar_setProperty name v w =
     bind_result (ps_check_type YMenuBar_propertySet name (pv_type v)) (\<lambda>_.
       if name = ''Items'' then return (False, w)
       else if name = ''EnabledItems'' then return (False, w)
       else if name = ''IconPath'' then return (True, w\<lparr>p_iconBasePath := stringVal v\<rparr>)
       else YWidget_setProperty YMenuBar_vtable name v w)"

definition YMenuBar_getProperty :: "string \<Rightarrow> members \<Rightarrow> YPropertyValue result" where
  "YMenuBar_getProperty name w =
     bind_result (ps_check YMenuBar_propertySet name) (\<lambda>_.
       if name = ''Items'' then return (TypeValue YOtherProperty)
       else if name = ''EnabledItems'' then return (TypeValue YOtherProperty)
       else if name = ''IconPath'' then return (StringValue (p_iconBasePath w))
       else YWidget_getProperty YMenuBar_vtable name w)"

text \<open>\<^verbatim>\<open>YSelectionBox.cc\<close>\<close>

definition YSelectionBox_properties :: YPropertySet where
  "YSelectionBox_properties =
     [new_YProperty ''Value'' YOtherProperty, new_YProperty ''CurrentItem'' YOtherProperty,
      new_YProperty ''Items'' YOtherProperty, new_YProperty ''Label'' YStringProperty,
      new_YProperty ''IconPath'' YStringProperty]"

definition YSelectionBox_propertySet :: YPropertySet where
  "YSelectionBox_propertySet = ps_addSet YWidget_propertySet YSelectionBox_properties"

definition YSelectionBox_vtable :: vtable where
  "YSelectionBox_vtable = plain_vtable YSelectionBox_propertySet ''YSelectionBox''"

definition YSelectionBox_setProperty :: "string \<Rightarrow> YPropertyValue \<Rightarrow> members \<Rightarrow> (bool \<times> members) result" where
  "YSelectionBox_setProperty name v w =
     bind_result (ps_check_type YSelectionBox_propertySet name (pv_type v)) (\<lambda>_.
       if name = ''Value'' then return (False, w)
       else if name = ''CurrentItem'' then return (False, w)
       else if name = ''Items'' then return (False, w)
       else if name = ''Label'' then return (True, w\<lparr>w_label := stringVal v\<rparr>)
       else if name = ''IconPath'' then return (True, w\<lparr>p_iconBasePath := stringVal v\<rparr>)
       else YWidget_setProperty YSelectionBox_vtable name v w)"

definition YSelectionBox_getProperty :: "string \<Rightarrow> members \<Rightarrow> YPropertyValue result" where
  "YSelectionBox_getProperty name w =
     bind_result (ps_check YSelectionBox_propertySet name) (\<lambda>_.
       if name = ''Value'' then return (TypeValue YOtherProperty)
       else if name = ''CurrentItem'' then return (TypeValue YOtherProperty)
       else if name = ''Items'' then return (TypeValue YOtherProperty)
       else if name = ''Label'' then return (StringValue (w_label w))
       else if name = ''IconPath'' then return (StringValue (p_iconBasePath w))
       else YWidget_getProperty YSelectionBox_vtable name w)"

text \<open>\<^verbatim>\<open>YMultiSelectionBox.cc\<close>\<close>

definition YMultiSelectionBox_properties :: YPropertySet where
  "YMultiSelectionBox_properties =
     [new_YProperty ''CurrentItem'' YOtherProperty, new_YProperty ''SelectedItems'' YOtherProperty,
      new_YProperty ''Items'' YOtherProperty, new_YProperty ''Label'' YStringProperty,
      new_YProperty ''IconPath'' YStringProperty]"

definition YMultiSelectionBox_propertySet :: YPropertySet where
  "YMultiSelectionBox_propertySet = ps_addSet YWidget_propertySet YMultiSelectionBox_properties"

definition YMultiSelectionBox_vtable :: vtable where
  "YMultiSelectionBox_vtable = plain_vtable YMultiSelectionBox_propertySet ''YMultiSelectionBox''"

definition YMultiSelectionBox_setProperty :: "string \<Rightarrow> YPropertyValue \<Rightarrow> members \<Rightarrow> (bool \<times> members) result" where
  "YMultiSelectionBox_setProperty name v w =
     bind_result (ps_check_type YMultiSelectionBox_propertySet name (pv_type v)) (\<lambda>_.
       if name = ''CurrentItem'' then return (False, w)
       else if name = ''SelectedItems'' then return (False, w)
       else if name = ''Items'' then return (False, w)
       else if name = ''Label'' then return (True, w\<lparr>w_label := stringVal v\<rparr>)
       else if name = ''IconPath'' then return (True, w\<lparr>p_iconBasePath := stringVal v\<rparr>)
       else YWidget_setProperty YMultiSelectionBox_vtable name v w)"

definition YMultiSelectionBox_getProperty :: "string \<Rightarrow> members \<Rightarrow> YPropertyValue result" where
  "YMultiSelectionBox_getProperty name w =
     bind_result (ps_check YMultiSelectionBox_propertySet name) (\<lambda>_.
       if name = ''CurrentItem'' then return (TypeValue YOtherProperty)
       else if name = ''SelectedItems'' then return (TypeValue YOtherProperty)
       else if name = ''Items'' then return (TypeValue YOtherProperty)
       else if name = ''Label'' then return (StringValue (w_label w))
       else YWidget_getProperty YMultiSelectionBox_vtable name w)"

text \<open>\<^verbatim>\<open>YTree.cc\<close>\<close>

definition YTree_properties :: YPropertySet where
  "YTree_properties =
     [new_YProperty ''Value'' YOtherProperty, new_YProperty ''CurrentItem'' YOtherProperty,
      new_YProperty ''CurrentBranch'' YOtherProperty, new_YProperty ''Items'' YOtherProperty,
      new_YProperty ''Label'' YStringProperty, new_YProperty ''IconPath'' YStringProperty,
      new_YProperty ''SelectedItems'' YOtherProperty, read_only ''MultiSelection'' YBoolProperty,
      read_only ''OpenItems'' YOtherProperty]"

definition YTree_propertySet :: YPropertySet where
  "YTree_propertySet = ps_addSet YWidget_propertySet YTree_properties"

definition YTree_vtable :: vtable where
  "YTree_vtable = plain_vtable YTree_propertySet ''YTree''"

definition YTree_setProperty :: "string \<Rightarrow> YPropertyValue \<Rightarrow> members \<Rightarrow> (bool \<times> members) result" where
  "YTree_setProperty name v w =
     bind_result (ps_check_type YTree_propertySet name (pv_type v)) (\<lambda>_.
       if name = ''Value'' then return (False, w)
       else if name = ''CurrentItem'' then return (False, w)
       else if name = ''CurrentBranch'' then return (False, w)
       else if name = ''Items'' then return (False, w)
       else if name = ''Label'' then return (True, w\<lparr>w_label := stringVal v\<rparr>)
       else if name = ''IconPath'' then return (True, w\<lparr>p_iconBasePath := stringVal v\<rparr>)
       else if name = ''SelectedItems'' then return (False, w)
       else YWidget_setProperty YTree_vtable name v w)"

definition YTree_getProperty :: "string \<Rightarrow> members \<Rightarrow> YPropertyValue result" where
  "YTree_getProperty name w =
     bind_result (ps_check YTree_propertySet name) (\<lambda>_.
       if name = ''Value'' then return (TypeValue YOtherProperty)
       else if name = ''CurrentItem'' then return (TypeValue YOtherProperty)
       else if name = ''CurrentBranch'' then return (TypeValue YOtherProperty)
       else if name = ''Items'' then return (TypeValue YOtherProperty)
       else if name = ''Label'' then return (StringValue (w_label w))
       else if name = ''IconPath'' then return (StringValue (p_iconBasePath w))
       else if name = ''SelectedItems'' then return (TypeValue YOtherProperty)
       else if name = ''MultiSelection'' then return (BoolValue (\<not> p_enforceSingleSelection w))
       else if name = ''OpenItems'' then return (TypeValue YOtherProperty)
       else YWidget_getProperty YTree_vtable name w)"

text \<open>\<^verbatim>\<open>YTable.cc\<close>\<close>

definition YTable_properties :: YPropertySet where
  "YTable_properties =
     [new_YProperty ''Value'' YOtherProperty, new_YProperty ''CurrentItem'' YOtherProperty,
      new_YProperty ''SelectedItems'' YOtherProperty, new_YProperty ''Items'' YOtherProperty,
      new_YProperty ''Cell'' YOtherProperty, new_YProperty ''Item'' YOtherProperty,
      new_YProperty ''IconPath'' YStringProperty, read_only ''MultiSelection'' YBoolProperty,
      read_only ''OpenItems'' YOtherProperty]"

definition YTable_propertySet :: YPropertySet where
  "YTable_propertySet = ps_addSet YWidget_propertySet YTable_properties"

definition YTable_vtable :: vtable where
  "YTable_vtable = plain_vtable YTable_propertySet ''YTable''"

definition YTable_setProperty :: "string \<Rightarrow> YPropertyValue \<Rightarrow> members \<Rightarrow> (bool \<times> members) result" where
  "YTable_setProperty name v w =
     bind_result (ps_check_type YTable_propertySet name (pv_type v)) (\<lambda>_.
       if name = ''Value'' then return (False, w)
       else if name = ''CurrentItem'' then return (False, w)
       else if name = ''SelectedItems'' then return (False, w)
       else if name = ''Items'' then return (False, w)
       else if name = ''Cell'' then return (False, w)
       else if name = ''Item'' then return (False, w)
       else if name = ''IconPath'' then return (True, w\<lparr>p_iconBasePath := stringVal v\<rparr>)
       else YWidget_setProperty YTable_vtable name v w)"

definition YTable_getProperty :: "string \<Rightarrow> members \<Rightarrow> YPropertyValue result" where
  "YTable_getProperty name w =
     bind_result (ps_check YTable_propertySet name) (\<lambda>_.
       if name = ''Value'' then return (TypeValue YOtherProperty)
       else if name = ''CurrentItem'' then return (TypeValue YOtherProperty)
       else if name = ''SelectedItems'' then return (TypeValue YOtherProperty)
       else if name = ''Items'' then return (TypeValue YOtherProperty)
       else if name = ''Cell'' then return (TypeValue YOtherProperty)
       else if name = ''Item'' then return (TypeValue YOtherProperty)
       else if name = ''IconPath'' then return (StringValue (p_iconBasePath w))
       else if name = ''MultiSelection'' then return (BoolValue (\<not> p_enforceSingleSelection w))
       else if name = ''OpenItems'' then return (TypeValue YOtherProperty)
       else YWidget_getProperty YTable_vtable name w)"

text \<open>\<^verbatim>\<open>YItemSelector.cc\<close>\<close>

definition YItemSelector_properties :: YPropertySet where
  "YItemSelector_properties =
     [new_YProperty ''Value'' YOtherProperty, new_YProperty ''CurrentItem'' YOtherProperty,
      new_YProperty ''SelectedItems'' YOtherProperty, new_YProperty ''Items'' YOtherProperty,
      new_YProperty ''ItemStatus'' YOtherProperty, new_YProperty ''VisibleItems'' YIntegerProperty,
      new_YProperty ''IconPath'' YStringProperty]"

definition YItemSelector_propertySet :: YPropertySet where
  "YItemSelector_propertySet = ps_addSet YWidget_propertySet YItemSelector_properties"

definition YItemSelector_vtable :: vtable where
  "YItemSelector_vtable = (plain_vtable YItemSelector_propertySet ''YItemSelector'')\<lparr>vt_widgetClass := YItemSelector_widgetClass\<rparr>"

definition YItemSelector_setProperty :: "string \<Rightarrow> YPropertyValue \<Rightarrow> members \<Rightarrow> (bool \<times> members) result" where
  "YItemSelector_setProperty name v w =
     bind_result (ps_check_type YItemSelector_propertySet name (pv_type v)) (\<lambda>_.
       if name = ''Value'' then return (False, w)
       else if name = ''CurrentItem'' then return (False, w)
       else if name = ''SelectedItems'' then return (False, w)
       else if name = ''Items'' then return (False, w)
       else if name = ''ItemStatus'' then return (False, w)
       else if name = ''VisibleItems'' then bind_result (integerVal v) (\<lambda>i. return (True, setVisibleItems (c_int i) w))
       else if name = ''IconPath'' then return (True, w\<lparr>p_iconBasePath := stringVal v\<rparr>)
       else YWidget_setProperty YItemSelector_vtable name v w)"

definition YItemSelector_getProperty :: "string \<Rightarrow> members \<Rightarrow> YPropertyValue result" where
  "YItemSelector_getProperty name w =
     bind_result (ps_check YItemSelector_propertySet name) (\<lambda>_.
       if name = ''Value'' then return (TypeValue YOtherProperty)
       else if name = ''CurrentItem'' then return (TypeValue YOtherProperty)
       else if name = ''SelectedItems'' then return (TypeValue YOtherProperty)
       else if name = ''Items'' then return (TypeValue YOtherProperty)
       else if name = ''ItemStatus'' then return (TypeValue YOtherProperty)
       else if name = ''VisibleItems'' then return (IntegerValue (p_visibleItems w))
       else if name = ''IconPath'' then return (StringValue (p_iconBasePath w))
       else YWidget_getProperty YItemSelector_vtable name w)"

text \<open>\<^verbatim>\<open>YDumbTab.cc\<close>\<close>

definition YDumbTab_properties :: YPropertySet where
  "YDumbTab_properties =
     [new_YProperty ''Value'' YOtherProperty, new_YProperty ''CurrentItem'' YOtherProperty,
      new_YProperty ''Items'' YOtherProperty]"

definition YDumbTab_propertySet :: YPropertySet where
  "YDumbTab_propertySet = ps_addSet YWidget_propertySet YDumbTab_properties"

definition YDumbTab_vtable :: vtable where
  "YDumbTab_vtable = (container_vtable YDumbTab_propertySet ''YDumbTab'')\<lparr>vt_debugLabel := YDumbTab_debugLabel\<rparr>"

definition YDumbTab_setProperty :: "string \<Rightarrow> YPropertyValue \<Rightarrow> members \<Rightarrow> (bool \<times> members) result" where
  "YDumbTab_setProperty name v w =
     bind_result (ps_check_type YDumbTab_propertySet name (pv_type v)) (\<lambda>_.
       if name = ''Value'' then return (False, w)
       else if name = ''CurrentItem'' then return (False, w)
       else if name = ''Items'' then return (False, w)
       else YWidget_setProperty YDumbTab_vtable name v w)"

definition YDumbTab_getProperty :: "string \<Rightarrow> members \<Rightarrow> YPropertyValue result" where
  "YDumbTab_getProperty name w =
     bind_result (ps_check YDumbTab_propertySet name) (\<lambda>_.
       if name = ''Value'' then return (TypeValue YOtherProperty)
       else if name = ''CurrentItem'' then return (TypeValue YOtherProperty)
       else if name = ''Items'' then return (TypeValue YOtherProperty)
       else YWidget_getProperty YDumbTab_vtable name w)"

text \<open>\<^verbatim>\<open>YLabel.cc\<close>\<close>

definition YLabel_properties :: YPropertySet where
  "YLabel_properties =
     [new_YProperty ''Label'' YStringProperty, new_YProperty ''Value'' YStringProperty,
      new_YProperty ''Text'' YStringProperty]"

definition YLabel_propertySet :: YPropertySet where
  "YLabel_propertySet = ps_addSet YWidget_propertySet YLabel_properties"

definition YLabel_vtable :: vtable where
  "YLabel_vtable = (plain_vtable YLabel_propertySet ''YLabel'')\<lparr>vt_widgetClass := YLabel_widgetClass, vt_debugLabel := YLabel_debugLabel\<rparr>"

definition YLabel_setProperty :: "string \<Rightarrow> YPropertyValue \<Rightarrow> members \<Rightarrow> (bool \<times> members) result" where
  "YLabel_setProperty name v w =
     bind_result (ps_check_type YLabel_propertySet name (pv_type v)) (\<lambda>_.
       if name = ''Label'' then return (True, w\<lparr>p_text := stringVal v\<rparr>)
       else if name = ''Value'' then return (True, w\<lparr>p_text := stringVal v\<rparr>)
       else if name = ''Text'' then return (True, w\<lparr>p_text := stringVal v\<rparr>)
       else YWidget_setProperty YLabel_vtable name v w)"

definition YLabel_getProperty :: "string \<Rightarrow> members \<Rightarrow> YPropertyValue result" where
  "YLabel_getProperty name w =
     bind_result (ps_check YLabel_propertySet name) (\<lambda>_.
       if name = ''Label'' then return (StringValue (p_text w))
       else if name = ''Value'' then return (StringValue (p_text w))
       else if name = ''Text'' then return (StringValue (p_text w))
       else YWidget_getProperty YLabel_vtable name w)"

text \<open>\<^verbatim>\<open>YRichText.cc\<close>\<close>

definition YRichText_properties :: YPropertySet where
  "YRichText_properties =
     [new_YProperty ''Value'' YStringProperty, new_YProperty ''Text'' YStringProperty,
      new_YProperty ''VScrollValue'' YStringProperty, new_YProperty ''HScrollValue'' YStringProperty]"

definition YRichText_propertySet :: YPropertySet where
  "YRichText_propertySet = ps_addSet YWidget_propertySet YRichText_properties"

definition YRichText_vtable :: vtable where
  "YRichText_vtable = plain_vtable YRichText_propertySet ''YRichText''"

definition YRichText_setProperty :: "string \<Rightarrow> YPropertyValue \<Rightarrow> members \<Rightarrow> (bool \<times> members) result" where
  "YRichText_setProperty name v w =
     bind_result (ps_check_type YRichText_propertySet name (pv_type v)) (\<lambda>_.
       if name = ''Value'' then return (True, w\<lparr>p_text := stringVal v\<rparr>)
       else if name = ''Text'' then return (True, w\<lparr>p_text := stringVal v\<rparr>)
       else if name = ''VScrollValue'' then return (True, w)
       else if name = ''HScrollValue'' then return (True, w)
       else YWidget_setProperty YRichText_vtable name v w)"

definition YRichText_getProperty :: "string \<Rightarrow> members \<Rightarrow> YPropertyValue result" where
  "YRichText_getProperty name w =
     bind_result (ps_check YRichText_propertySet name) (\<lambda>_.
       if name = ''Value'' then return (StringValue (p_text w))
       else if name = ''Text'' then return (StringValue (p_text w))
       else if name = ''VScrollValue'' then return (StringValue [])
       else if name = ''HScrollValue'' then return (StringValue [])
       else YWidget_getProperty YRichText_vtable name w)"

text \<open>\<^verbatim>\<open>YInputField.cc\<close>\<close>

definition YInputField_properties :: YPropertySet where
  "YInputField_properties =
     [new_YProperty ''Value'' YStringProperty, new_YProperty ''Label'' YStringProperty,
      new_YProperty ''ValidChars'' YStringProperty,
      new_YProperty ''InputMaxLength'' YIntegerProperty]"

definition YInputField_propertySet :: YPropertySet where
  "YInputField_propertySet = ps_addSet YWidget_propertySet YInputField_properties"

definition YInputField_vtable :: vtable where
  "YInputField_vtable = (plain_vtable YInputField_propertySet ''YInputField'')\<lparr>vt_widgetClass := YInputField_widgetClass\<rparr>"

definition YInputField_setProperty :: "toolkit \<Rightarrow> string \<Rightarrow> YPropertyValue \<Rightarrow> members \<Rightarrow> (bool \<times> members) result" where
  "YInputField_setProperty tk name v w =
     bind_result (ps_check_type YInputField_propertySet name (pv_type v)) (\<lambda>_.
       if name = ''Value'' then return (True, w\<lparr>p_shown := tk_text tk w (stringVal v)\<rparr>)
       else if name = ''Label'' then return (True, w\<lparr>w_label := stringVal v\<rparr>)
       else if name = ''ValidChars'' then return (True, w\<lparr>p_validChars := stringVal v\<rparr>)
       else if name = ''InputMaxLength'' then bind_result (integerVal v) (\<lambda>i. return (True, w\<lparr>p_inputMaxLength := c_int i\<rparr>))
       else YWidget_setProperty YInputField_vtable name v w)"

definition YInputField_getProperty :: "string \<Rightarrow> members \<Rightarrow> YPropertyValue result" where
  "YInputField_getProperty name w =
     bind_result (ps_check YInputField_propertySet name) (\<lambda>_.
       if name = ''Value'' then return (StringValue (p_shown w))
       else if name = ''Label'' then return (StringValue (w_label w))
       else if name = ''ValidChars'' then return (StringValue (p_validChars w))
       else if name = ''InputMaxLength'' then return (IntegerValue (p_inputMaxLength w))
       else YWidget_getProperty YInputField_vtable name w)"

text \<open>\<^verbatim>\<open>YSimpleInputField.cc\<close>\<close>

definition YSimpleInputField_properties :: YPropertySet where
  "YSimpleInputField_properties =
     [new_YProperty ''Value'' YStringProperty, new_YProperty ''Label'' YStringProperty]"

definition YSimpleInputField_propertySet :: YPropertySet where
  "YSimpleInputField_propertySet = ps_addSet YWidget_propertySet YSimpleInputField_properties"

definition YSimpleInputField_vtable :: vtable where
  "YSimpleInputField_vtable = plain_vtable YSimpleInputField_propertySet ''YWidget''"

definition YSimpleInputField_setProperty :: "toolkit \<Rightarrow> string \<Rightarrow> YPropertyValue \<Rightarrow> members \<Rightarrow> (bool \<times> members) result" where
  "YSimpleInputField_setProperty tk name v w =
     bind_result (ps_check_type YSimpleInputField_propertySet name (pv_type v)) (\<lambda>_.
       if name = ''Value'' then return (True, w\<lparr>p_shown := tk_text tk w (stringVal v)\<rparr>)
       else if name = ''Label'' then return (True, w\<lparr>w_label := stringVal v\<rparr>)
       else YWidget_setProperty YSimpleInputField_vtable name v w)"

definition YSimpleInputField_getProperty :: "string \<Rightarrow> members \<Rightarrow> YPropertyValue result" where
  "YSimpleInputField_getProperty name w =
     bind_result (ps_check YSimpleInputField_propertySet name) (\<lambda>_.
       if name = ''Value'' then return (StringValue (p_shown w))
       else if name = ''Label'' then return (StringValue (w_label w))
       else YWidget_getProperty YSimpleInputField_vtable name w)"

text \<open>\<^verbatim>\<open>YMultiLineEdit.cc\<close>\<close>

definition YMultiLineEdit_properties :: YPropertySet where
  "YMultiLineEdit_properties =
     [new_YProperty ''Value'' YStringProperty, new_YProperty ''Label'' YStringProperty,
      new_YProperty ''InputMaxLength'' YIntegerProperty]"

definition YMultiLineEdit_propertySet :: YPropertySet where
  "YMultiLineEdit_propertySet = ps_addSet YWidget_propertySet YMultiLineEdit_properties"

definition YMultiLineEdit_vtable :: vtable where
  "YMultiLineEdit_vtable = plain_vtable YMultiLineEdit_propertySet ''YMultiLineEdit''"

definition YMultiLineEdit_setProperty :: "toolkit \<Rightarrow> string \<Rightarrow> YPropertyValue \<Rightarrow> members \<Rightarrow> (bool \<times> members) result" where
  "YMultiLineEdit_setProperty tk name v w =
     bind_result (ps_check_type YMultiLineEdit_propertySet name (pv_type v)) (\<lambda>_.
       if name = ''Value'' then return (True, w\<lparr>p_shown := tk_text tk w (stringVal v)\<rparr>)
       else if name = ''Label'' then return (True, w\<lparr>w_label := stringVal v\<rparr>)
       else if name = ''InputMaxLength'' then bind_result (integerVal v) (\<lambda>i. return (True, w\<lparr>p_inputMaxLength := c_int i\<rparr>))
       else YWidget_setProperty YMultiLineEdit_vtable name v w)"

definition YMultiLineEdit_getProperty :: "string \<Rightarrow> members \<Rightarrow> YPropertyValue result" where
  "YMultiLineEdit_getProperty name w =
     bind_result (ps_check YMultiLineEdit_propertySet name) (\<lambda>_.
       if name = ''Value'' then return (StringValue (p_shown w))
       else if name = ''Label'' then return (StringValue (w_label w))
       else if name = ''InputMaxLength'' then return (IntegerValue (p_inputMaxLength w))
       else YWidget_getProperty YMultiLineEdit_vtable name w)"

text \<open>\<^verbatim>\<open>YIntField.cc\<close>\<close>

definition YIntField_properties :: YPropertySet where
  "YIntField_properties =
     [new_YProperty ''Value'' YIntegerProperty, new_YProperty ''MinValue'' YIntegerProperty,
      new_YProperty ''MaxValue'' YIntegerProperty, new_YProperty ''Label'' YStringProperty]"

definition YIntField_propertySet :: YPropertySet where
  "YIntField_propertySet = ps_addSet YWidget_propertySet YIntField_properties"

definition YIntField_vtable :: vtable where
  "YIntField_vtable = plain_vtable YIntField_propertySet ''YIntField''"

definition YIntField_setProperty :: "toolkit \<Rightarrow> string \<Rightarrow> YPropertyValue \<Rightarrow> members \<Rightarrow> (bool \<times> members) result" where
  "YIntField_setProperty tk name v w =
     bind_result (ps_check_type YIntField_propertySet name (pv_type v)) (\<lambda>_.
       if name = ''Value'' then bind_result (integerVal v) (\<lambda>i. return (True, IntField_setValue tk (c_int i) w))
       else if name = ''MinValue'' then bind_result (integerVal v) (\<lambda>i. return (True, setMinValue tk (c_int i) w))
       else if name = ''MaxValue'' then bind_result (integerVal v) (\<lambda>i. return (True, setMaxValue tk (c_int i) w))
       else if name = ''Label'' then return (True, w\<lparr>w_label := stringVal v\<rparr>)
       else YWidget_setProperty YIntField_vtable name v w)"

definition YIntField_getProperty :: "string \<Rightarrow> members \<Rightarrow> YPropertyValue result" where
  "YIntField_getProperty name w =
     bind_result (ps_check YIntField_propertySet name) (\<lambda>_.
       if name = ''Value'' then return (IntegerValue (p_number w))
       else if name = ''MinValue'' then return (IntegerValue (p_minValue w))
       else if name = ''MaxValue'' then return (IntegerValue (p_maxValue w))
       else if name = ''Label'' then return (StringValue (w_label w))
       else YWidget_getProperty YIntField_vtable name w)"

text \<open>\<^verbatim>\<open>YProgressBar.cc\<close>\<close>

definition YProgressBar_properties :: YPropertySet where
  "YProgressBar_properties =
     [new_YProperty ''Value'' YIntegerProperty, new_YProperty ''Label'' YStringProperty]"

definition YProgressBar_propertySet :: YPropertySet where
  "YProgressBar_propertySet = ps_addSet YWidget_propertySet YProgressBar_properties"

definition YProgressBar_vtable :: vtable where
  "YProgressBar_vtable = plain_vtable YProgressBar_propertySet ''YProgressBar''"

definition YProgressBar_setProperty :: "string \<Rightarrow> YPropertyValue \<Rightarrow> members \<Rightarrow> (bool \<times> members) result" where
  "YProgressBar_setProperty name v w =
     bind_result (ps_check_type YProgressBar_propertySet name (pv_type v)) (\<lambda>_.
       if name = ''Value'' then bind_result (integerVal v) (\<lambda>i. return (True, ProgressBar_setValue (c_int i) w))
       else if name = ''Label'' then return (True, w\<lparr>w_label := stringVal v\<rparr>)
       else YWidget_setProperty YProgressBar_vtable name v w)"

definition YProgressBar_getProperty :: "string \<Rightarrow> members \<Rightarrow> YPropertyValue result" where
  "YProgressBar_getProperty name w =
     bind_result (ps_check YProgressBar_propertySet name) (\<lambda>_.
       if name = ''Value'' then return (IntegerValue (p_value w))
       else if name = ''Label'' then return (StringValue (w_label w))
       else YWidget_getProperty YProgressBar_vtable name w)"

text \<open>\<^verbatim>\<open>YBusyIndicator.cc\<close>\<close>

definition YBusyIndicator_properties :: YPropertySet where
  "YBusyIndicator_properties =
     [new_YProperty ''Timeout'' YIntegerProperty, new_YProperty ''Alive'' YBoolProperty,
      new_YProperty ''Label'' YStringProperty]"

definition YBusyIndicator_propertySet :: YPropertySet where
  "YBusyIndicator_propertySet = ps_addSet YWidget_propertySet YBusyIndicator_properties"

definition YBusyIndicator_vtable :: vtable where
  "YBusyIndicator_vtable = plain_vtable YBusyIndicator_propertySet ''YBusyIndicator''"

definition YBusyIndicator_setProperty :: "string \<Rightarrow> YPropertyValue \<Rightarrow> members \<Rightarrow> (bool \<times> members) result" where
  "YBusyIndicator_setProperty name v w =
     bind_result (ps_check_type YBusyIndicator_propertySet name (pv_type v)) (\<lambda>_.
       if name = ''Timeout'' then bind_result (integerVal v) (\<lambda>i. return (True, setTimeout (c_int i) w))
       else if name = ''Alive'' then bind_result (boolVal v) (\<lambda>b. return (True, w\<lparr>p_alive := ov_setAlive (p_overrides w) b (p_alive w)\<rparr>))
       else if name = ''Label'' then return (True, w\<lparr>w_label := stringVal v\<rparr>)
       else YWidget_setProperty YBusyIndicator_vtable name v w)"

definition YBusyIndicator_getProperty :: "string \<Rightarrow> members \<Rightarrow> YPropertyValue result" where
  "YBusyIndicator_getProperty name w =
     bind_result (ps_check YBusyIndicator_propertySet name) (\<lambda>_.
       if name = ''Timeout'' then return (IntegerValue (p_timeout w))
       else if name = ''Label'' then return (StringValue (w_label w))
       else if name = ''Alive'' then return (BoolValue (p_alive w))
       else YWidget_getProperty YBusyIndicator_vtable name w)"

text \<open>\<^verbatim>\<open>YDownloadProgress.cc\<close>\<close>

definition YDownloadProgress_properties :: YPropertySet where
  "YDownloadProgress_properties =
     [new_YProperty ''Label'' YStringProperty, new_YProperty ''Filename'' YStringProperty,
      new_YProperty ''ExpectedSize'' YIntegerProperty, read_only ''CurrentSize'' YIntegerProperty,
      read_only ''Value'' YIntegerProperty]"

definition YDownloadProgress_propertySet :: YPropertySet where
  "YDownloadProgress_propertySet = ps_addSet YWidget_propertySet YDownloadProgress_properties"

definition YDownloadProgress_vtable :: vtable where
  "YDownloadProgress_vtable = plain_vtable YDownloadProgress_propertySet ''YDownloadProgress''"

definition YDownloadProgress_setProperty :: "string \<Rightarrow> YPropertyValue \<Rightarrow> members \<Rightarrow> (bool \<times> members) result" where
  "YDownloadProgress_setProperty name v w =
     bind_result (ps_check_type YDownloadProgress_propertySet name (pv_type v)) (\<lambda>_.
       let w1 = (if name = ''Label'' then w\<lparr>w_label := stringVal v\<rparr> else w);
           w2 = (if name = ''Filename'' then w1\<lparr>p_filename := stringVal v\<rparr> else w1)
       in if name = ''ExpectedSize'' then bind_result (integerVal v) (\<lambda>i. return (True, w2\<lparr>p_expectedSize := i\<rparr>))
          else bind_result (YWidget_setProperty YDownloadProgress_vtable name v w2) (\<lambda>(_, w3). return (True, w3)))"

definition YDownloadProgress_getProperty :: "toolkit \<Rightarrow> string \<Rightarrow> members \<Rightarrow> YPropertyValue result" where
  "YDownloadProgress_getProperty tk name w =
     bind_result (ps_check YDownloadProgress_propertySet name) (\<lambda>_.
       if name = ''Label'' then return (StringValue (w_label w))
       else if name = ''Filename'' then return (StringValue (p_filename w))
       else if name = ''ExpectedSize'' then return (IntegerValue (p_expectedSize w))
       else if name = ''CurrentSize'' then return (IntegerValue (tk_fileSize tk (p_filename w)))
       else if name = ''Value'' then return (IntegerValue (currentPercent tk w))
       else YWidget_getProperty YDownloadProgress_vtable name w)"

text \<open>\<^verbatim>\<open>YLogView.cc\<close>\<close>

definition YLogView_properties :: YPropertySet where
  "YLogView_properties =
     [new_YProperty ''Value'' YStringProperty, new_YProperty ''LastLine'' YStringProperty,
      new_YProperty ''VisibleLines'' YIntegerProperty, new_YProperty ''MaxLines'' YIntegerProperty,
      new_YProperty ''Label'' YStringProperty]"

definition YLogView_propertySet :: YPropertySet where
  "YLogView_propertySet = ps_addSet YWidget_propertySet YLogView_properties"

definition YLogView_vtable :: vtable where
  "YLogView_vtable = plain_vtable YLogView_propertySet ''YLogView''"

definition YLogView_setProperty :: "string \<Rightarrow> YPropertyValue \<Rightarrow> members \<Rightarrow> (bool \<times> members) result" where
  "YLogView_setProperty name v w =
     bind_result (ps_check_type YLogView_propertySet name (pv_type v)) (\<lambda>_.
       if name = ''Value'' then return (True, w\<lparr>p_log := setLogText (stringVal v) (p_log w)\<rparr>)
       else if name = ''LastLine'' then return (True, w\<lparr>p_log := appendLines (stringVal v) (p_log w)\<rparr>)
       else if name = ''VisibleLines'' then bind_result (integerVal v) (\<lambda>i. return (True, w\<lparr>p_log := setVisibleLines (c_int i) (p_log w)\<rparr>))
       else if name = ''MaxLines'' then bind_result (integerVal v) (\<lambda>i. bind_result (setMaxLines (c_int i) (p_log w)) (\<lambda>log. return (True, w\<lparr>p_log := log\<rparr>)))
       else if name = ''Label'' then return (True, w\<lparr>w_label := stringVal v\<rparr>)
       else YWidget_setProperty YLogView_vtable name v w)"

definition YLogView_getProperty :: "string \<Rightarrow> members \<Rightarrow> YPropertyValue result" where
  "YLogView_getProperty name w =
     bind_result (ps_check YLogView_propertySet name) (\<lambda>_.
       if name = ''Value'' then return (StringValue (logText (p_log w)))
       else if name = ''LastLine'' then return (StringValue (lastLine (p_log w)))
       else if name = ''VisibleLines'' then return (IntegerValue (lv_visibleLines (p_log w)))
       else if name = ''MaxLines'' then return (IntegerValue (lv_maxLines (p_log w)))
       else if name = ''Label'' then return (StringValue (w_label w))
       else YWidget_getProperty YLogView_vtable name w)"

text \<open>\<^verbatim>\<open>YGraph.cc\<close>\<close>

definition YGraph_properties :: YPropertySet where
  "YGraph_properties =
     [new_YProperty ''Filename'' YStringProperty, new_YProperty ''Layout'' YStringProperty,
      read_only ''Item'' YStringProperty]"

definition YGraph_propertySet :: YPropertySet where
  "YGraph_propertySet = ps_addSet YWidget_propertySet YGraph_properties"

definition YGraph_vtable :: vtable where
  "YGraph_vtable = plain_vtable YGraph_propertySet ''YGraph''"

definition YGraph_setProperty :: "string \<Rightarrow> YPropertyValue \<Rightarrow> members \<Rightarrow> (bool \<times> members) result" where
  "YGraph_setProperty name v w =
     bind_result (ps_check_type YGraph_propertySet name (pv_type v)) (\<lambda>_.
       if name = ''Filename'' then return (True, w\<lparr>p_filename := stringVal v\<rparr>)
       else if name = ''Layout'' then return (True, w\<lparr>p_layoutAlgorithm := stringVal v\<rparr>)
       else YWidget_setProperty YGraph_vtable name v w)"

definition YGraph_getProperty :: "string \<Rightarrow> members \<Rightarrow> YPropertyValue result" where
  "YGraph_getProperty name w =
     bind_result (ps_check YGraph_propertySet name) (\<lambda>_.
       if name = ''Filename'' then return (StringValue (p_filename w))
       else if name = ''Layout'' then return (StringValue (p_layoutAlgorithm w))
       else if name = ''Item'' then return (StringValue [])
       else YWidget_getProperty YGraph_vtable name w)"

text \<open>\<^verbatim>\<open>YTimezoneSelector.cc\<close>\<close>

definition YTimezoneSelector_properties :: YPropertySet where
  "YTimezoneSelector_properties =
     [new_YProperty ''Value'' YStringProperty, new_YProperty ''CurrentItem'' YStringProperty]"

definition YTimezoneSelector_propertySet :: YPropertySet where
  "YTimezoneSelector_propertySet = ps_addSet YWidget_propertySet YTimezoneSelector_properties"

definition YTimezoneSelector_vtable :: vtable where
  "YTimezoneSelector_vtable = plain_vtable YTimezoneSelector_propertySet ''YTimezoneSelector''"

definition YTimezoneSelector_setProperty :: "toolkit \<Rightarrow> string \<Rightarrow> YPropertyValue \<Rightarrow> members \<Rightarrow> (bool \<times> members) result" where
  "YTimezoneSelector_setProperty tk name v w =
     bind_result (ps_check_type YTimezoneSelector_propertySet name (pv_type v)) (\<lambda>_.
       if name = ''Value'' then return (True, w\<lparr>p_zone := tk_zone tk w (stringVal v) True\<rparr>)
       else if name = ''CurrentItem'' then return (True, w\<lparr>p_zone := tk_zone tk w (stringVal v) False\<rparr>)
       else YWidget_setProperty YTimezoneSelector_vtable name v w)"

definition YTimezoneSelector_getProperty :: "string \<Rightarrow> members \<Rightarrow> YPropertyValue result" where
  "YTimezoneSelector_getProperty name w =
     bind_result (ps_check YTimezoneSelector_propertySet name) (\<lambda>_.
       if name = ''Value'' then return (StringValue (p_zone w))
       else if name = ''CurrentItem'' then return (StringValue (p_zone w))
       else YWidget_getProperty YTimezoneSelector_vtable name w)"

text \<open>\<^verbatim>\<open>YPartitionSplitter.cc\<close>\<close>

definition YPartitionSplitter_properties :: YPropertySet where
  "YPartitionSplitter_properties =
     [new_YProperty ''Value'' YStringProperty]"

definition YPartitionSplitter_propertySet :: YPropertySet where
  "YPartitionSplitter_propertySet = ps_addSet YWidget_propertySet YPartitionSplitter_properties"

definition YPartitionSplitter_vtable :: vtable where
  "YPartitionSplitter_vtable = plain_vtable YPartitionSplitter_propertySet ''YPartitionSplitter''"

definition YPartitionSplitter_setProperty :: "toolkit \<Rightarrow> string \<Rightarrow> YPropertyValue \<Rightarrow> members \<Rightarrow> (bool \<times> members) result" where
  "YPartitionSplitter_setProperty tk name v w =
     bind_result (ps_check_type YPartitionSplitter_propertySet name (pv_type v)) (\<lambda>_.
       if name = ''Value'' then bind_result (integerVal v) (\<lambda>i. return (True, w\<lparr>p_number := tk_number tk w (c_int i)\<rparr>))
       else YWidget_setProperty YPartitionSplitter_vtable name v w)"

definition YPartitionSplitter_getProperty :: "string \<Rightarrow> members \<Rightarrow> YPropertyValue result" where
  "YPartitionSplitter_getProperty name w =
     bind_result (ps_check YPartitionSplitter_propertySet name) (\<lambda>_.
       if name = ''Value'' then return (IntegerValue (p_number w))
       else YWidget_getProperty YPartitionSplitter_vtable name w)"

text \<open>\<^verbatim>\<open>YMultiProgressMeter.cc\<close>\<close>

definition YMultiProgressMeter_properties :: YPropertySet where
  "YMultiProgressMeter_properties =
     [new_YProperty ''Values'' YOtherProperty]"

definition YMultiProgressMeter_propertySet :: YPropertySet where
  "YMultiProgressMeter_propertySet = ps_addSet YWidget_propertySet YMultiProgressMeter_properties"

definition YMultiProgressMeter_vtable :: vtable where
  "YMultiProgressMeter_vtable = plain_vtable YMultiProgressMeter_propertySet ''YMultiProgressMeter''"

definition YMultiProgressMeter_setProperty :: "string \<Rightarrow> YPropertyValue \<Rightarrow> members \<Rightarrow> (bool \<times> members) result" where
  "YMultiProgressMeter_setProperty name v w =
     bind_result (ps_check_type YMultiProgressMeter_propertySet name (pv_type v)) (\<lambda>_.
       if name = ''Values'' then return (False, w)
       else bind_result (YWidget_setProperty YMultiProgressMeter_vtable name v w) (\<lambda>(_, w'). return (True, w')))"

definition YMultiProgressMeter_getProperty :: "string \<Rightarrow> members \<Rightarrow> YPropertyValue result" where
  "YMultiProgressMeter_getProperty name w =
     bind_result (ps_check YMultiProgressMeter_propertySet name) (\<lambda>_.
       if name = ''Values'' then return (TypeValue YOtherProperty)
       else YWidget_getProperty YMultiProgressMeter_vtable name w)"

text \<open>\<^verbatim>\<open>YBarGraph.cc\<close>\<close>

definition YBarGraph_properties :: YPropertySet where
  "YBarGraph_properties =
     [new_YProperty ''Values'' YOtherProperty, new_YProperty ''Labels'' YOtherProperty]"

definition YBarGraph_propertySet :: YPropertySet where
  "YBarGraph_propertySet = ps_addSet YWidget_propertySet YBarGraph_properties"

definition YBarGraph_vtable :: vtable where
  "YBarGraph_vtable = plain_vtable YBarGraph_propertySet ''YBarGraph''"

definition YBarGraph_setProperty :: "string \<Rightarrow> YPropertyValue \<Rightarrow> members \<Rightarrow> (bool \<times> members) result" where
  "YBarGraph_setProperty name v w =
     bind_result (ps_check_type YBarGraph_propertySet name (pv_type v)) (\<lambda>_.
       if name = ''Values'' then return (False, w)
       else if name = ''Labels'' then return (False, w)
       else bind_result (YWidget_setProperty YBarGraph_vtable name v w) (\<lambda>(_, w'). return (True, w')))"

definition YBarGraph_getProperty :: "string \<Rightarrow> members \<Rightarrow> YPropertyValue result" where
  "YBarGraph_getProperty name w =
     bind_result (ps_check YBarGraph_propertySet name) (\<lambda>_.
       if name = ''Values'' then return (TypeValue YOtherProperty)
       else if name = ''Labels'' then return (TypeValue YOtherProperty)
       else YWidget_getProperty YBarGraph_vtable name w)"

text \<open>\<^verbatim>\<open>YWizard.cc\<close>\<close>

definition YWizard_properties :: YPropertySet where
  "YWizard_properties =
     [read_only ''CurrentItem'' YStringProperty]"

definition YWizard_propertySet :: YPropertySet where
  "YWizard_propertySet = ps_addSet YWidget_propertySet YWizard_properties"

definition YWizard_vtable :: vtable where
  "YWizard_vtable = plain_vtable YWizard_propertySet ''YWizard''"

definition YWizard_getProperty :: "string \<Rightarrow> members \<Rightarrow> YPropertyValue result" where
  "YWizard_getProperty name w =
     bind_result (ps_check YWizard_propertySet name) (\<lambda>_.
       if name = ''CurrentItem'' then return (TypeValue YOtherProperty)
       else YWidget_getProperty YWizard_vtable name w)"

section \<open>Every class keeps the promises\<close>

lemma checked_put:
  "vt_propertySet vt = ps \<Longrightarrow>
     bind_result (ps_check_type ps n (pv_type v)) (\<lambda>_. YWidget_setProperty vt n v w) = YWidget_setProperty vt n v w"
  by (cases "ps_check_type ps n (pv_type v)") (simp_all add: YWidget_setProperty_def)

lemma checked_query:
  "vt_propertySet vt = ps \<Longrightarrow>
     bind_result (ps_check ps n) (\<lambda>_. YWidget_getProperty vt n w) = YWidget_getProperty vt n w"
  by (cases "ps_check ps n") (simp_all add: YWidget_getProperty_def)

lemma put_returns_true:
  "bind_result (YWidget_setProperty vt n v w) (\<lambda>(_, w'). return (True, w')) = YWidget_setProperty vt n v w"
  by (cases "ps_check_type (vt_propertySet vt) n (pv_type v)"; cases v) (simp_all add: YWidget_setProperty_def)

lemma lookup_Some:
  "ps_lookup [] n = Some q \<longleftrightarrow> False"
  "ps_lookup (new_YProperty m ty # ps) n = Some q \<longleftrightarrow>
     n = m \<and> q = new_YProperty m ty \<or> n \<noteq> m \<and> ps_lookup ps n = Some q"
  "ps_lookup (read_only m ty # ps) n = Some q \<longleftrightarrow>
     n = m \<and> q = read_only m ty \<or> n \<noteq> m \<and> ps_lookup ps n = Some q"
  by (auto simp: new_YProperty_def read_only_def)

lemma lookup_None:
  "ps_lookup (new_YProperty m ty # ps) n = None \<longleftrightarrow> n \<noteq> m \<and> ps_lookup ps n = None"
  "ps_lookup (read_only m ty # ps) n = None \<longleftrightarrow> n \<noteq> m \<and> ps_lookup ps n = None"
  by (auto simp: new_YProperty_def read_only_def)

lemma property_fields [simp]:
  "pr_name (new_YProperty m ty) = m" "pr_name (read_only m ty) = m"
  "pr_type (new_YProperty m ty) = ty" "pr_isReadOnly (new_YProperty m ty) = False"
  "pr_type (read_only m ty) = ty" "pr_isReadOnly (read_only m ty) = True"
  by (simp_all add: new_YProperty_def read_only_def)

lemma check_Cons:
  "ps_check (new_YProperty m ty # ps) n = (if n = m then return () else ps_check ps n)"
  "ps_check (read_only m ty # ps) n = (if n = m then return () else ps_check ps n)"
  "ps_check_type (new_YProperty m ty # ps) n t =
     (if n = m then if ty = t \<or> ty = YOtherProperty then return () else throw (YUIPropertyTypeMismatchException n)
      else ps_check_type ps n t)"
  "ps_check_type (read_only m ty # ps) n t =
     (if n = m then throw (YUISetReadOnlyPropertyException n) else ps_check_type ps n t)"
  by (simp_all add: ps_check_lookup ps_check_type_lookup new_YProperty_def read_only_def)

declare ps_lookup_simps [simp del]

lemmas delegation = lookup_None checked_put checked_query put_returns_true
lemmas own_property = ps_addSet_append check_Cons bind_result_Inr_iff


interpretation frame_props: property_class YFrame_properties YFrame_vtable
  YFrame_setProperty YFrame_getProperty "[]" "[''HStretch'', ''VStretch'']"
  by unfold_locales
    ((simp add: YFrame_setProperty_def YFrame_getProperty_def YFrame_vtable_def YFrame_properties_def delegation; fail)
     | (simp add: YFrame_propertySet_def YFrame_vtable_def ps_addSet_append; fail)
     | (unfold YFrame_properties_def lookup_Some, elim disjE conjE FalseE;
        auto simp: YFrame_setProperty_def YFrame_getProperty_def YFrame_propertySet_def YFrame_properties_def own_property elim!: proper_cases content_cases))+

interpretation pushbutton_props: property_class YPushButton_properties YPushButton_vtable
  YPushButton_setProperty YPushButton_getProperty "[]" "[]"
  by unfold_locales
    ((simp add: YPushButton_setProperty_def YPushButton_getProperty_def YPushButton_vtable_def YPushButton_properties_def delegation; fail)
     | (simp add: YPushButton_propertySet_def YPushButton_vtable_def ps_addSet_append; fail)
     | (unfold YPushButton_properties_def lookup_Some, elim disjE conjE FalseE;
        auto simp: YPushButton_setProperty_def YPushButton_getProperty_def YPushButton_propertySet_def YPushButton_properties_def own_property elim!: proper_cases content_cases))+

interpretation checkbox_props: property_class YCheckBox_properties YCheckBox_vtable
  YCheckBox_setProperty YCheckBox_getProperty "[]" "[]"
  by unfold_locales
    ((simp add: YCheckBox_setProperty_def YCheckBox_getProperty_def YCheckBox_vtable_def YCheckBox_properties_def delegation; fail)
     | (simp add: YCheckBox_propertySet_def YCheckBox_vtable_def ps_addSet_append; fail)
     | (unfold YCheckBox_properties_def lookup_Some, elim disjE conjE FalseE;
        auto simp: YCheckBox_setProperty_def YCheckBox_getProperty_def YCheckBox_propertySet_def YCheckBox_properties_def own_property elim!: proper_cases content_cases))+

interpretation checkboxframe_props: property_class YCheckBoxFrame_properties YCheckBoxFrame_vtable
  "YCheckBoxFrame_setProperty tk" YCheckBoxFrame_getProperty "[]" "[''Value'', ''HStretch'', ''VStretch'']"
  for tk
  by unfold_locales
    ((simp add: YCheckBoxFrame_setProperty_def YCheckBoxFrame_getProperty_def YCheckBoxFrame_vtable_def YCheckBoxFrame_properties_def delegation; fail)
     | (simp add: YCheckBoxFrame_propertySet_def YCheckBoxFrame_vtable_def ps_addSet_append; fail)
     | (unfold YCheckBoxFrame_properties_def lookup_Some, elim disjE conjE FalseE;
        auto simp: YCheckBoxFrame_setProperty_def YCheckBoxFrame_getProperty_def YCheckBoxFrame_propertySet_def YCheckBoxFrame_properties_def own_property elim!: proper_cases content_cases))+

interpretation radiobutton_props: property_class YRadioButton_properties YRadioButton_vtable
  "YRadioButton_setProperty tk" YRadioButton_getProperty "[]" "[''Value'']"
  for tk
  by unfold_locales
    ((simp add: YRadioButton_setProperty_def YRadioButton_getProperty_def YRadioButton_vtable_def YRadioButton_properties_def delegation; fail)
     | (simp add: YRadioButton_propertySet_def YRadioButton_vtable_def ps_addSet_append; fail)
     | (unfold YRadioButton_properties_def lookup_Some, elim disjE conjE FalseE;
        auto simp: YRadioButton_setProperty_def YRadioButton_getProperty_def YRadioButton_propertySet_def YRadioButton_properties_def own_property elim!: proper_cases content_cases))+

interpretation radiobuttongroup_props: property_class YRadioButtonGroup_properties YRadioButtonGroup_vtable
  YRadioButtonGroup_setProperty YRadioButtonGroup_getProperty "[]" "[''HStretch'', ''VStretch'']"
  by unfold_locales
    ((simp add: YRadioButtonGroup_setProperty_def YRadioButtonGroup_getProperty_def YRadioButtonGroup_vtable_def YRadioButtonGroup_properties_def delegation; fail)
     | (simp add: YRadioButtonGroup_propertySet_def YRadioButtonGroup_vtable_def ps_addSet_append; fail)
     | (unfold YRadioButtonGroup_properties_def lookup_Some, elim disjE conjE FalseE;
        auto simp: YRadioButtonGroup_setProperty_def YRadioButtonGroup_getProperty_def YRadioButtonGroup_propertySet_def YRadioButtonGroup_properties_def own_property elim!: proper_cases content_cases))+

interpretation combobox_props: property_class YComboBox_properties YComboBox_vtable
  YComboBox_setProperty YComboBox_getProperty "[]" "[]"
  by unfold_locales
    ((simp add: YComboBox_setProperty_def YComboBox_getProperty_def YComboBox_vtable_def YComboBox_properties_def delegation; fail)
     | (simp add: YComboBox_propertySet_def YComboBox_vtable_def ps_addSet_append; fail)
     | (unfold YComboBox_properties_def lookup_Some, elim disjE conjE FalseE;
        auto simp: YComboBox_setProperty_def YComboBox_getProperty_def YComboBox_propertySet_def YComboBox_properties_def own_property elim!: proper_cases content_cases))+

interpretation contextmenu_props: property_class YContextMenu_properties YContextMenu_vtable
  YContextMenu_setProperty YContextMenu_getProperty "[]" "[]"
  by unfold_locales
    ((simp add: YContextMenu_setProperty_def YContextMenu_getProperty_def YContextMenu_vtable_def YContextMenu_properties_def delegation; fail)
     | (simp add: YContextMenu_propertySet_def YContextMenu_vtable_def ps_addSet_append; fail)
     | (unfold YContextMenu_properties_def lookup_Some, elim disjE conjE FalseE;
        auto simp: YContextMenu_setProperty_def YContextMenu_getProperty_def YContextMenu_propertySet_def YContextMenu_properties_def own_property elim!: proper_cases content_cases))+

interpretation menubutton_props: property_class YMenuButton_properties YMenuButton_vtable
  YMenuButton_setProperty YMenuButton_getProperty "[]" "[]"
  by unfold_locales
    ((simp add: YMenuButton_setProperty_def YMenuButton_getProperty_def YMenuButton_vtable_def YMenuButton_properties_def delegation; fail)
     | (simp add: YMenuButton_propertySet_def YMenuButton_vtable_def ps_addSet_append; fail)
     | (unfold YMenuButton_properties_def lookup_Some, elim disjE conjE FalseE;
        auto simp: YMenuButton_setProperty_def YMenuButton_getProperty_def YMenuButton_propertySet_def YMenuButton_properties_def own_property elim!: proper_cases content_cases))+

interpretation menubar_props: property_class YMenuBar_properties YMenuBar_vtable
  YMenuBar_setProperty YMenuBar_getProperty "[]" "[]"
  by unfold_locales
    ((simp add: YMenuBar_setProperty_def YMenuBar_getProperty_def YMenuBar_vtable_def YMenuBar_properties_def delegation; fail)
     | (simp add: YMenuBar_propertySet_def YMenuBar_vtable_def ps_addSet_append; fail)
     | (unfold YMenuBar_properties_def lookup_Some, elim disjE conjE FalseE;
        auto simp: YMenuBar_setProperty_def YMenuBar_getProperty_def YMenuBar_propertySet_def YMenuBar_properties_def own_property elim!: proper_cases content_cases))+

interpretation selectionbox_props: property_class YSelectionBox_properties YSelectionBox_vtable
  YSelectionBox_setProperty YSelectionBox_getProperty "[]" "[]"
  by unfold_locales
    ((simp add: YSelectionBox_setProperty_def YSelectionBox_getProperty_def YSelectionBox_vtable_def YSelectionBox_properties_def delegation; fail)
     | (simp add: YSelectionBox_propertySet_def YSelectionBox_vtable_def ps_addSet_append; fail)
     | (unfold YSelectionBox_properties_def lookup_Some, elim disjE conjE FalseE;
        auto simp: YSelectionBox_setProperty_def YSelectionBox_getProperty_def YSelectionBox_propertySet_def YSelectionBox_properties_def own_property elim!: proper_cases content_cases))+

interpretation multiselectionbox_props: property_class YMultiSelectionBox_properties YMultiSelectionBox_vtable
  YMultiSelectionBox_setProperty YMultiSelectionBox_getProperty "[''IconPath'']" "[]"
  by unfold_locales
    ((simp add: YMultiSelectionBox_setProperty_def YMultiSelectionBox_getProperty_def YMultiSelectionBox_vtable_def YMultiSelectionBox_properties_def delegation; fail)
     | (simp add: YMultiSelectionBox_propertySet_def YMultiSelectionBox_vtable_def ps_addSet_append; fail)
     | (unfold YMultiSelectionBox_properties_def lookup_Some, elim disjE conjE FalseE;
        auto simp: YMultiSelectionBox_setProperty_def YMultiSelectionBox_getProperty_def YMultiSelectionBox_propertySet_def YMultiSelectionBox_properties_def own_property elim!: proper_cases content_cases))+

interpretation tree_props: property_class YTree_properties YTree_vtable
  YTree_setProperty YTree_getProperty "[]" "[]"
  by unfold_locales
    ((simp add: YTree_setProperty_def YTree_getProperty_def YTree_vtable_def YTree_properties_def delegation; fail)
     | (simp add: YTree_propertySet_def YTree_vtable_def ps_addSet_append; fail)
     | (unfold YTree_properties_def lookup_Some, elim disjE conjE FalseE;
        auto simp: YTree_setProperty_def YTree_getProperty_def YTree_propertySet_def YTree_properties_def own_property elim!: proper_cases content_cases))+

interpretation table_props: property_class YTable_properties YTable_vtable
  YTable_setProperty YTable_getProperty "[]" "[]"
  by unfold_locales
    ((simp add: YTable_setProperty_def YTable_getProperty_def YTable_vtable_def YTable_properties_def delegation; fail)
     | (simp add: YTable_propertySet_def YTable_vtable_def ps_addSet_append; fail)
     | (unfold YTable_properties_def lookup_Some, elim disjE conjE FalseE;
        auto simp: YTable_setProperty_def YTable_getProperty_def YTable_propertySet_def YTable_properties_def own_property elim!: proper_cases content_cases))+

interpretation itemselector_props: property_class YItemSelector_properties YItemSelector_vtable
  YItemSelector_setProperty YItemSelector_getProperty "[]" "[''VisibleItems'']"
  by unfold_locales
    ((simp add: YItemSelector_setProperty_def YItemSelector_getProperty_def YItemSelector_vtable_def YItemSelector_properties_def delegation; fail)
     | (simp add: YItemSelector_propertySet_def YItemSelector_vtable_def ps_addSet_append; fail)
     | (unfold YItemSelector_properties_def lookup_Some, elim disjE conjE FalseE;
        auto simp: YItemSelector_setProperty_def YItemSelector_getProperty_def YItemSelector_propertySet_def YItemSelector_properties_def own_property elim!: proper_cases content_cases))+

interpretation dumbtab_props: property_class YDumbTab_properties YDumbTab_vtable
  YDumbTab_setProperty YDumbTab_getProperty "[]" "[''HStretch'', ''VStretch'']"
  by unfold_locales
    ((simp add: YDumbTab_setProperty_def YDumbTab_getProperty_def YDumbTab_vtable_def YDumbTab_properties_def delegation; fail)
     | (simp add: YDumbTab_propertySet_def YDumbTab_vtable_def ps_addSet_append; fail)
     | (unfold YDumbTab_properties_def lookup_Some, elim disjE conjE FalseE;
        auto simp: YDumbTab_setProperty_def YDumbTab_getProperty_def YDumbTab_propertySet_def YDumbTab_properties_def own_property elim!: proper_cases content_cases))+

interpretation label_props: property_class YLabel_properties YLabel_vtable
  YLabel_setProperty YLabel_getProperty "[]" "[]"
  by unfold_locales
    ((simp add: YLabel_setProperty_def YLabel_getProperty_def YLabel_vtable_def YLabel_properties_def delegation; fail)
     | (simp add: YLabel_propertySet_def YLabel_vtable_def ps_addSet_append; fail)
     | (unfold YLabel_properties_def lookup_Some, elim disjE conjE FalseE;
        auto simp: YLabel_setProperty_def YLabel_getProperty_def YLabel_propertySet_def YLabel_properties_def own_property elim!: proper_cases content_cases))+

interpretation richtext_props: property_class YRichText_properties YRichText_vtable
  YRichText_setProperty YRichText_getProperty "[]" "[''VScrollValue'', ''HScrollValue'']"
  by unfold_locales
    ((simp add: YRichText_setProperty_def YRichText_getProperty_def YRichText_vtable_def YRichText_properties_def delegation; fail)
     | (simp add: YRichText_propertySet_def YRichText_vtable_def ps_addSet_append; fail)
     | (unfold YRichText_properties_def lookup_Some, elim disjE conjE FalseE;
        auto simp: YRichText_setProperty_def YRichText_getProperty_def YRichText_propertySet_def YRichText_properties_def own_property elim!: proper_cases content_cases))+

interpretation inputfield_props: property_class YInputField_properties YInputField_vtable
  "YInputField_setProperty tk" YInputField_getProperty "[]" "[''Value'']"
  for tk
  by unfold_locales
    ((simp add: YInputField_setProperty_def YInputField_getProperty_def YInputField_vtable_def YInputField_properties_def delegation; fail)
     | (simp add: YInputField_propertySet_def YInputField_vtable_def ps_addSet_append; fail)
     | (unfold YInputField_properties_def lookup_Some, elim disjE conjE FalseE;
        auto simp: YInputField_setProperty_def YInputField_getProperty_def YInputField_propertySet_def YInputField_properties_def own_property elim!: proper_cases content_cases))+

interpretation simpleinputfield_props: property_class YSimpleInputField_properties YSimpleInputField_vtable
  "YSimpleInputField_setProperty tk" YSimpleInputField_getProperty "[]" "[''Value'']"
  for tk
  by unfold_locales
    ((simp add: YSimpleInputField_setProperty_def YSimpleInputField_getProperty_def YSimpleInputField_vtable_def YSimpleInputField_properties_def delegation; fail)
     | (simp add: YSimpleInputField_propertySet_def YSimpleInputField_vtable_def ps_addSet_append; fail)
     | (unfold YSimpleInputField_properties_def lookup_Some, elim disjE conjE FalseE;
        auto simp: YSimpleInputField_setProperty_def YSimpleInputField_getProperty_def YSimpleInputField_propertySet_def YSimpleInputField_properties_def own_property elim!: proper_cases content_cases))+

interpretation multilineedit_props: property_class YMultiLineEdit_properties YMultiLineEdit_vtable
  "YMultiLineEdit_setProperty tk" YMultiLineEdit_getProperty "[]" "[''Value'']"
  for tk
  by unfold_locales
    ((simp add: YMultiLineEdit_setProperty_def YMultiLineEdit_getProperty_def YMultiLineEdit_vtable_def YMultiLineEdit_properties_def delegation; fail)
     | (simp add: YMultiLineEdit_propertySet_def YMultiLineEdit_vtable_def ps_addSet_append; fail)
     | (unfold YMultiLineEdit_properties_def lookup_Some, elim disjE conjE FalseE;
        auto simp: YMultiLineEdit_setProperty_def YMultiLineEdit_getProperty_def YMultiLineEdit_propertySet_def YMultiLineEdit_properties_def own_property elim!: proper_cases content_cases))+

interpretation intfield_props: property_class YIntField_properties YIntField_vtable
  "YIntField_setProperty tk" YIntField_getProperty "[]" "[''Value'']"
  for tk
  by unfold_locales
    ((simp add: YIntField_setProperty_def YIntField_getProperty_def YIntField_vtable_def YIntField_properties_def delegation; fail)
     | (simp add: YIntField_propertySet_def YIntField_vtable_def ps_addSet_append; fail)
     | (unfold YIntField_properties_def lookup_Some, elim disjE conjE FalseE;
        auto simp: YIntField_setProperty_def YIntField_getProperty_def YIntField_propertySet_def YIntField_properties_def own_property setMinValue_def setMaxValue_def IntField_setValue_def Let_def elim!: proper_cases content_cases))+

interpretation progressbar_props: property_class YProgressBar_properties YProgressBar_vtable
  YProgressBar_setProperty YProgressBar_getProperty "[]" "[''Value'']"
  by unfold_locales
    ((simp add: YProgressBar_setProperty_def YProgressBar_getProperty_def YProgressBar_vtable_def YProgressBar_properties_def delegation; fail)
     | (simp add: YProgressBar_propertySet_def YProgressBar_vtable_def ps_addSet_append; fail)
     | (unfold YProgressBar_properties_def lookup_Some, elim disjE conjE FalseE;
        auto simp: YProgressBar_setProperty_def YProgressBar_getProperty_def YProgressBar_propertySet_def YProgressBar_properties_def own_property elim!: proper_cases content_cases))+

interpretation busyindicator_props: property_class YBusyIndicator_properties YBusyIndicator_vtable
  YBusyIndicator_setProperty YBusyIndicator_getProperty "[]" "[''Timeout'', ''Alive'']"
  by unfold_locales
    ((simp add: YBusyIndicator_setProperty_def YBusyIndicator_getProperty_def YBusyIndicator_vtable_def YBusyIndicator_properties_def delegation; fail)
     | (simp add: YBusyIndicator_propertySet_def YBusyIndicator_vtable_def ps_addSet_append; fail)
     | (unfold YBusyIndicator_properties_def lookup_Some, elim disjE conjE FalseE;
        auto simp: YBusyIndicator_setProperty_def YBusyIndicator_getProperty_def YBusyIndicator_propertySet_def YBusyIndicator_properties_def own_property elim!: proper_cases content_cases))+

interpretation downloadprogress_props: property_class YDownloadProgress_properties YDownloadProgress_vtable
  YDownloadProgress_setProperty "YDownloadProgress_getProperty tk" "[]" "[]"
  for tk
  by unfold_locales
    ((simp add: YDownloadProgress_setProperty_def YDownloadProgress_getProperty_def YDownloadProgress_vtable_def YDownloadProgress_properties_def delegation; fail)
     | (simp add: YDownloadProgress_propertySet_def YDownloadProgress_vtable_def ps_addSet_append; fail)
     | (unfold YDownloadProgress_properties_def lookup_Some, elim disjE conjE FalseE;
        auto simp: YDownloadProgress_setProperty_def YDownloadProgress_getProperty_def YDownloadProgress_propertySet_def YDownloadProgress_properties_def own_property YWidget_setProperty_def YDownloadProgress_vtable_def elim!: proper_cases content_cases))+

interpretation logview_props: property_class YLogView_properties YLogView_vtable
  YLogView_setProperty YLogView_getProperty "[''MaxLines'']" "[''Value'', ''LastLine'']"
  by unfold_locales
    ((simp add: YLogView_setProperty_def YLogView_getProperty_def YLogView_vtable_def YLogView_properties_def delegation; fail)
     | (simp add: YLogView_propertySet_def YLogView_vtable_def ps_addSet_append; fail)
     | (unfold YLogView_properties_def lookup_Some, elim disjE conjE FalseE;
        auto simp: YLogView_setProperty_def YLogView_getProperty_def YLogView_propertySet_def YLogView_properties_def own_property setVisibleLines_def elim!: proper_cases content_cases))+

interpretation graph_props: property_class YGraph_properties YGraph_vtable
  YGraph_setProperty YGraph_getProperty "[]" "[]"
  by unfold_locales
    ((simp add: YGraph_setProperty_def YGraph_getProperty_def YGraph_vtable_def YGraph_properties_def delegation; fail)
     | (simp add: YGraph_propertySet_def YGraph_vtable_def ps_addSet_append; fail)
     | (unfold YGraph_properties_def lookup_Some, elim disjE conjE FalseE;
        auto simp: YGraph_setProperty_def YGraph_getProperty_def YGraph_propertySet_def YGraph_properties_def own_property elim!: proper_cases content_cases))+

interpretation timezoneselector_props: property_class YTimezoneSelector_properties YTimezoneSelector_vtable
  "YTimezoneSelector_setProperty tk" YTimezoneSelector_getProperty "[]" "[''Value'', ''CurrentItem'']"
  for tk
  by unfold_locales
    ((simp add: YTimezoneSelector_setProperty_def YTimezoneSelector_getProperty_def YTimezoneSelector_vtable_def YTimezoneSelector_properties_def delegation; fail)
     | (simp add: YTimezoneSelector_propertySet_def YTimezoneSelector_vtable_def ps_addSet_append; fail)
     | (unfold YTimezoneSelector_properties_def lookup_Some, elim disjE conjE FalseE;
        auto simp: YTimezoneSelector_setProperty_def YTimezoneSelector_getProperty_def YTimezoneSelector_propertySet_def YTimezoneSelector_properties_def own_property elim!: proper_cases content_cases))+

interpretation partitionsplitter_props: property_class YPartitionSplitter_properties YPartitionSplitter_vtable
  "YPartitionSplitter_setProperty tk" YPartitionSplitter_getProperty "[''Value'']" "[]"
  for tk
  by unfold_locales
    ((simp add: YPartitionSplitter_setProperty_def YPartitionSplitter_getProperty_def YPartitionSplitter_vtable_def YPartitionSplitter_properties_def delegation; fail)
     | (simp add: YPartitionSplitter_propertySet_def YPartitionSplitter_vtable_def ps_addSet_append; fail)
     | (unfold YPartitionSplitter_properties_def lookup_Some, elim disjE conjE FalseE;
        auto simp: YPartitionSplitter_setProperty_def YPartitionSplitter_getProperty_def YPartitionSplitter_propertySet_def YPartitionSplitter_properties_def own_property elim!: proper_cases content_cases))+

interpretation multiprogressmeter_props: property_class YMultiProgressMeter_properties YMultiProgressMeter_vtable
  YMultiProgressMeter_setProperty YMultiProgressMeter_getProperty "[]" "[]"
  by unfold_locales
    ((simp add: YMultiProgressMeter_setProperty_def YMultiProgressMeter_getProperty_def YMultiProgressMeter_vtable_def YMultiProgressMeter_properties_def delegation; fail)
     | (simp add: YMultiProgressMeter_propertySet_def YMultiProgressMeter_vtable_def ps_addSet_append; fail)
     | (unfold YMultiProgressMeter_properties_def lookup_Some, elim disjE conjE FalseE;
        auto simp: YMultiProgressMeter_setProperty_def YMultiProgressMeter_getProperty_def YMultiProgressMeter_propertySet_def YMultiProgressMeter_properties_def own_property elim!: proper_cases content_cases))+

interpretation bargraph_props: property_class YBarGraph_properties YBarGraph_vtable
  YBarGraph_setProperty YBarGraph_getProperty "[]" "[]"
  by unfold_locales
    ((simp add: YBarGraph_setProperty_def YBarGraph_getProperty_def YBarGraph_vtable_def YBarGraph_properties_def delegation; fail)
     | (simp add: YBarGraph_propertySet_def YBarGraph_vtable_def ps_addSet_append; fail)
     | (unfold YBarGraph_properties_def lookup_Some, elim disjE conjE FalseE;
        auto simp: YBarGraph_setProperty_def YBarGraph_getProperty_def YBarGraph_propertySet_def YBarGraph_properties_def own_property elim!: proper_cases content_cases))+

interpretation wizard_props: property_class YWizard_properties YWizard_vtable
  "YWidget_setProperty YWizard_vtable" YWizard_getProperty "[''CurrentItem'']" "[]"
  by unfold_locales
    ((simp add: YWidget_setProperty_def YWizard_getProperty_def YWizard_vtable_def YWizard_properties_def delegation; fail)
     | (simp add: YWizard_propertySet_def YWizard_vtable_def ps_addSet_append; fail)
     | (unfold YWizard_properties_def lookup_Some, elim disjE conjE FalseE;
        auto simp: YWidget_setProperty_def YWizard_getProperty_def YWizard_propertySet_def YWizard_properties_def own_property elim!: proper_cases content_cases))+

section \<open>Virtual calls\<close>

datatype widget_type =
    Is_YWidget | Is_YFrame | Is_YPushButton | Is_YCheckBox | Is_YCheckBoxFrame | Is_YRadioButton
    | Is_YRadioButtonGroup | Is_YComboBox | Is_YContextMenu | Is_YMenuButton | Is_YMenuBar | Is_YSelectionBox
    | Is_YMultiSelectionBox | Is_YTree | Is_YTable | Is_YItemSelector | Is_YDumbTab | Is_YLabel | Is_YRichText
    | Is_YInputField | Is_YSimpleInputField | Is_YMultiLineEdit | Is_YIntField | Is_YProgressBar
    | Is_YBusyIndicator | Is_YDownloadProgress | Is_YLogView | Is_YGraph | Is_YTimezoneSelector | Is_YPartitionSplitter
    | Is_YMultiProgressMeter | Is_YBarGraph | Is_YWizard

fun propertySet :: "widget_type \<Rightarrow> YPropertySet" where
  "propertySet Is_YWidget = YWidget_propertySet"
| "propertySet Is_YFrame = YFrame_propertySet"
| "propertySet Is_YPushButton = YPushButton_propertySet"
| "propertySet Is_YCheckBox = YCheckBox_propertySet"
| "propertySet Is_YCheckBoxFrame = YCheckBoxFrame_propertySet"
| "propertySet Is_YRadioButton = YRadioButton_propertySet"
| "propertySet Is_YRadioButtonGroup = YRadioButtonGroup_propertySet"
| "propertySet Is_YComboBox = YComboBox_propertySet"
| "propertySet Is_YContextMenu = YContextMenu_propertySet"
| "propertySet Is_YMenuButton = YMenuButton_propertySet"
| "propertySet Is_YMenuBar = YMenuBar_propertySet"
| "propertySet Is_YSelectionBox = YSelectionBox_propertySet"
| "propertySet Is_YMultiSelectionBox = YMultiSelectionBox_propertySet"
| "propertySet Is_YTree = YTree_propertySet"
| "propertySet Is_YTable = YTable_propertySet"
| "propertySet Is_YItemSelector = YItemSelector_propertySet"
| "propertySet Is_YDumbTab = YDumbTab_propertySet"
| "propertySet Is_YLabel = YLabel_propertySet"
| "propertySet Is_YRichText = YRichText_propertySet"
| "propertySet Is_YInputField = YInputField_propertySet"
| "propertySet Is_YSimpleInputField = YSimpleInputField_propertySet"
| "propertySet Is_YMultiLineEdit = YMultiLineEdit_propertySet"
| "propertySet Is_YIntField = YIntField_propertySet"
| "propertySet Is_YProgressBar = YProgressBar_propertySet"
| "propertySet Is_YBusyIndicator = YBusyIndicator_propertySet"
| "propertySet Is_YDownloadProgress = YDownloadProgress_propertySet"
| "propertySet Is_YLogView = YLogView_propertySet"
| "propertySet Is_YGraph = YGraph_propertySet"
| "propertySet Is_YTimezoneSelector = YTimezoneSelector_propertySet"
| "propertySet Is_YPartitionSplitter = YPartitionSplitter_propertySet"
| "propertySet Is_YMultiProgressMeter = YMultiProgressMeter_propertySet"
| "propertySet Is_YBarGraph = YBarGraph_propertySet"
| "propertySet Is_YWizard = YWizard_propertySet"

fun setProperty :: "toolkit \<Rightarrow> widget_type \<Rightarrow> string \<Rightarrow> YPropertyValue \<Rightarrow> members \<Rightarrow> (bool \<times> members) result" where
  "setProperty tk Is_YWidget = YWidget_setProperty YWidget_vtable"
| "setProperty tk Is_YFrame = YFrame_setProperty"
| "setProperty tk Is_YPushButton = YPushButton_setProperty"
| "setProperty tk Is_YCheckBox = YCheckBox_setProperty"
| "setProperty tk Is_YCheckBoxFrame = YCheckBoxFrame_setProperty tk"
| "setProperty tk Is_YRadioButton = YRadioButton_setProperty tk"
| "setProperty tk Is_YRadioButtonGroup = YRadioButtonGroup_setProperty"
| "setProperty tk Is_YComboBox = YComboBox_setProperty"
| "setProperty tk Is_YContextMenu = YContextMenu_setProperty"
| "setProperty tk Is_YMenuButton = YMenuButton_setProperty"
| "setProperty tk Is_YMenuBar = YMenuBar_setProperty"
| "setProperty tk Is_YSelectionBox = YSelectionBox_setProperty"
| "setProperty tk Is_YMultiSelectionBox = YMultiSelectionBox_setProperty"
| "setProperty tk Is_YTree = YTree_setProperty"
| "setProperty tk Is_YTable = YTable_setProperty"
| "setProperty tk Is_YItemSelector = YItemSelector_setProperty"
| "setProperty tk Is_YDumbTab = YDumbTab_setProperty"
| "setProperty tk Is_YLabel = YLabel_setProperty"
| "setProperty tk Is_YRichText = YRichText_setProperty"
| "setProperty tk Is_YInputField = YInputField_setProperty tk"
| "setProperty tk Is_YSimpleInputField = YSimpleInputField_setProperty tk"
| "setProperty tk Is_YMultiLineEdit = YMultiLineEdit_setProperty tk"
| "setProperty tk Is_YIntField = YIntField_setProperty tk"
| "setProperty tk Is_YProgressBar = YProgressBar_setProperty"
| "setProperty tk Is_YBusyIndicator = YBusyIndicator_setProperty"
| "setProperty tk Is_YDownloadProgress = YDownloadProgress_setProperty"
| "setProperty tk Is_YLogView = YLogView_setProperty"
| "setProperty tk Is_YGraph = YGraph_setProperty"
| "setProperty tk Is_YTimezoneSelector = YTimezoneSelector_setProperty tk"
| "setProperty tk Is_YPartitionSplitter = YPartitionSplitter_setProperty tk"
| "setProperty tk Is_YMultiProgressMeter = YMultiProgressMeter_setProperty"
| "setProperty tk Is_YBarGraph = YBarGraph_setProperty"
| "setProperty tk Is_YWizard = YWidget_setProperty YWizard_vtable"

fun getProperty :: "toolkit \<Rightarrow> widget_type \<Rightarrow> string \<Rightarrow> members \<Rightarrow> YPropertyValue result" where
  "getProperty tk Is_YWidget = YWidget_getProperty YWidget_vtable"
| "getProperty tk Is_YFrame = YFrame_getProperty"
| "getProperty tk Is_YPushButton = YPushButton_getProperty"
| "getProperty tk Is_YCheckBox = YCheckBox_getProperty"
| "getProperty tk Is_YCheckBoxFrame = YCheckBoxFrame_getProperty"
| "getProperty tk Is_YRadioButton = YRadioButton_getProperty"
| "getProperty tk Is_YRadioButtonGroup = YRadioButtonGroup_getProperty"
| "getProperty tk Is_YComboBox = YComboBox_getProperty"
| "getProperty tk Is_YContextMenu = YContextMenu_getProperty"
| "getProperty tk Is_YMenuButton = YMenuButton_getProperty"
| "getProperty tk Is_YMenuBar = YMenuBar_getProperty"
| "getProperty tk Is_YSelectionBox = YSelectionBox_getProperty"
| "getProperty tk Is_YMultiSelectionBox = YMultiSelectionBox_getProperty"
| "getProperty tk Is_YTree = YTree_getProperty"
| "getProperty tk Is_YTable = YTable_getProperty"
| "getProperty tk Is_YItemSelector = YItemSelector_getProperty"
| "getProperty tk Is_YDumbTab = YDumbTab_getProperty"
| "getProperty tk Is_YLabel = YLabel_getProperty"
| "getProperty tk Is_YRichText = YRichText_getProperty"
| "getProperty tk Is_YInputField = YInputField_getProperty"
| "getProperty tk Is_YSimpleInputField = YSimpleInputField_getProperty"
| "getProperty tk Is_YMultiLineEdit = YMultiLineEdit_getProperty"
| "getProperty tk Is_YIntField = YIntField_getProperty"
| "getProperty tk Is_YProgressBar = YProgressBar_getProperty"
| "getProperty tk Is_YBusyIndicator = YBusyIndicator_getProperty"
| "getProperty tk Is_YDownloadProgress = YDownloadProgress_getProperty tk"
| "getProperty tk Is_YLogView = YLogView_getProperty"
| "getProperty tk Is_YGraph = YGraph_getProperty"
| "getProperty tk Is_YTimezoneSelector = YTimezoneSelector_getProperty"
| "getProperty tk Is_YPartitionSplitter = YPartitionSplitter_getProperty"
| "getProperty tk Is_YMultiProgressMeter = YMultiProgressMeter_getProperty"
| "getProperty tk Is_YBarGraph = YBarGraph_getProperty"
| "getProperty tk Is_YWizard = YWizard_getProperty"

text \<open>
  The properties whose value has another type than declared or cannot be set safely, and those that
  a widget or its toolkit may change when they are set.
\<close>

fun untyped :: "widget_type \<Rightarrow> string list" where
  "untyped Is_YMultiSelectionBox = [''IconPath'']"
| "untyped Is_YLogView = [''MaxLines'']"
| "untyped Is_YPartitionSplitter = [''Value'']"
| "untyped Is_YWizard = [''CurrentItem'']"
| "untyped _ = []"

fun adjusted :: "widget_type \<Rightarrow> string list" where
  "adjusted Is_YFrame = [''HStretch'', ''VStretch'']"
| "adjusted Is_YCheckBoxFrame = [''Value'', ''HStretch'', ''VStretch'']"
| "adjusted Is_YRadioButton = [''Value'']"
| "adjusted Is_YRadioButtonGroup = [''HStretch'', ''VStretch'']"
| "adjusted Is_YItemSelector = [''VisibleItems'']"
| "adjusted Is_YDumbTab = [''HStretch'', ''VStretch'']"
| "adjusted Is_YRichText = [''VScrollValue'', ''HScrollValue'']"
| "adjusted Is_YInputField = [''Value'']"
| "adjusted Is_YSimpleInputField = [''Value'']"
| "adjusted Is_YMultiLineEdit = [''Value'']"
| "adjusted Is_YIntField = [''Value'']"
| "adjusted Is_YProgressBar = [''Value'']"
| "adjusted Is_YBusyIndicator = [''Timeout'', ''Alive'']"
| "adjusted Is_YLogView = [''Value'', ''LastLine'']"
| "adjusted Is_YTimezoneSelector = [''Value'', ''CurrentItem'']"
| "adjusted _ = []"

lemmas property_owners =
  plain_props.property_owner_axioms[simplified] frame_props.property_owner_axioms
  pushbutton_props.property_owner_axioms checkbox_props.property_owner_axioms
  checkboxframe_props.property_owner_axioms radiobutton_props.property_owner_axioms
  radiobuttongroup_props.property_owner_axioms combobox_props.property_owner_axioms
  contextmenu_props.property_owner_axioms menubutton_props.property_owner_axioms
  menubar_props.property_owner_axioms selectionbox_props.property_owner_axioms
  multiselectionbox_props.property_owner_axioms tree_props.property_owner_axioms
  table_props.property_owner_axioms itemselector_props.property_owner_axioms
  dumbtab_props.property_owner_axioms label_props.property_owner_axioms
  richtext_props.property_owner_axioms inputfield_props.property_owner_axioms
  simpleinputfield_props.property_owner_axioms multilineedit_props.property_owner_axioms
  intfield_props.property_owner_axioms progressbar_props.property_owner_axioms
  busyindicator_props.property_owner_axioms downloadprogress_props.property_owner_axioms
  logview_props.property_owner_axioms graph_props.property_owner_axioms
  timezoneselector_props.property_owner_axioms partitionsplitter_props.property_owner_axioms
  multiprogressmeter_props.property_owner_axioms bargraph_props.property_owner_axioms
  wizard_props.property_owner_axioms

lemmas property_sets =
  YFrame_propertySet_def YPushButton_propertySet_def YCheckBox_propertySet_def
  YCheckBoxFrame_propertySet_def YRadioButton_propertySet_def YRadioButtonGroup_propertySet_def
  YComboBox_propertySet_def YContextMenu_propertySet_def YMenuButton_propertySet_def
  YMenuBar_propertySet_def YSelectionBox_propertySet_def YMultiSelectionBox_propertySet_def
  YTree_propertySet_def YTable_propertySet_def YItemSelector_propertySet_def
  YDumbTab_propertySet_def YLabel_propertySet_def YRichText_propertySet_def
  YInputField_propertySet_def YSimpleInputField_propertySet_def YMultiLineEdit_propertySet_def
  YIntField_propertySet_def YProgressBar_propertySet_def YBusyIndicator_propertySet_def
  YDownloadProgress_propertySet_def YLogView_propertySet_def YGraph_propertySet_def
  YTimezoneSelector_propertySet_def YPartitionSplitter_propertySet_def
  YMultiProgressMeter_propertySet_def YBarGraph_propertySet_def YWizard_propertySet_def

lemma every_type_owner:
  "property_owner (propertySet t) (setProperty tk t) (getProperty tk t) (untyped t) (''Enabled'' # adjusted t)"
  by (cases t) (simp_all add: property_owners property_sets ps_addSet_append)

interpretation virtual: property_owner "propertySet t" "setProperty tk t" "getProperty tk t" "untyped t" "''Enabled'' # adjusted t" for tk t
  by (rule every_type_owner)

section \<open>The range of an integer field\<close>

definition in_range :: "members \<Rightarrow> bool" where
  "in_range w \<longleftrightarrow> p_minValue w \<le> p_maxValue w \<longrightarrow> p_minValue w \<le> p_number w \<and> p_number w \<le> p_maxValue w"

lemma enforceRange_in_range:
  "p_minValue w \<le> p_maxValue w \<Longrightarrow> p_minValue w \<le> enforceRange w i \<and> enforceRange w i \<le> p_maxValue w"
  by (simp add: enforceRange_def Let_def)

lemma YWidget_setProperty_range:
  assumes "YWidget_setProperty vt n v w = Inr (b, w')"
  shows "p_minValue w' = p_minValue w \<and> p_maxValue w' = p_maxValue w \<and> p_number w' = p_number w"
proof -
  have "ps_check_type (vt_propertySet vt) n (pv_type v) = Inr ()"
    using assms by (cases "ps_check_type (vt_propertySet vt) n (pv_type v)") (simp_all add: YWidget_setProperty_def)
  then show ?thesis
    using assms
    by (auto simp: YWidget_setProperty_def virtual_setEnabled_def setEnabled_def setWeight_def setStretchable_def bind_result_Inr_iff
        Let_def split_beta split: if_splits)
qed

lemma setMinValue_in_range:
  assumes "\<And>w x. tk_number tk w x = x"
  shows "in_range (IntField_setValue tk i w)" "in_range (setMinValue tk i w)" "in_range (setMaxValue tk i w)"
  using enforceRange_in_range[of w] enforceRange_in_range[of "w\<lparr>p_minValue := i\<rparr>"] enforceRange_in_range[of "w\<lparr>p_maxValue := i\<rparr>"]
  by (auto simp: in_range_def IntField_setValue_def setMinValue_def setMaxValue_def Let_def assms) (metis)+

definition sample_toolkit :: toolkit where
  "sample_toolkit =
     \<lparr>tk_text = (\<lambda>_ s. s), tk_number = (\<lambda>_ i. i), tk_checked = (\<lambda>_ b. b), tk_zone = (\<lambda>_ z _. z), tk_fileSize = (\<lambda>_. 0)\<rparr>"

definition sample_members :: members where
  "sample_members = widget_data.extend (new_widget_data 1 ClsLeaf ''&Name'' 0 0)
     (members.fields [] True [] [] False False False [] (-1) 0 10 0 1000 True [] 0 [] 3 False (new_YLogView 3 2) [] 5 False [] None
       True base_overrides)"

section \<open>Properties\<close>




text \<open>
  C28: The value getProperty returns has the type the class declares for the property, for all widget
  classes and their properties but four (a widget without an ID answers the property ID with a truth
  value); only for an unknown name it throws.
\<close>

theorem getProperty_typed:
  assumes "n \<notin> set (untyped t)" "n \<noteq> ''ID'' \<or> w_id w \<noteq> None"
  shows "case ps_lookup (propertySet t) n of
      None \<Rightarrow> getProperty tk t n w = Inl (YUIUnknownPropertyException n)
    | Some p \<Rightarrow> \<exists>v. getProperty tk t n w = Inr v \<and> pv_type v = pr_type p"
  using virtual.query_typed[OF _ assms] virtual.query_error_iff[OF assms] by (auto split: option.splits)

theorem getProperty_typed_witness:
  "\<exists>v. getProperty sample_toolkit Is_YIntField ''MaxValue'' sample_members = Inr v \<and> pv_type v = YIntegerProperty"
  using getProperty_typed[of "''MaxValue''" Is_YIntField sample_members sample_toolkit]
  by (simp add: property_sets ps_addSet_append YIntField_properties_def ps_lookup_simps)




text \<open>
  Four properties break the rules. The icon path of a multi-selection box can be set, but
  reading it gives a truth value instead of the path. The value of a partition splitter is declared
  as a string: setting it to a string reads a number that has no value, and reading it gives a
  number. The current item of a wizard is declared as a string and is not one.
\<close>

theorem properties_broken:
  "(\<exists>w'. setProperty tk Is_YMultiSelectionBox ''IconPath'' (StringValue path) w = Inr (True, w')
      \<and> getProperty tk Is_YMultiSelectionBox ''IconPath'' w' = Inr (BoolValue False))
   \<and> (\<exists>e. setProperty tk Is_YPartitionSplitter ''Value'' (StringValue s) w = Inl (undefined_behaviour e))
   \<and> setProperty tk Is_YPartitionSplitter ''Value'' (IntegerValue i) w = Inl (YUIPropertyTypeMismatchException ''Value'')
   \<and> getProperty tk Is_YPartitionSplitter ''Value'' w = Inr (IntegerValue (p_number w))
   \<and> getProperty tk Is_YWizard ''CurrentItem'' w = Inr (TypeValue YOtherProperty)"
  by (simp add: YMultiSelectionBox_setProperty_def YMultiSelectionBox_getProperty_def YMultiSelectionBox_vtable_def
      YMultiSelectionBox_properties_def YPartitionSplitter_setProperty_def YPartitionSplitter_getProperty_def
      YPartitionSplitter_properties_def YWizard_getProperty_def YWizard_properties_def YWidget_getProperty_def
      property_sets ps_addSet_append check_Cons)

text \<open>
  However properties of an integer field are set, its value stays between the minimum and the
  maximum, as long as the minimum is not above the maximum, if the toolkit shows the value it is given.
\<close>

theorem IntField_in_range:
  assumes "\<forall>w x. tk_number tk w x = x" "in_range w" "setProperty tk Is_YIntField n v w = Inr (b, w')"
  shows "in_range w'"
proof -
  have "(\<exists>i. w' = IntField_setValue tk i w \<or> w' = setMinValue tk i w \<or> w' = setMaxValue tk i w)
      \<or> (\<exists>l. w' = w\<lparr>w_label := l\<rparr>) \<or> YWidget_setProperty YIntField_vtable n v w = Inr (b, w')"
    using assms(3) by (auto simp: YIntField_setProperty_def bind_result_Inr_iff split: if_splits)
  then show ?thesis
    using assms(1,2) setMinValue_in_range[of tk] YWidget_setProperty_range[of YIntField_vtable n v w b w']
    by (auto simp: in_range_def)
qed

theorem IntField_in_range_witness:
  "\<exists>w'. setProperty sample_toolkit Is_YIntField ''MaxValue'' (IntegerValue 4) sample_members = Inr (True, w') \<and> in_range w'"
proof -
  have s: "setProperty sample_toolkit Is_YIntField ''MaxValue'' (IntegerValue 4) sample_members
      = Inr (True, setMaxValue sample_toolkit 4 sample_members)"
    by (simp add: YIntField_setProperty_def property_sets ps_addSet_append YIntField_properties_def check_Cons c_int_id)
  have "in_range (setMaxValue sample_toolkit 4 sample_members)"
    by (rule IntField_in_range[OF _ _ s]) (simp_all add: sample_toolkit_def sample_members_def members.defs widget_data.defs
        new_widget_data_def in_range_def)
  with s show ?thesis by blast
qed

end
