(* ===== verification/Yui_Menu.thy ===== *)
theory Yui_Menu
  imports Yui_Selection Yui_Shortcut
begin

text \<open>
  \<^verbatim>\<open>YMenuWidget\<close>, the common base of \<^verbatim>\<open>YMenuButton\<close> and \<^verbatim>\<open>YMenuBar\<close>: the serial numbers of the items
  and the search by serial number, the resolver of the keyboard shortcuts of every menu level, and
  the search by path, which \<^verbatim>\<open>YTree\<close> has too. The main results are that the serial numbers
  count the items that were added with the widget in depth-first order, through every use of the
  widget, while items added to an item of the widget have none, that the resolver makes
  the shortcuts of each level unique, complete and stable, and how far the search by path finds
  what the path names.
\<close>

section \<open>State and operations\<close>

record YMenuWidget =
  mw_selection :: YSelectionWidget
  mw_nextSerialNo :: int

abbreviation mw_items :: "YMenuWidget \<Rightarrow> YItem list" where
  "mw_items m \<equiv> sw_items (mw_selection m)"

abbreviation set_mw_items :: "YItem list \<Rightarrow> YMenuWidget \<Rightarrow> YMenuWidget" where
  "set_mw_items is m \<equiv> m\<lparr>mw_selection := (mw_selection m)\<lparr>sw_items := is\<rparr>\<rparr>"

definition new_YMenuWidget :: "string \<Rightarrow> YMenuWidget result" where
  "new_YMenuWidget label =
     bind_result (new_YSelectionWidget label False False)
       (\<lambda>w. return \<lparr>mw_selection = w, mw_nextSerialNo = 0\<rparr>)"

text \<open>The dynamic cast to \<^verbatim>\<open>YMenuItem\<close>, and the one to \<^verbatim>\<open>YTreeItem\<close>, its base class.\<close>

definition isMenuItem :: "item_data \<Rightarrow> bool" where
  "isMenuItem d \<longleftrightarrow> it_class d = ClsMenuItem"

definition isTreeItem :: "item_data \<Rightarrow> bool" where
  "isTreeItem d \<longleftrightarrow> it_class d \<noteq> ClsItem"

fun assignUniqueIndex :: "int \<Rightarrow> YItem list \<Rightarrow> int \<times> YItem list" where
  "assignUniqueIndex no [] = (no, [])"
| "assignUniqueIndex no (YItem d cs # is) =
     (let no1 = no + 1;
          d1 = setIndex no1 d;
          (no2, cs1) = (if cs \<noteq> [] then assignUniqueIndex no1 cs else (no1, cs));
          (no3, is1) = assignUniqueIndex no2 is
      in (no3, YItem d1 cs1 # is1))"

text \<open>
  \<^verbatim>\<open>YSelectionWidget::addItem\<close> has put the item at the end of the collection; it and its
  descendants are then numbered in place.
\<close>

definition mw_addItem :: "YItem \<Rightarrow> YMenuWidget \<Rightarrow> YMenuWidget result" where
  "mw_addItem item m =
     bind_result (addItem item (mw_selection m))
       (\<lambda>w. let no1 = mw_nextSerialNo m + 1;
                added = last (sw_items w);
                d1 = setIndex no1 (idata added);
                (no2, cs1) = (if hasChildren added then assignUniqueIndex no1 (ichildren added)
                              else (no1, ichildren added))
            in return \<lparr>mw_selection = w\<lparr>sw_items := butlast (sw_items w) @ [YItem d1 cs1]\<rparr>,
                       mw_nextSerialNo = no2\<rparr>)"

fun mw_addItem_all :: "YItem list \<Rightarrow> YMenuWidget \<Rightarrow> YMenuWidget result" where
  "mw_addItem_all [] m = return m"
| "mw_addItem_all (i # is) m = bind_result (mw_addItem i m) (mw_addItem_all is)"

definition mw_deleteAllItems :: "YMenuWidget \<Rightarrow> YMenuWidget" where
  "mw_deleteAllItems m =
     \<lparr>mw_selection = deleteAllItems (mw_selection m), mw_nextSerialNo = 0\<rparr>"

text \<open>
  \<^verbatim>\<open>YMenuItem::addItem\<close> on an item \<open>p\<close> of the widget: the new item becomes the last child of \<open>p\<close>, and
  the widget is not told. \<^verbatim>\<open>addMenu\<close> has the same body, and \<^verbatim>\<open>addSeparator\<close> that with empty strings.
\<close>

fun add_child :: "nat \<Rightarrow> YItem \<Rightarrow> YItem list \<Rightarrow> YItem list" where
  "add_child p c [] = []"
| "add_child p c (YItem d cs # is) =
     (if it_id d = p then addChildItem (YItem d cs) c else YItem d (add_child p c cs)) # add_child p c is"

definition menuitem_addItem :: "nat \<Rightarrow> nat \<Rightarrow> string \<Rightarrow> string \<Rightarrow> YMenuWidget \<Rightarrow> YMenuWidget" where
  "menuitem_addItem p i label icon m =
     set_mw_items (add_child p (YItem (new_item_data i ClsMenuItem label icon False) []) (mw_items m)) m"

text \<open>The item pointer is either null or an item of the widget.\<close>

definition setItemEnabled :: "nat option \<Rightarrow> bool \<Rightarrow> YMenuWidget \<Rightarrow> YMenuWidget" where
  "setItemEnabled item enabled m =
     (case item of
        None \<Rightarrow> m
      | Some i \<Rightarrow> set_mw_items (on_item i (\<lambda>d. d\<lparr>it_enabled := enabled\<rparr>) (mw_items m)) m)"

definition setItemVisible :: "nat option \<Rightarrow> bool \<Rightarrow> YMenuWidget \<Rightarrow> YMenuWidget" where
  "setItemVisible item visible m =
     (case item of
        None \<Rightarrow> m
      | Some i \<Rightarrow> set_mw_items (on_item i (\<lambda>d. d\<lparr>it_visible := visible\<rparr>) (mw_items m)) m)"

fun findMenuItem_in :: "int \<Rightarrow> YItem list \<Rightarrow> YItem option" where
  "findMenuItem_in wantedIndex [] = None"
| "findMenuItem_in wantedIndex (YItem d cs # is) =
     (if isMenuItem d
      then if it_index d = wantedIndex then Some (YItem d cs)
           else if cs \<noteq> []
                then (case findMenuItem_in wantedIndex cs of
                        Some result \<Rightarrow> Some result
                      | None \<Rightarrow> findMenuItem_in wantedIndex is)
                else findMenuItem_in wantedIndex is
      else findMenuItem_in wantedIndex is)"

definition findMenuItem :: "int \<Rightarrow> YMenuWidget \<Rightarrow> YItem option" where
  "findMenuItem index m = findMenuItem_in index (mw_items m)"

section \<open>The shortcut resolver\<close>

text \<open>
  The \<open>used\<close> array of one level is a function on characters. The \<open>conflicts\<close> vector is kept as a
  flag on every item of the level, in the order in which the source collects it. An item that is
  no menu item makes the source call \<^verbatim>\<open>isSeparator()\<close> on a null pointer.
\<close>

type_synonym used_chars = "char \<Rightarrow> bool"

fun first_unused :: "used_chars \<Rightarrow> string \<Rightarrow> nat option" where
  "first_unused used [] = None"
| "first_unused used (c # clean) =
     (let ch = normalized c
      in if ch \<noteq> NoShortcut \<and> \<not> used ch then Some 0 else map_option Suc (first_unused used clean))"

definition resolve_item :: "used_chars \<Rightarrow> item_data \<Rightarrow> used_chars \<times> item_data" where
  "resolve_item used d =
     (let clean = cleanShortcutString (it_label d)
      in case first_unused used clean of
           None \<Rightarrow> (used, setItemLabel clean d)
         | Some index \<Rightarrow>
             (used(normalized (clean ! index) := True),
              setItemLabel (str_insert_char clean index shortcutMarker) d))"

fun resolve_conflicts :: "used_chars \<Rightarrow> (bool \<times> YItem) list \<Rightarrow> YItem list" where
  "resolve_conflicts used [] = []"
| "resolve_conflicts used ((conflict, YItem d cs) # is) =
     (if conflict
      then let (used1, d1) = resolve_item used d in YItem d1 cs # resolve_conflicts used1 is
      else YItem d cs # resolve_conflicts used is)"

function (sequential) resolveShortcutConflicts :: "YItem list \<Rightarrow> YItem list result"
  and scan_level :: "used_chars \<Rightarrow> YItem list \<Rightarrow> (used_chars \<times> (bool \<times> YItem) list) result" where
  "resolveShortcutConflicts is =
     bind_result (scan_level (\<lambda>_. False) is)
       (\<lambda>(used, marked). return (resolve_conflicts used marked))"
| "scan_level used [] = return (used, [])"
| "scan_level used (YItem d cs # is) =
     (if \<not> isMenuItem d then throw (undefined_behaviour ''isSeparator() of a null pointer'')
      else if isSeparator d
      then bind_result (scan_level used is)
             (\<lambda>(used1, rest). return (used1, (False, YItem d cs) # rest))
      else bind_result (if cs \<noteq> [] then resolveShortcutConflicts cs else return cs)
             (\<lambda>cs1. let ch = normalized (findShortcut (it_label d) 0);
                        conflict = (ch = NoShortcut \<or> used ch);
                        used1 = (if conflict then used else used(ch := True))
                    in bind_result (scan_level used1 is)
                         (\<lambda>(used2, rest). return (used2, (conflict, YItem d cs1) # rest))))"
  by pat_completeness auto
termination
  by (relation "measure (\<lambda>x. case x of Inl is \<Rightarrow> Suc (2 * size_list size is)
                                     | Inr (_, is) \<Rightarrow> 2 * size_list size is)") auto

definition mw_resolveShortcutConflicts :: "YMenuWidget \<Rightarrow> YMenuWidget result" where
  "mw_resolveShortcutConflicts m =
     bind_result (resolveShortcutConflicts (mw_items m)) (\<lambda>is. return (set_mw_items is m))"

text \<open>\<^verbatim>\<open>addItems\<close>; \<^verbatim>\<open>rebuildMenuTree\<close>, which follows, belongs to the toolkit.\<close>

definition mw_addItems :: "YItem list \<Rightarrow> YMenuWidget \<Rightarrow> YMenuWidget result" where
  "mw_addItems is m = bind_result (mw_addItem_all is m) mw_resolveShortcutConflicts"

section \<open>The search by path\<close>

text \<open>
  The two searches take the rest of the path as an iterator. Descending increments the iterator of
  the loop itself, so the siblings after an item whose children were searched are compared with
  the shortened path. An empty path is dereferenced at its end.
\<close>

fun mw_findItem :: "string list \<Rightarrow> YItem list \<Rightarrow> YItem option result" where
  "mw_findItem path [] = return None"
| "mw_findItem path (YItem d cs # is) =
     (if \<not> isMenuItem d then return None
      else case path of
        [] \<Rightarrow> throw (undefined_behaviour ''path_begin is at the end of the path'')
      | p # path1 \<Rightarrow>
          if it_label d = p
          then if path1 = []
               then if cs \<noteq> [] then mw_findItem path is else return (Some (YItem d cs))
               else bind_result (mw_findItem path1 cs)
                      (\<lambda>result. case result of
                         Some r \<Rightarrow> return (Some r)
                       | None \<Rightarrow> mw_findItem path1 is)
          else mw_findItem path is)"

fun tree_findItem :: "string list \<Rightarrow> YItem list \<Rightarrow> YItem option result" where
  "tree_findItem path [] = return None"
| "tree_findItem path (YItem d cs # is) =
     (if \<not> isTreeItem d then return None
      else case path of
        [] \<Rightarrow> throw (undefined_behaviour ''path_begin is at the end of the path'')
      | p # path1 \<Rightarrow>
          if it_label d = p
          then if path1 = [] then return (Some (YItem d cs))
               else bind_result (tree_findItem path1 cs)
                      (\<lambda>result. case result of
                         Some r \<Rightarrow> return (Some r)
                       | None \<Rightarrow> tree_findItem path1 is)
          else tree_findItem path is)"

section \<open>Serial numbers\<close>

text \<open>The serial numbers of a forest, in depth-first order.\<close>

definition serials :: "YItem list \<Rightarrow> int list" where
  "serials is = map (it_index \<circ> idata) (allItems is)"

lemma serials_simps [simp]:
  "serials [] = []" "serials (YItem d cs # is) = it_index d # serials cs @ serials is"
  "serials (xs @ ys) = serials xs @ serials ys"
  by (simp_all add: serials_def)

lemma serials_map_data:
  "(\<And>d. it_index (f d) = it_index d) \<Longrightarrow> serials (map_data f xs) = serials xs"
  by (induction f xs rule: map_data.induct) simp_all

definition menu_forest :: "YItem list \<Rightarrow> bool" where
  "menu_forest is \<longleftrightarrow> list_all (isMenuItem \<circ> idata) (allItems is)"

lemma menu_forest_simps [simp]:
  "menu_forest []"
  "menu_forest (YItem d cs # is) \<longleftrightarrow> isMenuItem d \<and> menu_forest cs \<and> menu_forest is"
  "menu_forest (xs @ ys) \<longleftrightarrow> menu_forest xs \<and> menu_forest ys"
  by (simp_all add: menu_forest_def)

lemma menu_forest_map_data:
  "(\<And>d. it_class (f d) = it_class d) \<Longrightarrow> menu_forest (map_data f xs) = menu_forest xs"
  by (induction f xs rule: map_data.induct) (simp_all add: isMenuItem_def)

text \<open>Numbering a forest counts its items on from the number given, and changes nothing else.\<close>

lemma assignUniqueIndex_serials:
  assumes "assignUniqueIndex no is = (no', is')"
  shows "serials is' = [no + 1..no'] \<and> no' = no + int (length (allItems is))
     \<and> length (allItems is') = length (allItems is) \<and> menu_forest is' = menu_forest is"
  using assms
proof (induction no "is" arbitrary: no' is' rule: assignUniqueIndex.induct)
  case (2 no d cs "is")
  obtain no2 cs1 where cs: "assignUniqueIndex (no + 1) cs = (no2, cs1)" by force
  obtain no3 is1 where rest: "assignUniqueIndex no2 is = (no3, is1)" by force
  have "(if cs \<noteq> [] then assignUniqueIndex (no + 1) cs else (no + 1, cs)) = (no2, cs1)"
    using cs by auto
  then have res: "no' = no3" "is' = YItem (setIndex (no + 1) d) cs1 # is1"
    using 2(3) rest by (simp_all add: Let_def)
  have IHc: "serials cs1 = [no + 1 + 1..no2] \<and> no2 = no + 1 + int (length (allItems cs))
     \<and> length (allItems cs1) = length (allItems cs) \<and> menu_forest cs1 = menu_forest cs"
    using 2(1)[OF refl refl _ cs] cs by (cases "cs = []") auto
  have IHi: "serials is1 = [no2 + 1..no3] \<and> no3 = no2 + int (length (allItems is))
     \<and> length (allItems is1) = length (allItems is) \<and> menu_forest is1 = menu_forest is"
    using 2(2) cs rest by (cases "cs = []") auto
  have "[no + 1..no3] = (no + 1) # [no + 1 + 1..no2] @ [no2 + 1..no3]"
    using IHc IHi upto_split2[of "no + 1" no2 no3] upto_rec1[of "no + 1" no2] by simp
  then show ?case
    using IHc IHi by (simp add: res isMenuItem_def)
qed simp

text \<open>
  The invariant of the widget: the items that have a number are numbered from 1 in depth-first order.
  A new item has the index -1.
\<close>

definition mw_numbered :: "YMenuWidget \<Rightarrow> bool" where
  "mw_numbered m \<longleftrightarrow> filter (\<lambda>k. k \<noteq> -1) (serials (mw_items m)) = [1..mw_nextSerialNo m] \<and> 0 \<le> mw_nextSerialNo m
     \<and> \<not> sw_enforceSingleSelection (mw_selection m) \<and> \<not> sw_recursiveSelection (mw_selection m)"

definition all_numbered :: "YItem list \<Rightarrow> bool" where
  "all_numbered is \<longleftrightarrow> -1 \<notin> set (serials is)"

lemma addItem_plain:
  assumes "\<not> sw_enforceSingleSelection w" "addItem item w = Inr w'"
  shows "w' = w\<lparr>sw_items := sw_items w @ [YItem (setIndex (int (length (sw_items w))) (idata item))
                                             (ichildren item)]\<rparr>"
  using assms by (auto simp: addItem_def Let_def split: if_splits)

lemma mw_addItem_numbered:
  assumes "mw_numbered m" "mw_addItem item m = Inr m'"
  shows "mw_numbered m' \<and> all_numbered (mw_items m') = all_numbered (mw_items m)
    \<and> menu_forest (mw_items m') = (menu_forest (mw_items m) \<and> menu_forest [item])"
proof -
  note m = assms(1)[unfolded mw_numbered_def]
  obtain w where w: "addItem item (mw_selection m) = Inr w"
    using assms(2) by (auto simp: mw_addItem_def bind_result_Inr_iff)
  obtain d cs where item: "item = YItem d cs" by (cases item)
  let ?n = "mw_nextSerialNo m"
  have w': "w = (mw_selection m)\<lparr>sw_items := mw_items m @ [YItem (setIndex (int (length (mw_items m))) d) cs]\<rparr>"
    using addItem_plain[OF _ w] m by (simp add: item)
  obtain no' cs1 where cs: "assignUniqueIndex (?n + 1) cs = (no', cs1)" by force
  note ser = assignUniqueIndex_serials[OF cs]
  have m': "m' = \<lparr>mw_selection = w\<lparr>sw_items := mw_items m @ [YItem (setIndex (?n + 1) d) cs1]\<rparr>,
        mw_nextSerialNo = no'\<rparr>"
    using assms(2) cs
    by (cases "cs = []") (auto simp: mw_addItem_def w w' hasChildren_def setIndex_def Let_def)
  have new: "serials (mw_items m') = serials (mw_items m) @ [?n + 1..no']"
    using ser upto_rec1[of "?n + 1" no'] by (simp add: m' add.commute)
  have pos: "\<forall>k\<in>set [?n + 1..no']. k \<noteq> -1" using m by auto
  have "[1..no'] = [1..?n] @ [?n + 1..no']"
    using ser m upto_split2[of 1 ?n no'] by (cases "?n = 0") simp_all
  then have "filter (\<lambda>k. k \<noteq> -1) (serials (mw_items m')) = [1..no']"
    using m pos by (simp add: new filter_id_conv)
  moreover have "all_numbered (mw_items m') = all_numbered (mw_items m)"
    using pos by (auto simp: all_numbered_def new)
  ultimately show ?thesis
    using ser m by (simp add: m' w' mw_numbered_def item isMenuItem_def)
qed

lemma mw_addItem_all_numbered:
  assumes "mw_numbered m" "mw_addItem_all is m = Inr m'"
  shows "mw_numbered m' \<and> all_numbered (mw_items m') = all_numbered (mw_items m)
    \<and> menu_forest (mw_items m') = (menu_forest (mw_items m) \<and> menu_forest is)"
  using assms
proof (induction "is" arbitrary: m)
  case (Cons i "is")
  then obtain m1 where m1: "mw_addItem i m = Inr m1" "mw_addItem_all is m1 = Inr m'"
    by (auto simp: bind_result_Inr_iff)
  show ?case
    using mw_addItem_numbered[OF Cons.prems(1) m1(1)] Cons.IH[OF _ m1(2)]
    by (cases i) (simp add: conj_assoc)
qed simp

text \<open>An item added to an item of the widget has no number, and the others keep theirs.\<close>

lemma add_child_numbers:
  assumes "it_index (idata c) = -1" "isMenuItem (idata c)" "ichildren c = []"
  shows "filter (\<lambda>k. k \<noteq> -1) (serials (add_child p c is)) = filter (\<lambda>k. k \<noteq> -1) (serials is)
    \<and> menu_forest (add_child p c is) = menu_forest is"
  using assms
  by (induction p c "is" rule: add_child.induct) (auto simp: addChildItem_def isMenuItem_def)

lemma menuitem_addItem_numbered:
  assumes "mw_numbered m"
  shows "mw_numbered (menuitem_addItem p i label icon m)
    \<and> menu_forest (mw_items (menuitem_addItem p i label icon m)) = menu_forest (mw_items m)"
proof -
  let ?c = "YItem (new_item_data i ClsMenuItem label icon False) []"
  have "filter (\<lambda>k. k \<noteq> -1) (serials (add_child p ?c (mw_items m))) = filter (\<lambda>k. k \<noteq> -1) (serials (mw_items m))
    \<and> menu_forest (add_child p ?c (mw_items m)) = menu_forest (mw_items m)"
    by (rule add_child_numbers) (simp_all add: new_item_data_def isMenuItem_def)
  then show ?thesis using assms by (simp add: mw_numbered_def menuitem_addItem_def)
qed

text \<open>Operations that change the data of the items, but no serial number and no class.\<close>

lemma mw_numbered_map_data:
  assumes "mw_numbered m" "\<And>d. it_index (f d) = it_index d" "\<And>d. it_class (f d) = it_class d"
  shows "mw_numbered (set_mw_items (map_data f (mw_items m)) m)
    \<and> all_numbered (map_data f (mw_items m)) = all_numbered (mw_items m)
    \<and> menu_forest (map_data f (mw_items m)) = menu_forest (mw_items m)"
  using assms by (simp add: mw_numbered_def all_numbered_def serials_map_data menu_forest_map_data)

lemma setItemEnabled_numbered:
  assumes "mw_numbered m"
  shows "mw_numbered (setItemEnabled i b m)
    \<and> all_numbered (mw_items (setItemEnabled i b m)) = all_numbered (mw_items m)
    \<and> menu_forest (mw_items (setItemEnabled i b m)) = menu_forest (mw_items m)"
  using mw_numbered_map_data[OF assms] assms
  by (cases i) (simp_all add: setItemEnabled_def on_item_def)

lemma setItemVisible_numbered:
  assumes "mw_numbered m"
  shows "mw_numbered (setItemVisible i b m)
    \<and> all_numbered (mw_items (setItemVisible i b m)) = all_numbered (mw_items m)
    \<and> menu_forest (mw_items (setItemVisible i b m)) = menu_forest (mw_items m)"
  using mw_numbered_map_data[OF assms] assms
  by (cases i) (simp_all add: setItemVisible_def on_item_def)

section \<open>The search by serial number\<close>

lemma findMenuItem_find:
  "menu_forest is \<Longrightarrow> findMenuItem_in n is = List.find (\<lambda>i. it_index (idata i) = n) (allItems is)"
  by (induction n "is" rule: findMenuItem_in.induct) (auto simp: find_append split: option.split)

lemma find_filter: "(\<And>y. P y \<Longrightarrow> Q y) \<Longrightarrow> List.find P (filter Q xs) = List.find P xs"
  by (induction xs) auto

lemma find_key_nth:
  assumes "map f xs = ys" "distinct ys" "j < length xs"
  shows "List.find (\<lambda>x. f x = ys ! j) xs = Some (xs ! j)"
  using assms
  by (auto simp: find_Some_iff distinct_conv_nth intro!: exI[of _ j])

section \<open>What the resolver leaves\<close>

text \<open>The shortcut of an item, and the item with its markers removed.\<close>

definition menu_shortcut :: "item_data \<Rightarrow> char" where
  "menu_shortcut d = label_shortcut (it_label d)"

definition clean_item :: "item_data \<Rightarrow> item_data" where
  "clean_item d = setItemLabel (unmark (it_label d)) d"

interpretation item_label: label_owner it_label setItemLabel
  by unfold_locales simp

lemma menu_shortcut_valid: "isValid (menu_shortcut d) \<longleftrightarrow> menu_shortcut d \<noteq> NoShortcut"
  by (simp add: menu_shortcut_def label_shortcut_def normalized_None_iff)

lemma unmark_Nil [simp]: "unmark l = [] \<longleftrightarrow> l = []"
  by (induction l rule: unmark.induct) auto

lemma isSeparator_shortcut: "isSeparator d \<Longrightarrow> menu_shortcut d = NoShortcut"
  by (simp add: isSeparator_def menu_shortcut_def label_shortcut_def findShortcut_def
      findShortcutPos_eq_marker_pos)

lemma clean_item_frames [simp]:
  "it_index (clean_item d) = it_index d" "it_class (clean_item d) = it_class d"
  "it_id (clean_item d) = it_id d"
  by (simp_all add: clean_item_def setItemLabel_def)

lemma first_unused_Some:
  "first_unused used s = Some p \<Longrightarrow>
     p < length s \<and> isValid (s ! p) \<and> \<not> used (normalized (s ! p))"
  by (induction s arbitrary: p) (auto simp: Let_def normalized_None_iff split: if_splits)

lemma first_unused_None:
  "first_unused used s = None \<longleftrightarrow> (\<forall>c\<in>set s. isValid c \<longrightarrow> used (normalized c))"
  by (induction s) (auto simp: Let_def normalized_None_iff)

text \<open>
  One conflict: the item gets a shortcut that was free, or keeps a clean label in which no
  character is free.
\<close>

lemma resolve_item_cases:
  assumes "resolve_item used d = (used', d')"
  obtains (shortcut) "isValid (menu_shortcut d')" "\<not> used (menu_shortcut d')"
      "used' = used(menu_shortcut d' := True)"
    | (none) "menu_shortcut d' = NoShortcut" "used' = used" "unmark (it_label d') = it_label d'"
      "\<forall>c\<in>set (it_label d'). isValid c \<longrightarrow> used (normalized c)"
proof (cases "first_unused used (unmark (it_label d))")
  case None
  then have res: "used' = used" "d' = setItemLabel (unmark (it_label d)) d"
    using assms by (simp_all add: resolve_item_def cleanShortcutString_eq_unmark Let_def)
  show thesis
    using None item_label.getl_unmarked(1)[of d]
    by (intro none) (auto simp: res menu_shortcut_def label_shortcut_def unmark_idem first_unused_None)
next
  case (Some p)
  note p = first_unused_Some[OF Some]
  have res: "used' = used(normalized (unmark (it_label d) ! p) := True)"
    "d' = setItemLabel (str_insert_char (unmark (it_label d)) p shortcutMarker) d"
    using assms Some by (simp_all add: resolve_item_def cleanShortcutString_eq_unmark Let_def)
  have "menu_shortcut d' = normalized (unmark (it_label d) ! p)"
    using item_label.getl_marked(1)[of p d] p
    by (simp add: res menu_shortcut_def label_shortcut_def)
  then show thesis
    using p by (intro shortcut) (simp_all add: res)
qed

lemma resolve_item_clean:
  assumes "resolve_item used d = (used', d')"
  shows "clean_item d' = clean_item d" and "isSeparator d' = isSeparator d"
proof -
  have "unmark (it_label d') = unmark (it_label d) \<and> d' = setItemLabel (it_label d') d"
  proof (cases "first_unused used (unmark (it_label d))")
    case None
    then show ?thesis
      using assms by (auto simp: resolve_item_def cleanShortcutString_eq_unmark Let_def unmark_idem)
  next
    case (Some p)
    then show ?thesis
      using assms first_unused_Some[OF Some] item_label.getl_marked(2)[of p d]
      by (auto simp: resolve_item_def cleanShortcutString_eq_unmark Let_def)
  qed
  then obtain l where "d' = setItemLabel l d" "unmark l = unmark (it_label d)"
    by (metis setter_frames(6))
  then show "clean_item d' = clean_item d" "isSeparator d' = isSeparator d"
    using unmark_Nil[of l] unmark_Nil[of "it_label d"]
    by (auto simp: clean_item_def setItemLabel_def isSeparator_def)
qed


text \<open>The items of a level that keep the shortcut they came with.\<close>

definition kept :: "(bool \<times> YItem) list \<Rightarrow> char list" where
  "kept marked =
     map (\<lambda>(f, i). menu_shortcut (idata i)) (filter (\<lambda>(f, i). \<not> f \<and> \<not> isSeparator (idata i)) marked)"

definition well_marked :: "(bool \<times> YItem) list \<Rightarrow> bool" where
  "well_marked marked \<longleftrightarrow> distinct (kept marked) \<and> (\<forall>c\<in>set (kept marked). isValid c)
     \<and> (\<forall>(f, i)\<in>set marked. f \<longrightarrow> \<not> isSeparator (idata i))"

lemma kept_simps [simp]:
  "kept [] = []"
  "kept ((f, i) # m) = (if \<not> f \<and> \<not> isSeparator (idata i) then [menu_shortcut (idata i)] else []) @ kept m"
  by (simp_all add: kept_def)

lemma scan_level_marks:
  assumes "scan_level used is = Inr (used', marked)"
  shows "well_marked marked \<and> (\<forall>c\<in>set (kept marked). \<not> used c)
     \<and> used' = (\<lambda>c. used c \<or> c \<in> set (kept marked))
     \<and> map (idata \<circ> snd) marked = map idata is"
  using assms
proof (induction "is" arbitrary: used used' marked)
  case Nil
  then show ?case by (auto simp: well_marked_def)
next
  case (Cons i "is")
  obtain d cs where i: "i = YItem d cs" by (cases i)
  show ?case
  proof (cases "isSeparator d")
    case True
    then obtain rest where "scan_level used is = Inr (used', rest)" "marked = (False, YItem d cs) # rest"
      using Cons.prems by (auto simp: i bind_result_Inr_iff split: if_splits)
    then show ?thesis
      using Cons.IH[of used used' rest] True by (auto simp: well_marked_def i)
  next
    case False
    define ch where "ch = menu_shortcut d"
    define conflict where "conflict = (ch = NoShortcut \<or> used ch)"
    define used1 where "used1 = (if conflict then used else used(ch := True))"
    obtain cs1 rest where rest: "scan_level used1 is = Inr (used', rest)"
      and m: "marked = (conflict, YItem d cs1) # rest"
      using Cons.prems False
      by (auto simp: i bind_result_Inr_iff used1_def conflict_def ch_def menu_shortcut_def
          label_shortcut_def Let_def split: if_splits)
    note IH = Cons.IH[OF rest]
    have ch: "\<not> conflict \<Longrightarrow> isValid ch \<and> \<not> used ch"
      by (auto simp: conflict_def ch_def menu_shortcut_valid)
    have "\<forall>c\<in>set (kept rest). \<not> used c \<and> (\<not> conflict \<longrightarrow> c \<noteq> ch)"
      using IH by (auto simp: used1_def split: if_splits)
    then show ?thesis
      using IH ch False by (cases conflict) (auto simp: m i well_marked_def used1_def ch_def[symmetric])
  qed
qed


text \<open>
  A level as the resolver leaves it: no two items share a shortcut, and an item without one has a
  clean label, every character of which is the shortcut of a sibling.
\<close>

definition level_ok :: "item_data list \<Rightarrow> bool" where
  "level_ok ds \<longleftrightarrow> distinct (filter isValid (map menu_shortcut ds))
     \<and> (\<forall>d\<in>set ds. \<not> isSeparator d \<and> menu_shortcut d = NoShortcut \<longrightarrow>
          unmark (it_label d) = it_label d
        \<and> (\<forall>c\<in>set (it_label d). isValid c \<longrightarrow> normalized c \<in> menu_shortcut ` set ds))"

definition level_inv :: "used_chars \<Rightarrow> char set \<Rightarrow> item_data list \<Rightarrow> bool" where
  "level_inv used K ds \<longleftrightarrow> distinct (filter isValid (map menu_shortcut ds))
     \<and> (\<forall>c. isValid c \<and> c \<in> menu_shortcut ` set ds \<longrightarrow> c \<in> K \<or> \<not> used c)
     \<and> K \<subseteq> menu_shortcut ` set ds
     \<and> (\<forall>d\<in>set ds. \<not> isSeparator d \<and> menu_shortcut d = NoShortcut \<longrightarrow>
          unmark (it_label d) = it_label d
        \<and> (\<forall>c\<in>set (it_label d). isValid c \<longrightarrow>
             used (normalized c) \<or> normalized c \<in> menu_shortcut ` set ds))"

lemma level_invD:
  assumes "level_inv used K ds"
  shows "distinct (filter isValid (map menu_shortcut ds))"
    and "isValid c \<Longrightarrow> c \<in> menu_shortcut ` set ds \<Longrightarrow> c \<in> K \<or> \<not> used c"
    and "K \<subseteq> menu_shortcut ` set ds"
    and "d \<in> set ds \<Longrightarrow> \<not> isSeparator d \<Longrightarrow> menu_shortcut d = NoShortcut \<Longrightarrow>
      unmark (it_label d) = it_label d"
    and "d \<in> set ds \<Longrightarrow> \<not> isSeparator d \<Longrightarrow> menu_shortcut d = NoShortcut \<Longrightarrow>
      c \<in> set (it_label d) \<Longrightarrow> isValid c \<Longrightarrow>
      used (normalized c) \<or> normalized c \<in> menu_shortcut ` set ds"
  using assms unfolding level_inv_def by blast+

lemma level_inv_new:
  assumes "level_inv (used(menu_shortcut d := True)) K ds" "isValid (menu_shortcut d)"
    and "\<not> used (menu_shortcut d)" "\<forall>c\<in>K. used c"
  shows "level_inv used K (d # ds)"
proof -
  note inv = level_invD[OF assms(1)]
  have "menu_shortcut d \<notin> menu_shortcut ` set ds"
    using inv(2)[of "menu_shortcut d"] assms(2-4) by auto
  moreover have "c \<in> K \<or> \<not> used c" if "isValid c" "c \<in> menu_shortcut ` set (d # ds)" for c
    using inv(2)[OF that(1)] that assms(3) by (cases "c = menu_shortcut d") auto
  moreover have "used (normalized c) \<or> normalized c \<in> menu_shortcut ` set (d # ds)"
    if "e \<in> set (d # ds)" "\<not> isSeparator e" "menu_shortcut e = NoShortcut" "c \<in> set (it_label e)"
      "isValid c" for e c
    using inv(5)[of e c] that assms(2) by (auto split: if_splits)
  ultimately show ?thesis
    using inv(1,3,4) assms(2) unfolding level_inv_def by auto
qed

lemma level_inv_none:
  assumes "level_inv used K ds" "menu_shortcut d = NoShortcut"
    and "isSeparator d \<or> unmark (it_label d) = it_label d
           \<and> (\<forall>c\<in>set (it_label d). isValid c \<longrightarrow> used (normalized c))"
  shows "level_inv used K (d # ds)"
proof -
  note inv = level_invD[OF assms(1)]
  have "c \<in> K \<or> \<not> used c" if "isValid c" "c \<in> menu_shortcut ` set (d # ds)" for c
    using inv(2)[OF that(1)] that assms(2) by auto
  moreover have "used (normalized c) \<or> normalized c \<in> menu_shortcut ` set (d # ds)"
    if "e \<in> set (d # ds)" "\<not> isSeparator e" "menu_shortcut e = NoShortcut" "c \<in> set (it_label e)"
      "isValid c" for e c
    using inv(5)[of e c] that assms(3) by auto
  ultimately show ?thesis
    using inv(1,3,4) assms(2,3) unfolding level_inv_def by auto
qed

lemma level_inv_kept:
  assumes "level_inv used K ds" "isValid (menu_shortcut d)" "used (menu_shortcut d)"
    and "menu_shortcut d \<notin> K"
  shows "level_inv used (insert (menu_shortcut d) K) (d # ds)"
proof -
  note inv = level_invD[OF assms(1)]
  have "menu_shortcut d \<notin> menu_shortcut ` set ds"
    using inv(2)[of "menu_shortcut d"] assms(2-4) by auto
  moreover have "c \<in> insert (menu_shortcut d) K \<or> \<not> used c"
    if "isValid c" "c \<in> menu_shortcut ` set (d # ds)" for c
    using inv(2)[OF that(1)] that by auto
  moreover have "used (normalized c) \<or> normalized c \<in> menu_shortcut ` set (d # ds)"
    if "e \<in> set (d # ds)" "\<not> isSeparator e" "menu_shortcut e = NoShortcut" "c \<in> set (it_label e)"
      "isValid c" for e c
    using inv(5)[of e c] that assms(2) by auto
  ultimately show ?thesis
    using inv(1,3,4) assms(2) unfolding level_inv_def by auto
qed

lemma resolve_conflicts_level:
  assumes "well_marked marked" "\<forall>c\<in>set (kept marked). used c"
  shows "level_inv used (set (kept marked)) (map idata (resolve_conflicts used marked))"
  using assms
proof (induction used marked rule: resolve_conflicts.induct)
  case (1 used)
  then show ?case by (simp add: level_inv_def)
next
  case (2 used f d cs m)
  have wm: "well_marked m" using "2.prems"(1) by (auto simp: well_marked_def)
  show ?case
  proof (cases f)
    case False
    then have "level_inv used (set (kept m)) (map idata (resolve_conflicts used m))"
      using "2.prems"(2) by (intro "2.IH"(2)[OF _ wm]) auto
    then show ?thesis
      using "2.prems" False
      by (cases "isSeparator d")
        (auto simp: well_marked_def isSeparator_shortcut intro: level_inv_none level_inv_kept)
  next
    case True
    obtain used1 d1 where r: "resolve_item used d = (used1, d1)" by force
    have u: "\<forall>c\<in>set (kept m). used c" using "2.prems"(2) by auto
    from r show ?thesis
    proof (cases rule: resolve_item_cases)
      case shortcut
      have "level_inv used1 (set (kept m)) (map idata (resolve_conflicts used1 m))"
        using u by (intro "2.IH"(1)[OF True r[symmetric] refl wm]) (simp add: shortcut(3))
      then show ?thesis
        using level_inv_new[OF _ shortcut(1,2) u] True r by (simp add: shortcut(3))
    next
      case none
      have "level_inv used (set (kept m)) (map idata (resolve_conflicts used m))"
        using "2.IH"(1)[OF True r[symmetric] refl wm] u by (simp add: none(2))
      then show ?thesis
        using level_inv_none[OF _ none(1)] none(2-) True r by simp
    qed
  qed
qed

lemma scan_resolve_level_ok:
  assumes "scan_level (\<lambda>_. False) is = Inr (used, marked)"
  shows "level_ok (map idata (resolve_conflicts used marked))"
proof -
  note scan = scan_level_marks[OF assms]
  then show ?thesis
    using level_invD[OF resolve_conflicts_level[of marked used]]
    unfolding level_ok_def by blast
qed

text \<open>Every level of a menu: the children of a separator are never looked at.\<close>

fun sub_levels_ok :: "YItem list \<Rightarrow> bool" where
  "sub_levels_ok [] \<longleftrightarrow> True"
| "sub_levels_ok (YItem d cs # is) \<longleftrightarrow>
     (isSeparator d \<or> level_ok (map idata cs) \<and> sub_levels_ok cs) \<and> sub_levels_ok is"

definition menu_ok :: "YItem list \<Rightarrow> bool" where
  "menu_ok is \<longleftrightarrow> level_ok (map idata is) \<and> sub_levels_ok is"

lemma resolve_conflicts_sub:
  "sub_levels_ok (resolve_conflicts used marked) = sub_levels_ok (map snd marked)"
  by (induction used marked rule: resolve_conflicts.induct)
    (auto simp: resolve_item_clean(2) split: prod.split)

lemma resolve_conflicts_clean:
  "map_data clean_item (resolve_conflicts used marked) = map_data clean_item (map snd marked)"
  by (induction used marked rule: resolve_conflicts.induct)
    (auto simp: resolve_item_clean(1) split: prod.split)

lemma level_ok_Nil [simp]: "level_ok []"
  by (simp add: level_ok_def)

lemma resolve_total:
  shows "menu_forest is \<Longrightarrow> \<exists>is'. resolveShortcutConflicts is = Inr is' \<and> menu_ok is'
           \<and> map_data clean_item is' = map_data clean_item is"
    and "menu_forest is \<Longrightarrow> \<exists>used' marked. scan_level used is = Inr (used', marked)
           \<and> sub_levels_ok (map snd marked)
           \<and> map_data clean_item (map snd marked) = map_data clean_item is"
proof (induction "is" and used "is" rule: resolveShortcutConflicts_scan_level.induct)
  case (1 "is")
  then obtain used' marked where s: "scan_level (\<lambda>_. False) is = Inr (used', marked)"
    "sub_levels_ok (map snd marked)" "map_data clean_item (map snd marked) = map_data clean_item is"
    by blast
  then show ?case
    using scan_resolve_level_ok[OF s(1)]
    by (simp add: menu_ok_def resolve_conflicts_sub resolve_conflicts_clean)
next
  case (3 used d cs "is")
  show ?case
  proof (cases "isSeparator d")
    case True
    then show ?thesis using 3 by fastforce
  next
    case False
    obtain cs1 where cs1: "(if cs \<noteq> [] then resolveShortcutConflicts cs else return cs) = Inr cs1"
      "menu_ok cs1" "map_data clean_item cs1 = map_data clean_item cs"
    proof (cases "cs = []")
      case True
      then show thesis using that[of "[]"] by (simp add: menu_ok_def)
    next
      case False
      then show thesis using "3.IH"(2) "3.prems" \<open>\<not> isSeparator d\<close> that by auto
    qed
    define ch where "ch = normalized (findShortcut (it_label d) 0)"
    define used1 where "used1 = (if ch = NoShortcut \<or> used ch then used else used(ch := True))"
    have "\<exists>used' marked. scan_level used1 is = Inr (used', marked) \<and> sub_levels_ok (map snd marked)
           \<and> map_data clean_item (map snd marked) = map_data clean_item is"
      unfolding used1_def ch_def
      by (rule "3.IH"(3)[OF _ False cs1(1) refl refl refl]) (use "3.prems" in simp_all)
    then show ?thesis
      using "3.prems" False cs1 
      by (auto simp: bind_result_def used1_def ch_def menu_ok_def Let_def)
  qed
qed auto

text \<open>A menu the resolver has been through is a fixed point of it.\<close>

lemma resolve_item_done:
  assumes "unmark (it_label d) = it_label d"
    and "\<forall>c\<in>set (it_label d). isValid c \<longrightarrow> used (normalized c)"
  shows "resolve_item used d = (used, d)"
proof -
  have "first_unused used (unmark (it_label d)) = None"
    using assms by (simp add: first_unused_None)
  then show ?thesis
    using assms(1) by (simp add: resolve_item_def cleanShortcutString_eq_unmark setItemLabel_def)
qed

definition unmarked_item :: "item_data \<Rightarrow> bool" where
  "unmarked_item d \<longleftrightarrow> \<not> isSeparator d \<and> menu_shortcut d = NoShortcut"

lemma resolve_conflicts_done:
  assumes "\<forall>i\<in>set is. unmarked_item (idata i) \<longrightarrow> unmark (it_label (idata i)) = it_label (idata i)
     \<and> (\<forall>c\<in>set (it_label (idata i)). isValid c \<longrightarrow> used (normalized c))"
  shows "resolve_conflicts used (map (\<lambda>i. (unmarked_item (idata i), i)) is) = is"
  using assms
proof (induction "is")
  case (Cons i "is")
  then show ?case by (cases i) (simp add: resolve_item_done)
qed simp

lemma resolve_fixed:
  shows "menu_forest is \<Longrightarrow> menu_ok is \<Longrightarrow> resolveShortcutConflicts is = Inr is"
    and "menu_forest is \<Longrightarrow> sub_levels_ok is \<Longrightarrow>
      distinct (filter isValid (map (menu_shortcut \<circ> idata) is)) \<Longrightarrow>
      \<forall>i\<in>set is. isValid (menu_shortcut (idata i)) \<longrightarrow> \<not> used (menu_shortcut (idata i)) \<Longrightarrow>
      scan_level used is = Inr (\<lambda>c. used c \<or> isValid c \<and> c \<in> (menu_shortcut \<circ> idata) ` set is,
        map (\<lambda>i. (unmarked_item (idata i), i)) is)"
proof (induction "is" and used "is" rule: resolveShortcutConflicts_scan_level.induct)
  case (1 "is")
  note ok = "1.prems"(2)[unfolded menu_ok_def level_ok_def]
  have "scan_level (\<lambda>_. False) is = Inr (\<lambda>c. False \<or> isValid c \<and> c \<in> (menu_shortcut \<circ> idata) ` set is,
        map (\<lambda>i. (unmarked_item (idata i), i)) is)"
    using ok "1.prems"(1) by (intro "1.IH") (simp_all add: comp_def)
  moreover have "resolve_conflicts (\<lambda>c. False \<or> isValid c \<and> c \<in> (menu_shortcut \<circ> idata) ` set is)
      (map (\<lambda>i. (unmarked_item (idata i), i)) is) = is"
    by (rule resolve_conflicts_done) (use ok in \<open>auto simp: unmarked_item_def image_image\<close>)
  ultimately show ?case by simp
next
  case (3 used d cs "is")
  show ?case
  proof (cases "isSeparator d")
    case True
    then show ?thesis
      using 3 by (auto simp: isSeparator_shortcut unmarked_item_def)
  next
    case False
    have cs: "(if cs \<noteq> [] then resolveShortcutConflicts cs else return cs) = Inr cs"
      using "3.IH"(2) "3.prems" False by (auto simp: menu_ok_def)
    define ch where "ch = normalized (findShortcut (it_label d) 0)"
    have ch: "menu_shortcut d = ch" by (simp add: ch_def menu_shortcut_def label_shortcut_def)
    have conf: "(ch = NoShortcut \<or> used ch) = unmarked_item d"
      using "3.prems"(4) False ch by (auto simp: unmarked_item_def menu_shortcut_valid)
    define used1 where "used1 = (if ch = NoShortcut \<or> used ch then used else used(ch := True))"
    have fresh: "menu_shortcut (idata i) \<noteq> ch" if "isValid ch" "i \<in> set is" for i
      using "3.prems"(3) that by (auto simp: ch image_iff)
    have "scan_level used1 is = Inr (\<lambda>c. used1 c \<or> isValid c \<and> c \<in> (menu_shortcut \<circ> idata) ` set is,
        map (\<lambda>i. (unmarked_item (idata i), i)) is)"
      unfolding used1_def ch_def
    proof (rule "3.IH"(3)[OF _ False cs refl refl refl])
    qed (use "3.prems" ch fresh in \<open>auto simp: ch_def[symmetric] split: if_splits\<close>)
    moreover have "(\<lambda>c. used1 c \<or> isValid c \<and> c \<in> (menu_shortcut \<circ> idata) ` set is)
      = (\<lambda>c. used c \<or> isValid c \<and> c \<in> (menu_shortcut \<circ> idata) ` set (YItem d cs # is))"
      using menu_shortcut_valid[of d] by (auto simp: used1_def ch)
    ultimately show ?thesis
      using "3.prems"(1) False cs
      by (cases "unmarked_item d") (simp_all add: ch_def[symmetric] conf used1_def Let_def)
  qed
qed simp

section \<open>The life of a menu\<close>

lemma clean_forest_frames:
  assumes "map_data clean_item is' = map_data clean_item is"
  shows "serials is' = serials is" "menu_forest is' = menu_forest is"
  using serials_map_data[of clean_item is'] serials_map_data[of clean_item "is"]
    menu_forest_map_data[of clean_item is'] menu_forest_map_data[of clean_item "is"] assms
  by simp_all

lemma mw_resolve_numbered:
  assumes "mw_numbered m" "menu_forest (mw_items m)"
  obtains m' where "mw_resolveShortcutConflicts m = Inr m'" "mw_numbered m'"
    "menu_forest (mw_items m')" "all_numbered (mw_items m') = all_numbered (mw_items m)"
proof -
  obtain is' where "resolveShortcutConflicts (mw_items m) = Inr is'"
    "map_data clean_item is' = map_data clean_item (mw_items m)"
    using resolve_total(1)[OF assms(2)] by blast
  with clean_forest_frames[OF this(2)] assms show thesis
    by (intro that[of "set_mw_items is' m"])
      (simp_all add: mw_resolveShortcutConflicts_def mw_numbered_def all_numbered_def)
qed

lemma mw_select_numbered:
  assumes "mw_numbered m" "selectItem item sel (mw_selection m) = Inr w"
  shows "mw_numbered (m\<lparr>mw_selection := w\<rparr>) \<and> all_numbered (sw_items w) = all_numbered (mw_items m)
    \<and> menu_forest (sw_items w) = menu_forest (mw_items m)"
proof -
  note m = assms(1)[unfolded mw_numbered_def]
  have "it_id (idata item) \<in> set (item_ids (mw_items m))"
    using assms(2) selectItem_foreign[of item "mw_selection m" sel] by fastforce
  then have "w = selectById (it_id (idata item)) sel (mw_selection m)"
    using selectItem_flat[of item "mw_selection m" sel] assms(2) m by simp
  then have w: "m\<lparr>mw_selection := w\<rparr> = set_mw_items (map_data
      (\<lambda>d. if it_id d = it_id (idata item) then setSelected sel d else d) (mw_items m)) m"
    by (simp add: selectById_def on_item_def)
  have "mw_numbered (m\<lparr>mw_selection := w\<rparr>) \<and> all_numbered (mw_items (m\<lparr>mw_selection := w\<rparr>)) = all_numbered (mw_items m)
      \<and> menu_forest (mw_items (m\<lparr>mw_selection := w\<rparr>)) = menu_forest (mw_items m)"
    unfolding w using mw_numbered_map_data[OF assms(1)] by simp
  then show ?thesis by simp
qed

text \<open>
  Every use of the public interface of the widget, and of \<^verbatim>\<open>YMenuItem::addItem\<close> and its relatives on
  items of the widget, with menu items only. The flag tells whether all items were added through the
  widget, alone or as children of the item that was added.
\<close>

inductive menu_life :: "bool \<Rightarrow> YMenuWidget \<Rightarrow> bool" where
  created: "new_YMenuWidget label = Inr m \<Longrightarrow> menu_life True m"
| added: "menu_life whole m \<Longrightarrow> menu_forest [item] \<Longrightarrow> mw_addItem item m = Inr m' \<Longrightarrow> menu_life whole m'"
| added_all: "menu_life whole m \<Longrightarrow> menu_forest is \<Longrightarrow> mw_addItems is m = Inr m' \<Longrightarrow> menu_life whole m'"
| grown: "menu_life whole m \<Longrightarrow> menu_life False (menuitem_addItem p i label icon m)"
| resolved: "menu_life whole m \<Longrightarrow> mw_resolveShortcutConflicts m = Inr m' \<Longrightarrow> menu_life whole m'"
| selects: "menu_life whole m \<Longrightarrow> selectItem item sel (mw_selection m) = Inr w \<Longrightarrow>
    menu_life whole (m\<lparr>mw_selection := w\<rparr>)"
| enabled: "menu_life whole m \<Longrightarrow> menu_life whole (setItemEnabled i b m)"
| visible: "menu_life whole m \<Longrightarrow> menu_life whole (setItemVisible i b m)"
| deleted: "menu_life whole m \<Longrightarrow> menu_life True (mw_deleteAllItems m)"

lemma menu_life_numbered:
  assumes "menu_life whole m"
  shows "mw_numbered m \<and> menu_forest (mw_items m) \<and> (whole \<longrightarrow> all_numbered (mw_items m))"
  using assms
proof induction
  case (created label m)
  then show ?case
    by (auto simp: new_YMenuWidget_def new_YSelectionWidget_def mw_numbered_def all_numbered_def)
next
  case (added whole m item m')
  then show ?case using mw_addItem_numbered[of m item m'] by simp
next
  case (added_all whole m "is" m')
  then obtain m1 where m1: "mw_addItem_all is m = Inr m1" "mw_resolveShortcutConflicts m1 = Inr m'"
    by (auto simp: mw_addItems_def bind_result_Inr_iff)
  have "mw_numbered m1" "menu_forest (mw_items m1)" "whole \<longrightarrow> all_numbered (mw_items m1)"
    using mw_addItem_all_numbered[OF _ m1(1)] added_all by simp_all
  then show ?case
    using mw_resolve_numbered[of m1] m1(2) by (metis sum.inject(2))
next
  case (grown whole m p i label icon)
  then show ?case using menuitem_addItem_numbered[of m p i label icon] by simp
next
  case (resolved whole m m')
  then show ?case using mw_resolve_numbered[of m] by (metis sum.inject(2))
next
  case (selects whole m item sel w)
  then show ?case using mw_select_numbered[of m item sel w] by simp
next
  case (deleted whole m)
  then show ?case by (simp add: mw_numbered_def mw_deleteAllItems_def deleteAllItems_def all_numbered_def)
qed (simp_all add: setItemEnabled_numbered setItemVisible_numbered)

text \<open>The items that have a number, in depth-first order.\<close>

definition numbered_items :: "YMenuWidget \<Rightarrow> YItem list" where
  "numbered_items m = filter (\<lambda>i. it_index (idata i) \<noteq> -1) (allItems (mw_items m))"

lemma numbered_items_index:
  assumes "mw_numbered m"
  shows "map (\<lambda>i. it_index (idata i)) (numbered_items m) = [1..mw_nextSerialNo m]"
    "int (length (numbered_items m)) = mw_nextSerialNo m"
proof -
  show num: "map (\<lambda>i. it_index (idata i)) (numbered_items m) = [1..mw_nextSerialNo m]"
    using assms by (simp add: mw_numbered_def numbered_items_def serials_def filter_map comp_def)
  show "int (length (numbered_items m)) = mw_nextSerialNo m"
    using arg_cong[OF num, of length] assms by (simp add: mw_numbered_def)
qed

text \<open>
  C18: Through every use of a menu widget with menu items, \<^verbatim>\<open>findMenuItem\<close> is the inverse of the
  numbering: the index \<open>k\<close> finds the \<open>k\<close>-th of the items that have a number, in depth-first order,
  counted from 1. If all items were added through the widget, alone or as children of the item that was
  added, all of them have a number. Items added later with \<^verbatim>\<open>YMenuItem::addItem\<close>, \<^verbatim>\<open>addMenu\<close> or
  \<^verbatim>\<open>addSeparator\<close> to an item of the widget have none: they all keep the index -1, under which only the
  first of them is found. Every other index finds nothing.
\<close>

theorem findMenuItem_serial:
  assumes "menu_life whole m"
  shows "findMenuItem k m =
     (if 1 \<le> k \<and> k \<le> int (length (numbered_items m)) then Some (numbered_items m ! nat (k - 1))
      else if k = -1 then List.find (\<lambda>i. i \<notin> set (numbered_items m)) (allItems (mw_items m)) else None)
   \<and> (whole \<longrightarrow> numbered_items m = allItems (mw_items m))"
proof -
  let ?is = "allItems (mw_items m)"
  have ok: "mw_numbered m" "menu_forest (mw_items m)" "whole \<longrightarrow> all_numbered (mw_items m)"
    using menu_life_numbered[OF assms] by simp_all
  note num = numbered_items_index[OF ok(1)]
  have find: "findMenuItem k m = List.find (\<lambda>i. it_index (idata i) = k) ?is"
    using ok(2) by (simp add: findMenuItem_def findMenuItem_find)
  have find': "findMenuItem k m = List.find (\<lambda>i. it_index (idata i) = k) (numbered_items m)" if "k \<noteq> -1"
    unfolding find numbered_items_def by (rule find_filter[symmetric]) (use that in simp)
  have "whole \<longrightarrow> numbered_items m = ?is"
    using ok(3) by (force simp: numbered_items_def all_numbered_def serials_def filter_id_conv)
  moreover consider "1 \<le> k \<and> k \<le> int (length (numbered_items m))" | "k = -1"
    | "\<not> (1 \<le> k \<and> k \<le> int (length (numbered_items m)))" "k \<noteq> -1" by blast
  then have "findMenuItem k m =
     (if 1 \<le> k \<and> k \<le> int (length (numbered_items m)) then Some (numbered_items m ! nat (k - 1))
      else if k = -1 then List.find (\<lambda>i. i \<notin> set (numbered_items m)) ?is else None)"
  proof cases
    case 1
    then have "nat (k - 1) < length (numbered_items m)" "[1..mw_nextSerialNo m] ! nat (k - 1) = k"
      by (auto simp: num(2)[symmetric] nth_upto)
    then show ?thesis using find_key_nth[OF num(1) distinct_upto, of "nat (k - 1)"] 1 find' by simp
  next
    case 2
    have "List.find (\<lambda>i. it_index (idata i) = -1) ?is = List.find (\<lambda>i. i \<notin> set (numbered_items m)) ?is"
      by (rule find_cong) (simp_all add: numbered_items_def)
    then show ?thesis using 2 find by simp
  next
    case 3
    then have "k \<notin> set (map (\<lambda>i. it_index (idata i)) (numbered_items m))" unfolding num(1) by (simp add: num(2))
    then have "findMenuItem k m = None" unfolding find'[OF 3(2)] find_None_iff by auto
    then show ?thesis using 3 by auto
  qed
  ultimately show ?thesis by blast
qed

text \<open>
  C8: On menu items the resolver always returns. It changes nothing but the markers of labels;
  on every level it visits no two items are left with the same shortcut; an item is left without one
  only when its siblings use up all characters of its label; and resolving again changes nothing. The
  levels it visits are the top level and those below items with a label: an item with an empty label
  is a separator, and what is below it is left alone.
\<close>

theorem resolveShortcutConflicts_spec:
  assumes "menu_forest is"
  shows "\<exists>is'. resolveShortcutConflicts is = Inr is' \<and> menu_ok is'
     \<and> map_data clean_item is' = map_data clean_item is
     \<and> resolveShortcutConflicts is' = Inr is'"
proof -
  obtain is' where r: "resolveShortcutConflicts is = Inr is'" "menu_ok is'"
    "map_data clean_item is' = map_data clean_item is"
    using resolve_total(1)[OF assms] by blast
  moreover have "menu_forest is'" using clean_forest_frames[OF r(3)] assms by simp
  ultimately show ?thesis using resolve_fixed(1) by blast
qed

section \<open>Paths\<close>

text \<open>The items a path of labels leads to.\<close>

fun at_path :: "string list \<Rightarrow> YItem list \<Rightarrow> YItem list" where
  "at_path [] is = []"
| "at_path [p] is = filter (\<lambda>i. it_label (idata i) = p) is"
| "at_path (p # q # path) is =
     concat (map (\<lambda>i. if it_label (idata i) = p then at_path (q # path) (ichildren i) else []) is)"

fun distinct_labels :: "YItem list \<Rightarrow> bool" where
  "distinct_labels [] \<longleftrightarrow> True"
| "distinct_labels (YItem d cs # is) \<longleftrightarrow>
     it_label d \<notin> set (map (it_label \<circ> idata) is) \<and> distinct_labels cs \<and> distinct_labels is"

lemma at_path_skip:
  "path \<noteq> [] \<Longrightarrow> it_label (idata i) \<noteq> hd path \<Longrightarrow> at_path path (i # is) = at_path path is"
  by (cases path rule: remdups_adj.cases) simp_all

lemma at_path_none:
  "hd path \<notin> set (map (it_label \<circ> idata) is) \<Longrightarrow> at_path path is = []"
  by (cases path rule: remdups_adj.cases) (auto simp: filter_empty_conv)

lemma at_path_head:
  assumes "it_label d = p" "p \<notin> set (map (it_label \<circ> idata) is)"
  shows "at_path (p # path) (YItem d cs # is) = (if path = [] then [YItem d cs] else at_path path cs)"
  using assms at_path_none[of "p # path" "is"] by (cases path) auto

definition tree_forest :: "YItem list \<Rightarrow> bool" where
  "tree_forest is \<longleftrightarrow> list_all (isTreeItem \<circ> idata) (allItems is)"

lemma tree_forest_simps [simp]:
  "tree_forest []"
  "tree_forest (YItem d cs # is) \<longleftrightarrow> isTreeItem d \<and> tree_forest cs \<and> tree_forest is"
  by (simp_all add: tree_forest_def)

lemma tree_findItem_at_path:
  assumes "distinct_labels is" "tree_forest is" "x \<in> set (at_path path is)"
  shows "tree_findItem path is = Inr (Some x)"
  using assms
proof (induction path "is" rule: tree_findItem.induct)
  case (1 path)
  then show ?case by (cases path rule: remdups_adj.cases) simp_all
next
  case (2 path d cs "is")
  obtain p path1 where path: "path = p # path1" using "2.prems"(3) by (cases path) auto
  show ?case
  proof (cases "it_label d = p")
    case True
    then show ?thesis
      using "2.prems" "2.IH"(1)[of p path1] path
      by (simp add: at_path_head split: if_splits)
  next
    case False
    then show ?thesis
      using "2.prems" "2.IH"(3)[of p path1] path by (simp add: at_path_skip)
  qed
qed

lemma mw_findItem_at_path:
  assumes "distinct_labels is" "menu_forest is" "x \<in> set (at_path path is)" "ichildren x = []"
  shows "mw_findItem path is = Inr (Some x)"
  using assms
proof (induction path "is" rule: mw_findItem.induct)
  case (1 path)
  then show ?case by (cases path rule: remdups_adj.cases) simp_all
next
  case (2 path d cs "is")
  obtain p path1 where path: "path = p # path1" using "2.prems"(3) by (cases path) auto
  show ?case
  proof (cases "it_label d = p")
    case True
    then show ?thesis
      using "2.prems" "2.IH"(2)[of p path1] path
      by (auto simp add: at_path_head split: if_splits)
  next
    case False
    then show ?thesis
      using "2.prems" "2.IH"(4)[of p path1] path by (simp add: at_path_skip)
  qed
qed

text \<open>
  C32: When no two siblings share a label, both searches by path find the item the path leads to:
  the tree any item, the menu any item without a submenu. The item is the only one of that path.
\<close>

theorem findItem_path_found:
  assumes "distinct_labels is" "x \<in> set (at_path path is)"
  shows "(tree_forest is \<longrightarrow> tree_findItem path is = Inr (Some x))
     \<and> (menu_forest is \<and> \<not> hasChildren x \<longrightarrow> mw_findItem path is = Inr (Some x))"
  using tree_findItem_at_path[OF assms(1) _ assms(2)] mw_findItem_at_path[OF assms(1) _ assms(2)]
  by (simp add: hasChildren_def)

text \<open>Menu items for the examples.\<close>

definition menu_item :: "nat \<Rightarrow> string \<Rightarrow> YItem list \<Rightarrow> YItem" where
  "menu_item i l cs = YItem (new_item_data i ClsMenuItem l [] False) cs"

definition file_menu :: YItem where
  "file_menu =
     menu_item 1 ''File'' [menu_item 2 ''Open'' [], menu_item 3 [] [],
                           menu_item 4 ''Recent'' [menu_item 5 ''Open'' []]]"

lemmas menu_examples = menu_item_def file_menu_def new_item_data_def isMenuItem_def isTreeItem_def
  menu_forest_def tree_forest_def

theorem findItem_path_found_witness:
  "tree_findItem [''File'', ''Recent'', ''Open''] [file_menu] = Inr (Some (menu_item 5 ''Open'' []))
   \<and> mw_findItem [''File'', ''Recent'', ''Open''] [file_menu] = Inr (Some (menu_item 5 ''Open'' []))"
  using findItem_path_found[of "[file_menu]" "menu_item 5 ''Open'' []" "[''File'', ''Recent'', ''Open'']"]
  by (simp add: menu_examples hasChildren_def)

text \<open>The searches for a single label.\<close>

lemma tree_findItem_single:
  "tree_forest is \<Longrightarrow> tree_findItem [b] is = Inr (List.find (\<lambda>i. it_label (idata i) = b) is)"
  by (induction "[b]" "is" rule: tree_findItem.induct) auto

lemma mw_findItem_single:
  "menu_forest is \<Longrightarrow>
     mw_findItem [b] is = Inr (List.find (\<lambda>i. it_label (idata i) = b \<and> \<not> hasChildren i) is)"
  by (induction "[b]" "is" rule: mw_findItem.induct) (auto simp: hasChildren_def)

lemma findItem_skip:
  assumes "a \<notin> set (map (it_label \<circ> idata) pre)"
  shows "tree_forest pre \<Longrightarrow> tree_findItem (a # path) (pre @ is) = tree_findItem (a # path) is"
    "menu_forest pre \<Longrightarrow> mw_findItem (a # path) (pre @ is) = mw_findItem (a # path) is"
    "at_path (a # b # path) (pre @ is) = at_path (a # b # path) is"
  using assms
proof (induction pre)
  case (Cons i pre)
  {
    case 1
    then show ?case using Cons.IH(1) by (cases i) auto
  next
    case 2
    then show ?case using Cons.IH(2) by (cases i) auto
  next
    case 3
    then show ?case using Cons.IH(3) by auto
  }
qed simp_all

text \<open>
  C40: The search by path is neither sound nor complete when labels are not unique or an item is
  missing. Descending advances the path of the loop itself: if the first item labelled \<open>a\<close> has no child
  labelled \<open>b\<close>, the search for the path \<open>a, b\<close> goes on to look for the label \<open>b\<close> alone among the later
  siblings of that item. It returns the first of them that is labelled \<open>b\<close> (and has no children, in a
  menu), although such an item does not have this path, and it returns nothing if there is none,
  although the items that do have the path may be below a later sibling labelled \<open>a\<close>. Both classes that
  implement the search do this, for all labels and items.
\<close>

theorem findItem_path_wrong:
  assumes "a \<notin> set (map (it_label \<circ> idata) pre)" "it_label d = a" "b \<notin> set (map (it_label \<circ> idata) cs)"
  shows "(tree_forest (pre @ YItem d cs # rest) \<longrightarrow>
       tree_findItem [a, b] (pre @ YItem d cs # rest) = Inr (List.find (\<lambda>i. it_label (idata i) = b) rest))
    \<and> (menu_forest (pre @ YItem d cs # rest) \<longrightarrow>
       mw_findItem [a, b] (pre @ YItem d cs # rest)
         = Inr (List.find (\<lambda>i. it_label (idata i) = b \<and> \<not> hasChildren i) rest))
    \<and> at_path [a, b] (pre @ YItem d cs # rest) = at_path [a, b] rest"
proof -
  have none: "List.find (\<lambda>i. it_label (idata i) = b) cs = None"
    "List.find (\<lambda>i. it_label (idata i) = b \<and> \<not> hasChildren i) cs = None"
    "filter (\<lambda>i. it_label (idata i) = b) cs = []"
    using assms(3) by (auto simp: find_None_iff filter_empty_conv)
  have "tree_forest (pre @ YItem d cs # rest) \<longrightarrow>
      tree_findItem [a, b] (pre @ YItem d cs # rest) = Inr (List.find (\<lambda>i. it_label (idata i) = b) rest)"
    using findItem_skip(1)[OF assms(1)] assms(2) none(1) by (auto simp: tree_forest_def tree_findItem_single)
  moreover have "menu_forest (pre @ YItem d cs # rest) \<longrightarrow> mw_findItem [a, b] (pre @ YItem d cs # rest)
      = Inr (List.find (\<lambda>i. it_label (idata i) = b \<and> \<not> hasChildren i) rest)"
    using findItem_skip(2)[OF assms(1)] assms(2) none(2) by (auto simp: mw_findItem_single)
  moreover have "at_path [a, b] (pre @ YItem d cs # rest) = at_path [a, b] rest"
    unfolding findItem_skip(3)[OF assms(1)] using assms(2) none(3) by simp
  ultimately show ?thesis by blast
qed

theorem findItem_path_wrong_witness:
  "tree_findItem [''Edit'', ''Find''] [menu_item 1 ''Edit'' [menu_item 2 ''Copy'' []], menu_item 3 ''Find'' []]
     = Inr (Some (menu_item 3 ''Find'' []))
   \<and> mw_findItem [''Edit'', ''Find''] [menu_item 1 ''Edit'' [menu_item 2 ''Copy'' []], menu_item 3 ''Find'' []]
     = Inr (Some (menu_item 3 ''Find'' []))
   \<and> at_path [''Edit'', ''Find''] [menu_item 1 ''Edit'' [menu_item 2 ''Copy'' []], menu_item 3 ''Find'' []] = []
   \<and> mw_findItem [''Edit'', ''Find'']
       [menu_item 1 ''Edit'' [menu_item 2 ''Copy'' []], menu_item 3 ''Edit'' [menu_item 4 ''Find'' []]] = Inr None
   \<and> at_path [''Edit'', ''Find'']
       [menu_item 1 ''Edit'' [menu_item 2 ''Copy'' []], menu_item 3 ''Edit'' [menu_item 4 ''Find'' []]]
     = [menu_item 4 ''Find'' []]"
  using findItem_path_wrong[of "''Edit''" "[]" "new_item_data 1 ClsMenuItem ''Edit'' [] False" "''Find''" "[menu_item 2 ''Copy'' []]"
      "[menu_item 3 ''Find'' []]"]
    findItem_path_wrong[of "''Edit''" "[]" "new_item_data 1 ClsMenuItem ''Edit'' [] False" "''Find''" "[menu_item 2 ''Copy'' []]"
      "[menu_item 3 ''Edit'' [menu_item 4 ''Find'' []]]"]
  by (simp add: menu_examples hasChildren_def)

section \<open>Examples\<close>

definition empty_menu :: YMenuWidget where
  "empty_menu =
     \<lparr>mw_selection = \<lparr>sw_label = ''Menu'', sw_enforceSingleSelection = False,
        sw_enforceInitialSelection = True, sw_recursiveSelection = False, sw_iconBasePath = [],
        sw_items = []\<rparr>, mw_nextSerialNo = 0\<rparr>"

definition example_menu :: YMenuWidget where
  "example_menu = (case mw_addItem file_menu empty_menu of Inr m \<Rightarrow> m | Inl e \<Rightarrow> empty_menu)"

lemma example_menu_life: "menu_life True example_menu"
proof -
  have "menu_life True empty_menu"
    by (rule menu_life.created[of "''Menu''"])
      (simp add: new_YMenuWidget_def new_YSelectionWidget_def empty_menu_def)
  moreover have "mw_addItem file_menu empty_menu = Inr example_menu"
    by (simp add: example_menu_def empty_menu_def menu_examples mw_addItem_def addItem_def
        hasChildren_def)
  moreover have "menu_forest [file_menu]" by (simp add: menu_examples)
  ultimately show ?thesis by (blast intro: menu_life.added)
qed

text \<open>Two items added to the menu that is already in the widget.\<close>

definition grown_menu :: YMenuWidget where
  "grown_menu = menuitem_addItem 1 7 ''Quit'' [] (menuitem_addItem 4 6 ''Clear'' [] example_menu)"

lemma grown_menu_life: "menu_life False grown_menu"
  unfolding grown_menu_def by (rule menu_life.grown[OF menu_life.grown[OF example_menu_life]])

theorem findMenuItem_serial_witness:
  "map_option (it_id \<circ> idata) (findMenuItem 5 example_menu) = Some 5 \<and> findMenuItem 8 example_menu = None
   \<and> map_option (it_id \<circ> idata) (findMenuItem 5 grown_menu) = Some 5
   \<and> map_option (it_id \<circ> idata) (findMenuItem (-1) grown_menu) = Some 6 \<and> findMenuItem 6 grown_menu = None"
proof -
  have "map (it_id \<circ> idata) (numbered_items example_menu) = [1, 2, 3, 4, 5]"
    "map (it_id \<circ> idata) (numbered_items grown_menu) = [1, 2, 3, 4, 5]"
    by (code_simp, code_simp)
  then have ids: "length (numbered_items example_menu) = 5" "it_id (idata (numbered_items example_menu ! 4)) = 5"
    "length (numbered_items grown_menu) = 5" "it_id (idata (numbered_items grown_menu ! 4)) = 5"
    by (auto simp: map_eq_Cons_conv)
  have first: "map_option (it_id \<circ> idata) (List.find (\<lambda>i. i \<notin> set (numbered_items grown_menu)) (allItems (mw_items grown_menu)))
      = Some 6" by code_simp
  show ?thesis
    using conjunct1[OF findMenuItem_serial[OF example_menu_life, of 5]]
      conjunct1[OF findMenuItem_serial[OF example_menu_life, of 8]]
      conjunct1[OF findMenuItem_serial[OF grown_menu_life, of 5]]
      conjunct1[OF findMenuItem_serial[OF grown_menu_life, of "-1"]]
      conjunct1[OF findMenuItem_serial[OF grown_menu_life, of 6]] first by (simp add: ids)
qed

theorem resolveShortcutConflicts_spec_witness:
  "\<exists>is'. resolveShortcutConflicts [file_menu] = Inr is' \<and> menu_ok is'
     \<and> map_data clean_item is' = map_data clean_item [file_menu]
     \<and> resolveShortcutConflicts is' = Inr is'"
  by (rule resolveShortcutConflicts_spec) (simp add: menu_examples)

end
