(* ===== verification/Yui_StringTree.thy ===== *)
theory Yui_StringTree
  imports Yui_Prelude "HOL-Library.List_Lexorder" "HOL-Library.Char_ord"
begin

text \<open>
  The trees of texts (\<^verbatim>\<open>YTransText.h\<close>, \<^verbatim>\<open>TreeItem.h\<close>, \<^verbatim>\<open>YStringTree.cc\<close>): items linked by parent,
  first-child and next-sibling pointers in an explicit store, insertion of a child in sort order
  by walking the sibling list, and branches added from a path with delimiters. The theory shows that
  the pointers always form sorted sibling lists in which every loop of the code ends, that the
  path of the item a branch returns is the path it was added with, and that adding a branch
  again changes nothing.
\<close>

section \<open>Data\<close>

record YTransText =
  tt_orig :: string
  tt_trans :: string

text \<open>The comparisons of \<^verbatim>\<open>YTransText\<close> look at the translation only.\<close>

definition tt_less :: "YTransText \<Rightarrow> YTransText \<Rightarrow> bool" where
  "tt_less a b \<longleftrightarrow> tt_trans a < tt_trans b"

definition tt_equal :: "YTransText \<Rightarrow> YTransText \<Rightarrow> bool" where
  "tt_equal a b \<longleftrightarrow> tt_trans a = tt_trans b"

record tree_item =
  ti_value :: YTransText
  ti_parent :: "nat option"
  ti_next :: "nat option"
  ti_firstChild :: "nat option"

type_synonym item_store = "nat \<rightharpoonup> tree_item"

text \<open>The tree object, with the store its items live in and the next address \<^verbatim>\<open>new\<close> returns.\<close>

record YStringTree =
  st_root :: nat
  st_items :: item_store
  st_fresh :: nat

section \<open>Operations of the items\<close>

abbreviation bad_pointer :: "'a run" where
  "bad_pointer \<equiv> Some (throw (undefined_behaviour ''dangling TreeItem pointer''))"

definition setNext :: "nat \<Rightarrow> nat option \<Rightarrow> item_store \<Rightarrow> item_store" where
  "setNext a n h = h(a := map_option (\<lambda>it. it\<lparr>ti_next := n\<rparr>) (h a))"

definition setFirstChild :: "nat \<Rightarrow> nat option \<Rightarrow> item_store \<Rightarrow> item_store" where
  "setFirstChild a c h = h(a := map_option (\<lambda>it. it\<lparr>ti_firstChild := c\<rparr>) (h a))"

text \<open>The loop of \<^verbatim>\<open>insertChildSorted\<close> that looks for the item to insert after.\<close>

partial_function (option) insert_place :: "item_store \<Rightarrow> YTransText \<Rightarrow> nat \<Rightarrow> nat run" where
  "insert_place h v child =
     (case h child of
        None \<Rightarrow> bad_pointer
      | Some it \<Rightarrow>
          (case ti_next it of
             None \<Rightarrow> Some (return child)
           | Some n \<Rightarrow>
               (case h n of
                  None \<Rightarrow> bad_pointer
                | Some nit \<Rightarrow>
                    if tt_less (ti_value nit) v then insert_place h v n else Some (return child))))"

definition insertChildSorted :: "nat \<Rightarrow> nat \<Rightarrow> item_store \<Rightarrow> item_store run" where
  "insertChildSorted this newChild h =
     (case (h this, h newChild) of
        (Some it, Some nit) \<Rightarrow>
          (case ti_firstChild it of
             None \<Rightarrow> Some (return (setFirstChild this (Some newChild) (setNext newChild None h)))
           | Some f \<Rightarrow>
               (case h f of
                  None \<Rightarrow> bad_pointer
                | Some fit \<Rightarrow>
                    if tt_less (ti_value nit) (ti_value fit)
                    then Some (return
                           (setFirstChild this (Some newChild) (setNext newChild (Some f) h)))
                    else bind_run (insert_place h (ti_value nit) f)
                           (\<lambda>child. case h child of
                              None \<Rightarrow> bad_pointer
                            | Some cit \<Rightarrow>
                                Some (return
                                  (setNext child (Some newChild) (setNext newChild (ti_next cit) h))))))
      | _ \<Rightarrow> bad_pointer)"

text \<open>The constructor of \<^verbatim>\<open>SortedTreeItem\<close> with a parent.\<close>

definition new_SortedTreeItem :: "YTransText \<Rightarrow> nat \<Rightarrow> YStringTree \<Rightarrow> (nat \<times> YStringTree) run" where
  "new_SortedTreeItem v p st =
     (let a = st_fresh st;
          h = (st_items st)(a \<mapsto> \<lparr>ti_value = v, ti_parent = Some p, ti_next = None,
                                  ti_firstChild = None\<rparr>)
      in bind_run (insertChildSorted p a h)
           (\<lambda>h1. Some (return (a, st\<lparr>st_items := h1, st_fresh := Suc a\<rparr>))))"

partial_function (option) find_child ::
    "item_store \<Rightarrow> YTransText \<Rightarrow> nat option \<Rightarrow> nat option run" where
  "find_child h v child =
     (case child of
        None \<Rightarrow> Some (return None)
      | Some c \<Rightarrow>
          (case h c of
             None \<Rightarrow> bad_pointer
           | Some it \<Rightarrow>
               if tt_equal (ti_value it) v then Some (return (Some c))
               else find_child h v (ti_next it)))"

definition findDirectChild :: "item_store \<Rightarrow> nat \<Rightarrow> YTransText \<Rightarrow> nat option run" where
  "findDirectChild h item v =
     (case h item of None \<Rightarrow> bad_pointer | Some it \<Rightarrow> find_child h v (ti_firstChild it))"

section \<open>Operations of the tree\<close>

text \<open>
  \<open>gettext\<close> and the \<^verbatim>\<open>dgettext\<close> of the tree's text domain are the translations of the system:
  parameters of the model.
\<close>

definition new_YStringTree :: "(string \<Rightarrow> string) \<Rightarrow> YStringTree" where
  "new_YStringTree gettext =
     \<lparr>st_root = 0,
      st_items = [0 \<mapsto> \<lparr>ti_value = \<lparr>tt_orig = ''<root>'', tt_trans = gettext ''<root>''\<rparr>,
                        ti_parent = None, ti_next = None, ti_firstChild = None\<rparr>],
      st_fresh = 1\<rparr>"

definition translated :: "(string \<Rightarrow> string) \<Rightarrow> string \<Rightarrow> YTransText" where
  "translated dgettext s = \<lparr>tt_orig = s, tt_trans = dgettext s\<rparr>"

text \<open>The two inner loops of \<^verbatim>\<open>addBranch\<close>, which advance a position.\<close>

function skip_while :: "(char \<Rightarrow> bool) \<Rightarrow> string \<Rightarrow> nat \<Rightarrow> nat" where
  "skip_while P s i = (if i < length s \<and> P (s ! i) then skip_while P s (Suc i) else i)"
  by pat_completeness auto
termination
  by (relation "measure (\<lambda>(P, s, i). length s - i)") auto

declare skip_while.simps [simp del]

lemma skip_while_ge: "i \<le> skip_while P s i"
proof (induction P s i rule: skip_while.induct)
  case (1 P s i)
  then show ?case by (subst skip_while.simps) (auto dest: Suc_leD)
qed

lemma skip_while_drop:
  "drop (skip_while P s i) s = dropWhile P (drop i s) \<and> take (skip_while P s i - i) (drop i s) = takeWhile P (drop i s)"
proof (induction P s i rule: skip_while.induct)
  case (1 P s i)
  show ?case
  proof (cases "i < length s \<and> P (s ! i)")
    case True
    note IH = 1[OF True]
    have "skip_while P s i - i = Suc (skip_while P s (Suc i) - Suc i)"
      using True skip_while_ge[of "Suc i" P s] by (simp add: skip_while.simps[of P s i])
    moreover have "drop i s = s ! i # drop (Suc i) s" using True by (simp add: Cons_nth_drop_Suc)
    ultimately show ?thesis using IH True by (simp add: skip_while.simps[of P s i])
  next
    case False
    then show ?thesis
    proof (cases "i < length s")
      case True
      then have "drop i s = s ! i # drop (Suc i) s" by (simp add: Cons_nth_drop_Suc)
      then show ?thesis using False True by (simp add: skip_while.simps[of P s i])
    qed (simp add: skip_while.simps[of P s i])
  qed
qed

lemma skip_twice:
  assumes "i < length s"
  shows "i < skip_while (\<lambda>c. c \<noteq> d) s (skip_while (\<lambda>c. c = d) s i)"
proof (cases "s ! i = d")
  case True
  then have "Suc i \<le> skip_while (\<lambda>c. c = d) s i"
    using assms skip_while_ge[of "Suc i" "\<lambda>c. c = d" s] by (simp add: skip_while.simps[of _ s i])
  then show ?thesis
    using skip_while_ge[of "skip_while (\<lambda>c. c = d) s i" "\<lambda>c. c \<noteq> d" s] by simp
next
  case False
  then have "skip_while (\<lambda>c. c = d) s i = i" by (simp add: skip_while.simps)
  then show ?thesis
    using assms False skip_while_ge[of "Suc i" "\<lambda>c. c \<noteq> d" s]
    by (simp add: skip_while.simps[of _ s i])
qed

text \<open>One path component: the child with this text, or a new one.\<close>

definition add_component :: "YTransText \<Rightarrow> nat \<Rightarrow> YStringTree \<Rightarrow> (nat \<times> YStringTree) run" where
  "add_component v parent st =
     bind_run (findDirectChild (st_items st) parent v)
       (\<lambda>node. case node of
          Some n \<Rightarrow> Some (return (n, st))
        | None \<Rightarrow> new_SortedTreeItem v parent st)"

function addBranch_loop ::
    "(string \<Rightarrow> string) \<Rightarrow> char \<Rightarrow> string \<Rightarrow> nat \<Rightarrow> nat option \<Rightarrow> nat \<Rightarrow> YStringTree
     \<Rightarrow> (nat option \<times> YStringTree) run" where
  "addBranch_loop dgettext delimiter content start node parent st =
     (if start < length content
      then let start1 = skip_while (\<lambda>c. c = delimiter) content start;
               end1 = skip_while (\<lambda>c. c \<noteq> delimiter) content start1
           in if end1 > start1
              then let path_component = take (end1 - start1) (drop start1 content)
                   in bind_run (add_component (translated dgettext path_component) parent st)
                        (\<lambda>(n, st1). addBranch_loop dgettext delimiter content end1 (Some n) n st1)
              else addBranch_loop dgettext delimiter content end1 node parent st
      else Some (return (node, st)))"
  by pat_completeness auto
termination
  by (relation "measure (\<lambda>(_, _, content, start, _). length content - start)")
    (auto intro!: diff_less_mono2 skip_twice)

declare addBranch_loop.simps [simp del]

definition addBranch ::
    "(string \<Rightarrow> string) \<Rightarrow> string \<Rightarrow> char \<Rightarrow> nat option \<Rightarrow> YStringTree
     \<Rightarrow> (nat option \<times> YStringTree) run" where
  "addBranch dgettext content delimiter parent st =
     (let p = (case parent of None \<Rightarrow> st_root st | Some q \<Rightarrow> q)
      in if delimiter = CHR 0x00
         then bind_run (new_SortedTreeItem (translated dgettext content) p st)
                (\<lambda>(n, st1). Some (return (Some n, st1)))
         else addBranch_loop dgettext delimiter content 0 None p st)"

text \<open>The loop of \<^verbatim>\<open>completePath\<close>, from an item towards the root.\<close>

partial_function (option) path_up ::
    "(YTransText \<Rightarrow> string) \<Rightarrow> char \<Rightarrow> nat \<Rightarrow> item_store \<Rightarrow> nat \<Rightarrow> string \<Rightarrow> string run" where
  "path_up sel delimiter root h item path =
     (case h item of
        None \<Rightarrow> bad_pointer
      | Some it \<Rightarrow>
          (case ti_parent it of
             None \<Rightarrow> Some (return path)
           | Some p \<Rightarrow>
               if p = root then Some (return path)
               else (case h p of
                       None \<Rightarrow> bad_pointer
                     | Some pit \<Rightarrow>
                         path_up sel delimiter root h p (sel (ti_value pit) @ delimiter # path))))"

definition completePath ::
    "nat option \<Rightarrow> bool \<Rightarrow> char \<Rightarrow> bool \<Rightarrow> YStringTree \<Rightarrow> string run" where
  "completePath item wantTrans delimiter startWithDelimiter st =
     (let sel = (if wantTrans then tt_trans else tt_orig);
          start = (\<lambda>path. Some (return (if startWithDelimiter then delimiter # path else path)))
      in case item of
           None \<Rightarrow> start []
         | Some a \<Rightarrow>
             (case st_items st a of
                None \<Rightarrow> bad_pointer
              | Some it \<Rightarrow>
                  bind_run (path_up sel delimiter (st_root st) (st_items st) a (sel (ti_value it))) start))"

definition origPath :: "nat option \<Rightarrow> char \<Rightarrow> bool \<Rightarrow> YStringTree \<Rightarrow> string run" where
  "origPath item delimiter startWithDelimiter = completePath item False delimiter startWithDelimiter"

definition translatedPath :: "nat option \<Rightarrow> char \<Rightarrow> bool \<Rightarrow> YStringTree \<Rightarrow> string run" where
  "translatedPath item delimiter startWithDelimiter = completePath item True delimiter startWithDelimiter"

text \<open>\<^verbatim>\<open>YStringTree::path\<close>: both texts at once.\<close>

partial_function (option) tree_path_up ::
    "char \<Rightarrow> nat \<Rightarrow> item_store \<Rightarrow> nat \<Rightarrow> YTransText \<Rightarrow> YTransText run" where
  "tree_path_up delimiter root h item path =
     (case h item of
        None \<Rightarrow> bad_pointer
      | Some it \<Rightarrow>
          (case ti_parent it of
             None \<Rightarrow> Some (return path)
           | Some p \<Rightarrow>
               if p = root then Some (return path)
               else (case h p of
                       None \<Rightarrow> bad_pointer
                     | Some pit \<Rightarrow>
                         tree_path_up delimiter root h p
                           \<lparr>tt_orig = tt_orig (ti_value pit) @ delimiter # tt_orig path,
                            tt_trans = tt_trans (ti_value pit) @ delimiter # tt_trans path\<rparr>)))"

definition tree_path :: "nat option \<Rightarrow> char \<Rightarrow> bool \<Rightarrow> YStringTree \<Rightarrow> YTransText run" where
  "tree_path item delimiter startWithDelimiter st =
     (case item of
        None \<Rightarrow> Some (return \<lparr>tt_orig = [], tt_trans = []\<rparr>)
      | Some a \<Rightarrow>
          (case st_items st a of
             None \<Rightarrow> bad_pointer
           | Some it \<Rightarrow>
               bind_run (tree_path_up delimiter (st_root st) (st_items st) a (ti_value it))
                 (\<lambda>path. Some (return
                    (if startWithDelimiter
                     then \<lparr>tt_orig = delimiter # tt_orig path, tt_trans = delimiter # tt_trans path\<rparr>
                     else path)))))"

declare insert_place.simps [code] find_child.simps [code] path_up.simps [code]
  tree_path_up.simps [code]

section \<open>Sibling lists\<close>

text \<open>\<open>lseg h p xs q\<close>: following the next pointers from \<open>p\<close> visits the items \<open>xs\<close> and arrives at \<open>q\<close>.\<close>

fun lseg :: "item_store \<Rightarrow> nat option \<Rightarrow> nat list \<Rightarrow> nat option \<Rightarrow> bool" where
  "lseg h p [] q \<longleftrightarrow> p = q"
| "lseg h p (x # xs) q \<longleftrightarrow> p = Some x \<and> (\<exists>it. h x = Some it \<and> lseg h (ti_next it) xs q)"

abbreviation chain :: "item_store \<Rightarrow> nat option \<Rightarrow> nat list \<Rightarrow> bool" where
  "chain h p xs \<equiv> lseg h p xs None"

lemma lseg_append: "lseg h p (xs @ ys) q \<longleftrightarrow> (\<exists>r. lseg h p xs r \<and> lseg h r ys q)"
  by (induction xs arbitrary: p) auto

lemma lseg_cong:
  assumes "\<And>x. x \<in> set xs \<Longrightarrow> map_option ti_next (h x) = map_option ti_next (h' x)"
  shows "lseg h p xs q = lseg h' p xs q"
  using assms
proof (induction xs arbitrary: p)
  case (Cons x xs)
  have "map_option ti_next (h x) = map_option ti_next (h' x)" using Cons.prems by simp
  then show ?case
    using Cons by (cases "h x"; cases "h' x") auto
qed simp

lemma chain_dom: "lseg h p xs q \<Longrightarrow> set xs \<subseteq> dom h"
  by (induction xs arbitrary: p) auto

text \<open>The text of an item of the store.\<close>

definition text_of :: "item_store \<Rightarrow> nat \<Rightarrow> string" where
  "text_of h a = (case h a of None \<Rightarrow> [] | Some it \<Rightarrow> tt_trans (ti_value it))"

text \<open>The search for a child visits the list in order and ends.\<close>

lemma find_child_chain:
  assumes "chain h p xs"
  shows "find_child h v p = Some (Inr (List.find (\<lambda>x. text_of h x = tt_trans v) xs))"
  using assms
proof (induction xs arbitrary: p)
  case Nil
  then show ?case by (simp add: find_child.simps)
next
  case (Cons x xs)
  then show ?case
    by (auto simp: find_child.simps[of h v "Some x"] text_of_def tt_equal_def)
qed

lemma insert_place_chain:
  assumes "h c = Some it" "chain h (ti_next it) xs"
  shows "insert_place h v c =
     Some (Inr (last (c # takeWhile (\<lambda>x. text_of h x < tt_trans v) xs)))"
  using assms
proof (induction xs arbitrary: c it)
  case Nil
  then show ?case by (simp add: insert_place.simps)
next
  case (Cons x xs)
  then obtain xit where x: "ti_next it = Some x" "h x = Some xit" "chain h (ti_next xit) xs" by auto
  show ?case
    using Cons.IH[OF x(2,3)] Cons.prems(1) x
    by (simp add: insert_place.simps[of h v c] text_of_def tt_less_def)
qed

text \<open>Linking a new item in behind an item of a list, or in front of it.\<close>

lemma lseg_insert:
  assumes "chain h p (ys @ c # zs)" "h c = Some cit" "h a = Some ait"
    and "distinct (ys @ c # zs)" "a \<notin> set (ys @ c # zs)"
  shows "chain (setNext c (Some a) (setNext a (ti_next cit) h)) p (ys @ c # a # zs)"
proof -
  let ?h = "setNext c (Some a) (setNext a (ti_next cit) h)"
  from assms(1,2) have seg: "lseg h p ys (Some c)" "chain h (ti_next cit) zs"
    by (auto simp: lseg_append)
  have same: "?h x = h x" if "x \<noteq> c" "x \<noteq> a" for x
    using that by (simp add: setNext_def)
  have "?h x = h x" if "x \<in> set ys \<union> set zs" for x
    using that assms(4,5) by (intro same) auto
  then have "lseg h p ys (Some c) = lseg ?h p ys (Some c)"
    "chain h (ti_next cit) zs = chain ?h (ti_next cit) zs"
    by (intro lseg_cong; simp)+
  then have "lseg ?h p ys (Some c)" "chain ?h (ti_next cit) zs" using seg by simp_all
  moreover have "a \<noteq> c" using assms(5) by auto
  ultimately show ?thesis
    using assms(2,3) by (simp add: lseg_append setNext_def)
qed

section \<open>The invariant\<close>

text \<open>
  \<open>K a\<close> are the children of item \<open>a\<close>: the sibling list its first-child pointer starts, sorted by
  translated text. An item other than the root is a child of its parent, which is older.
\<close>

definition item_ok :: "(nat \<Rightarrow> nat list) \<Rightarrow> YStringTree \<Rightarrow> nat \<Rightarrow> tree_item \<Rightarrow> bool" where
  "item_ok K st a it \<longleftrightarrow>
     a < st_fresh st
   \<and> chain (st_items st) (ti_firstChild it) (K a) \<and> distinct (K a)
   \<and> sorted (map (text_of (st_items st)) (K a))
   \<and> (\<forall>c\<in>set (K a). \<exists>cit. st_items st c = Some cit \<and> ti_parent cit = Some a)
   \<and> (if a = st_root st then ti_parent it = None
      else \<exists>p. ti_parent it = Some p \<and> p < a \<and> st_items st p \<noteq> None \<and> a \<in> set (K p))"

definition st_inv :: "(nat \<Rightarrow> nat list) \<Rightarrow> YStringTree \<Rightarrow> bool" where
  "st_inv K st \<longleftrightarrow> (\<forall>a it. st_items st a = Some it \<longrightarrow> item_ok K st a it)
     \<and> st_items st (st_root st) \<noteq> None"

lemma st_invD:
  assumes "st_inv K st" "st_items st a = Some it"
  shows "a < st_fresh st" "chain (st_items st) (ti_firstChild it) (K a)" "distinct (K a)"
    "sorted (map (text_of (st_items st)) (K a))"
    "c \<in> set (K a) \<Longrightarrow> \<exists>cit. st_items st c = Some cit \<and> ti_parent cit = Some a"
    "a = st_root st \<Longrightarrow> ti_parent it = None"
    "a \<noteq> st_root st \<Longrightarrow>
      \<exists>p. ti_parent it = Some p \<and> p < a \<and> st_items st p \<noteq> None \<and> a \<in> set (K p)"
  using assms(1)[unfolded st_inv_def, THEN conjunct1, rule_format, OF assms(2)]
  unfolding item_ok_def by (simp_all split: if_splits)

lemma new_YStringTree_inv: "st_inv (\<lambda>_. []) (new_YStringTree gettext)"
  by (simp add: st_inv_def item_ok_def new_YStringTree_def)

lemma sorted_insert_place:
  fixes g :: "'a \<Rightarrow> 'b::linorder"
  assumes "sorted (map g (f # xs))" "g f \<le> v"
  shows "sorted (map g (f # takeWhile (\<lambda>x. g x < v) xs) @ v # map g (dropWhile (\<lambda>x. g x < v) xs))"
proof -
  let ?P = "\<lambda>x. g x < v"
  have s: "sorted (map g (takeWhile ?P xs) @ map g (dropWhile ?P xs))" "\<forall>x\<in>set xs. g f \<le> g x"
    using assms(1) by (simp_all flip: map_append)
  have "v \<le> y" if y: "y \<in> set (map g (dropWhile ?P xs))" for y
  proof -
    have "dropWhile ?P xs \<noteq> []" using y by force
    then have "\<not> ?P (hd (dropWhile ?P xs))" by (rule hd_dropWhile)
    moreover have "g (hd (dropWhile ?P xs)) \<le> y"
      using s(1) y by (cases "dropWhile ?P xs") (auto simp: sorted_append)
    ultimately show ?thesis by simp
  qed
  then have v: "\<forall>y\<in>set (dropWhile ?P xs). v \<le> g y" by simp
  have t: "\<forall>x\<in>set (takeWhile ?P xs). g f \<le> g x \<and> g x \<le> v"
    using s(2) by (auto dest!: set_takeWhileD)
  have d: "\<forall>x\<in>set (dropWhile ?P xs). g f \<le> g x"
    using s(2) set_dropWhileD[of _ ?P xs] by blast
  show ?thesis
    using s(1) assms(2) v t d by (simp add: sorted_append ball_Un)
qed

text \<open>
  Two stores agree on the items of the first: each keeps its text and its parent. The later store
  may have linked more items in.
\<close>

definition grows :: "item_store \<Rightarrow> item_store \<Rightarrow> bool" where
  "grows h h' \<longleftrightarrow> (\<forall>a it. h a = Some it \<longrightarrow>
     (\<exists>it'. h' a = Some it' \<and> ti_value it' = ti_value it \<and> ti_parent it' = ti_parent it))"

lemma growsD:
  "grows h h' \<Longrightarrow> h a = Some it \<Longrightarrow>
     \<exists>it'. h' a = Some it' \<and> ti_value it' = ti_value it \<and> ti_parent it' = ti_parent it"
  by (simp add: grows_def)

lemma grows_refl [simp]: "grows h h"
  by (simp add: grows_def)

lemma grows_trans: "grows h h1 \<Longrightarrow> grows h1 h2 \<Longrightarrow> grows h h2"
  unfolding grows_def by metis

lemma grows_text_of: "grows h h' \<Longrightarrow> h a \<noteq> None \<Longrightarrow> text_of h' a = text_of h a"
  by (fastforce simp: grows_def text_of_def)

lemma grows_dom: "grows h h' \<Longrightarrow> h a \<noteq> None \<Longrightarrow> h' a \<noteq> None"
  by (auto simp: grows_def)

text \<open>
  \<open>linked\<close> describes what \<^verbatim>\<open>insertChildSorted\<close> leaves: the sibling list of the parent has the new
  item at its place, every other list is as before.
\<close>

definition linked :: "nat \<Rightarrow> nat \<Rightarrow> nat list \<Rightarrow> item_store \<Rightarrow> item_store \<Rightarrow> bool" where
  "linked p a xs h h' \<longleftrightarrow> dom h' = dom h \<and> grows h h'
     \<and> (\<exists>pit. h' p = Some pit \<and> chain h' (ti_firstChild pit) xs)
     \<and> (\<forall>x. x \<noteq> p \<longrightarrow> map_option ti_firstChild (h' x) = map_option ti_firstChild (h x))
     \<and> (\<forall>x. x \<notin> set xs \<longrightarrow> map_option ti_next (h' x) = map_option ti_next (h x))"

lemma insertChildSorted_linked:
  assumes "h p = Some pit" "h a = Some ait" "ti_firstChild ait = None" "a \<noteq> p"
    and "chain h (ti_firstChild pit) xs" "distinct xs" "a \<notin> set xs" "p \<notin> set xs"
    and "sorted (map (text_of h) xs)"
  obtains h' pre post where "insertChildSorted p a h = Some (Inr h')" "xs = pre @ post"
    "linked p a (pre @ a # post) h h'"
    "sorted (map (text_of h) pre @ tt_trans (ti_value ait) # map (text_of h) post)"
proof (cases xs)
  case Nil
  let ?h = "setFirstChild p (Some a) (setNext a None h)"
  have "insertChildSorted p a h = Some (Inr ?h)"
    using assms(1,2,5) Nil by (simp add: insertChildSorted_def)
  moreover have "linked p a [a] h ?h"
    using assms(1-4) by (auto simp: linked_def grows_def setFirstChild_def setNext_def)
  ultimately show thesis using that[of ?h "[]" "[]"] Nil by simp
next
  case (Cons f ys)
  then obtain fit where f: "ti_firstChild pit = Some f" "h f = Some fit" "chain h (ti_next fit) ys"
    using assms(5) by auto
  have neq: "f \<noteq> a" "f \<noteq> p" using assms(7,8) Cons by auto
  show thesis
  proof (cases "tt_trans (ti_value ait) < text_of h f")
    case True
    let ?h = "setFirstChild p (Some a) (setNext a (Some f) h)"
    have "insertChildSorted p a h = Some (Inr ?h)"
      using assms(1,2) f True by (simp add: insertChildSorted_def tt_less_def text_of_def)
    moreover have "chain h (Some f) xs = chain ?h (Some f) xs"
      by (rule lseg_cong) (use assms(7,8) in \<open>auto simp: setFirstChild_def setNext_def\<close>)
    then have "chain ?h (Some f) xs" using assms(5) f(1) by simp
    then have "linked p a ([] @ a # xs) h ?h"
      using assms(1-4) by (auto simp: linked_def grows_def setFirstChild_def setNext_def)
    moreover have "sorted (tt_trans (ti_value ait) # map (text_of h) xs)"
      using assms(9) True Cons by (auto intro: order_trans less_imp_le)
    ultimately show thesis using that[of ?h "[]" xs] by simp
  next
    case False
    define P where "P = (\<lambda>x. text_of h x < tt_trans (ti_value ait))"
    define pre where "pre = f # takeWhile P ys"
    define post where "post = dropWhile P ys"
    have xs: "xs = pre @ post" by (simp add: pre_def post_def Cons)
    obtain zs c where c: "pre = zs @ [c]" by (metis pre_def list.distinct(1) rev_exhaust)
    then have "c \<in> set xs" by (simp add: xs)
    then obtain cit where cit: "h c = Some cit" using chain_dom[OF assms(5)] by auto
    let ?h = "setNext c (Some a) (setNext a (ti_next cit) h)"
    have "insert_place h (ti_value ait) f = Some (Inr c)"
      using insert_place_chain[OF f(2,3), of "ti_value ait"] c
      by (simp add: P_def[symmetric] pre_def[symmetric])
    then have "insertChildSorted p a h = Some (Inr ?h)"
      using assms(1,2) f False cit by (simp add: insertChildSorted_def tt_less_def text_of_def)
    moreover have "chain ?h (ti_firstChild pit) (zs @ c # a # post)"
      using assms(5-7) by (intro lseg_insert[OF _ cit assms(2)]) (simp_all add: xs c)
    then have "linked p a (pre @ a # post) h ?h"
      using assms(1-4,8) cit \<open>c \<in> set xs\<close> neq unfolding linked_def grows_def
      by (auto simp: setNext_def c)
    moreover have "sorted (map (text_of h) pre @ tt_trans (ti_value ait) # map (text_of h) post)"
      unfolding pre_def post_def P_def
      by (rule sorted_insert_place) (use assms(9) False Cons in simp_all)
    ultimately show thesis using that[of ?h pre post] xs by simp
  qed
qed

lemma st_inv_kids:
  assumes "st_inv K st" "st_items st a = Some it" "c \<in> set (K a)"
  shows "a < c" "c < st_fresh st" "\<exists>cit. st_items st c = Some cit \<and> ti_parent cit = Some a"
proof -
  obtain cit where c: "st_items st c = Some cit" "ti_parent cit = Some a"
    using st_invD(5)[OF assms] by blast
  then show "\<exists>cit. st_items st c = Some cit \<and> ti_parent cit = Some a" by blast
  show "c < st_fresh st" by (rule st_invD(1)[OF assms(1) c(1)])
  have "c \<noteq> st_root st" using st_invD(6)[OF assms(1) c(1)] c(2) by auto
  then show "a < c" using st_invD(7)[OF assms(1) c(1)] c(2) by auto
qed

text \<open>
  Linking a fresh item keeps the invariant. The first lemma collects what the linked store has for
  the old items, the second puts the invariant together.
\<close>

lemma linked_frame:
  assumes "linked p a xs h h'" "x \<noteq> p" "h x = Some it" "chain h (ti_firstChild it) ys"
    and "set ys \<inter> set xs = {}"
  obtains it' where "h' x = Some it'" "chain h' (ti_firstChild it') ys" "ti_parent it' = ti_parent it"
proof -
  have "grows h h'" using assms(1) by (simp add: linked_def)
  then obtain it' where it': "h' x = Some it'" "ti_parent it' = ti_parent it"
    using growsD assms(3) by blast
  have "ti_firstChild it' = ti_firstChild it"
    using assms(1-3) it'(1) unfolding linked_def by (metis option.inject option.simps(9))
  moreover have "chain h (ti_firstChild it) ys = chain h' (ti_firstChild it) ys"
    by (rule lseg_cong) (use assms(1,5) in \<open>auto simp: linked_def\<close>)
  ultimately show thesis using that it' assms(4) by simp
qed

lemma st_inv_linked:
  fixes st K p a v
  defines "h0 \<equiv> (st_items st)(a \<mapsto> \<lparr>ti_value = v, ti_parent = Some p, ti_next = None,
                                     ti_firstChild = None\<rparr>)"
  assumes inv: "st_inv K st" and p: "st_items st p = Some pit" and a: "a = st_fresh st"
    and K: "K p = pre @ post" and l: "linked p a (pre @ a # post) h0 h'"
    and so: "sorted (map (text_of h0) pre @ tt_trans v # map (text_of h0) post)"
  shows "st_inv (K(p := pre @ a # post, a := [])) (st\<lparr>st_items := h', st_fresh := Suc a\<rparr>)"
proof -
  let ?K = "K(p := pre @ a # post, a := [])" and ?st = "st\<lparr>st_items := h', st_fresh := Suc a\<rparr>"
  have old: "x < a" if "st_items st x = Some it" for x it
    using st_invD(1)[OF inv that] a by simp
  have pa: "p < a" "p \<noteq> a" using old[OF p] by auto
  have root: "st_root st < a" "st_items st (st_root st) \<noteq> None"
    using inv old by (auto simp: st_inv_def)
  have gr: "grows h0 h'" and dom: "dom h' = insert a (dom (st_items st))"
    using l by (auto simp: linked_def h0_def)
  have h0: "h0 x = st_items st x" if "x \<noteq> a" for x using that by (simp add: h0_def)
  have new: "\<exists>cit. h' a = Some cit \<and> ti_value cit = v \<and> ti_parent cit = Some p"
    using growsD[OF gr, of a] by (simp add: h0_def)
  have kid: "\<exists>cit. h' c = Some cit \<and> ti_parent cit = Some x" if c: "c \<in> set (?K x)" and x: "h' x \<noteq> None" for c x
  proof (cases "c = a")
    case True
    then have "x = p" using c x st_inv_kids(2)[OF inv, of x _ a] dom a
      by (fastforce split: if_splits)
    then show ?thesis using new True by auto
  next
    case False
    then have "c \<in> set (K x)" "x \<noteq> a" using c K by (auto split: if_splits)
    moreover obtain it where "st_items st x = Some it"
      using x dom \<open>x \<noteq> a\<close> by blast
    ultimately obtain cit where "st_items st c = Some cit" "ti_parent cit = Some x"
      using st_inv_kids(3)[OF inv] by blast
    then show ?thesis using growsD[OF gr, of c] h0[OF False] by fastforce
  qed
  have par: "if x = st_root st then ti_parent it' = None
      else \<exists>q. ti_parent it' = Some q \<and> q < x \<and> h' q \<noteq> None \<and> x \<in> set (?K q)"
    if x: "h' x = Some it'" for x it'
  proof (cases "x = a")
    case True
    then show ?thesis using new x root pa p dom by auto
  next
    case False
    then obtain it where it: "st_items st x = Some it" using x dom by blast
    moreover have "ti_parent it' = ti_parent it"
      using growsD[OF gr, of x it] h0[OF False] it x by simp
    ultimately show ?thesis
      using st_invD(6,7)[OF inv it] old dom K by (fastforce split: if_splits)
  qed
  have same_text: "map (text_of h') ys = map (text_of h0) ys" if "set ys \<subseteq> dom h0" for ys
    using grows_text_of[OF gr] that by auto
  have old_text: "map (text_of h0) ys = map (text_of (st_items st)) ys" if "a \<notin> set ys" for ys
    using that by (auto simp: text_of_def h0_def)
  have new_text: "text_of h0 a = tt_trans v" and h0_dom: "dom h0 = insert a (dom (st_items st))"
    by (simp_all add: text_of_def h0_def)
  have kp: "set (K p) \<subseteq> dom (st_items st)" "a \<notin> set (K p)"
    using st_inv_kids(2,3)[OF inv p] a by (blast, blast)
  have "item_ok ?K ?st x it'" if x: "h' x = Some it'" for x it'
  proof -
    have "x < Suc a" using x dom old a by (metis domI domIff insertE less_Suc_eq option.exhaust)
    moreover have "chain h' (ti_firstChild it') (?K x) \<and> distinct (?K x)
        \<and> sorted (map (text_of h') (?K x))"
    proof -
      consider "x = a" | "x = p" | "x \<noteq> a" "x \<noteq> p" by blast
      then show ?thesis
      proof cases
        case 1
        then have "map_option ti_firstChild (h' a) = Some None"
          using l pa by (simp add: linked_def h0_def)
        then show ?thesis using x 1 by simp
      next
        case 2
        have "set pre \<subseteq> insert a (dom (st_items st))" "set post \<subseteq> insert a (dom (st_items st))"
          using kp(1) K by auto
        then have "map (text_of h') (pre @ a # post)
            = map (text_of h0) pre @ tt_trans v # map (text_of h0) post"
          using same_text[of "pre @ a # post"] by (simp add: new_text h0_dom)
        moreover have "distinct (pre @ a # post)"
          using st_invD(3)[OF inv p] kp(2) K by auto
        moreover have "chain h' (ti_firstChild it') (pre @ a # post)"
          using l x 2 by (auto simp: linked_def)
        ultimately show ?thesis using 2 so pa by (simp del: map_append list.map)
      next
        case 3
        then obtain it where it: "st_items st x = Some it" using x dom by blast
        note kx = st_inv_kids(2,3)[OF inv it]
        have ax: "a \<notin> set (K x)" "set (K x) \<subseteq> dom (st_items st)" using kx a by (blast, blast)
        have disj: "set (K x) \<inter> set (pre @ a # post) = {}"
          using kx(2) st_inv_kids(3)[OF inv p] 3(2) ax(1) K by fastforce
        have "chain (st_items st) (ti_firstChild it) (K x) = chain h0 (ti_firstChild it) (K x)"
          by (rule lseg_cong) (use ax(1) in \<open>auto simp: h0_def\<close>)
        then have "chain h0 (ti_firstChild it) (K x)" using st_invD(2)[OF inv it] by simp
        then obtain it2 where "h' x = Some it2" "chain h' (ti_firstChild it2) (K x)"
          using linked_frame[OF l 3(2) _ _ disj, of it] it h0[OF 3(1)] by metis
        moreover have "map (text_of h') (K x) = map (text_of (st_items st)) (K x)"
          using same_text[of "K x"] old_text[OF ax(1)] ax(2) by (auto simp: h0_def)
        ultimately show ?thesis
          using 3 x st_invD(3,4)[OF inv it] by (simp del: map_eq_conv)
      qed
    qed
    moreover have "\<forall>c\<in>set (?K x). \<exists>cit. h' c = Some cit \<and> ti_parent cit = Some x"
      using kid x by blast
    ultimately show ?thesis
      using par[OF x] unfolding item_ok_def by (simp del: fun_upd_apply not_None_eq)
  qed
  then show ?thesis
    using root dom by (auto simp: st_inv_def)
qed

text \<open>Every item but the root holds a text with its translation.\<close>

definition st_translated :: "(string \<Rightarrow> string) \<Rightarrow> YStringTree \<Rightarrow> bool" where
  "st_translated tr st \<longleftrightarrow> (\<forall>a it. st_items st a = Some it \<and> a \<noteq> st_root st \<longrightarrow>
     ti_value it = translated tr (tt_orig (ti_value it)))"

lemma st_translated_grows:
  assumes tr: "st_translated tr st" and gr: "grows (st_items st) (st_items st')"
    and "st_root st' = st_root st" "dom (st_items st') = insert n (dom (st_items st))"
    and n: "st_items st' n = Some nit" "ti_value nit = translated tr w"
  shows "st_translated tr st'"
  unfolding st_translated_def
proof (intro allI impI)
  fix a it assume a: "st_items st' a = Some it \<and> a \<noteq> st_root st'"
  show "ti_value it = translated tr (tt_orig (ti_value it))"
  proof (cases "st_items st a")
    case (Some it0)
    then show ?thesis
      using growsD[OF gr Some] a tr assms(3) by (auto simp: st_translated_def)
  next
    case None
    then have "a = n" using a assms(4) by blast
    then show ?thesis using a n by (simp add: translated_def)
  qed
qed

lemma new_item_inv:
  assumes inv: "st_inv K st" and p: "st_items st p = Some pit"
  obtains st' pre post ait where
    "new_SortedTreeItem v p st = Some (Inr (st_fresh st, st'))" "K p = pre @ post"
    "st_inv (K(p := pre @ st_fresh st # post, st_fresh st := [])) st'"
    "st_root st' = st_root st" "grows (st_items st) (st_items st')"
    "st_items st' (st_fresh st) = Some ait" "ti_value ait = v" "ti_parent ait = Some p"
    "\<forall>tr w. st_translated tr st \<and> v = translated tr w \<longrightarrow> st_translated tr st'"
proof -
  define a where "a = st_fresh st"
  define h0 where "h0 = (st_items st)(a \<mapsto> \<lparr>ti_value = v, ti_parent = Some p, ti_next = None,
                                     ti_firstChild = None\<rparr>)"
  have pa: "p < a" using st_invD(1)[OF inv p] by (simp add: a_def)
  have kp: "a \<notin> set (K p)" "p \<notin> set (K p)"
    using st_inv_kids(1,2)[OF inv p] by (auto simp: a_def)
  have a_new: "st_items st a = None"
    using st_invD(1)[OF inv, of a] by (cases "st_items st a") (auto simp: a_def)
  have hp: "h0 p = Some pit" using pa p by (simp add: h0_def)
  have "chain (st_items st) (ti_firstChild pit) (K p) = chain h0 (ti_firstChild pit) (K p)"
    by (rule lseg_cong) (use kp(1) in \<open>auto simp: h0_def\<close>)
  then have ch: "chain h0 (ti_firstChild pit) (K p)" using st_invD(2)[OF inv p] by simp
  have so: "sorted (map (text_of h0) (K p))"
  proof -
    have "map (text_of h0) (K p) = map (text_of (st_items st)) (K p)"
      using kp(1) by (auto simp: h0_def text_of_def)
    then show ?thesis using st_invD(4)[OF inv p] by (simp del: map_eq_conv)
  qed
  obtain h' pre post where ins: "insertChildSorted p a h0 = Some (Inr h')" "K p = pre @ post"
    and l: "linked p a (pre @ a # post) h0 h'"
    and so': "sorted (map (text_of h0) pre @ tt_trans v # map (text_of h0) post)"
    using insertChildSorted_linked[OF hp _ _ _ ch st_invD(3)[OF inv p] kp so, of
        "\<lparr>ti_value = v, ti_parent = Some p, ti_next = None, ti_firstChild = None\<rparr>"] pa
    by (auto simp: h0_def)
  let ?st = "st\<lparr>st_items := h', st_fresh := Suc a\<rparr>"
  have gr: "grows h0 h'" using l by (simp add: linked_def)
  have "grows (st_items st) h0" using a_new by (auto simp: grows_def h0_def)
  with gr have "grows (st_items st) h'" by (rule grows_trans[rotated])
  moreover obtain ait where "h' a = Some ait" "ti_value ait = v" "ti_parent ait = Some p"
    using growsD[OF gr, of a] by (auto simp: h0_def)
  moreover have "new_SortedTreeItem v p st = Some (Inr (a, ?st))"
    using ins(1) by (simp add: new_SortedTreeItem_def Let_def flip: a_def h0_def)
  moreover have "st_inv (K(p := pre @ a # post, a := [])) ?st"
    using st_inv_linked[OF inv p a_def ins(2)] l so' by (simp add: h0_def)
  moreover have "dom h' = insert a (dom (st_items st))" using l by (simp add: linked_def h0_def)
  moreover from calculation have
    "\<forall>tr w. st_translated tr st \<and> v = translated tr w \<longrightarrow> st_translated tr ?st"
    using st_translated_grows[of _ st ?st a ait] by auto
  ultimately show thesis using that[of ?st pre post ait] ins(2) by (simp add: a_def)
qed

section \<open>Adding one component\<close>

lemma findDirectChild_inv:
  assumes "st_inv K st" "st_items st p = Some pit"
  shows "findDirectChild (st_items st) p v =
     Some (Inr (List.find (\<lambda>x. text_of (st_items st) x = tt_trans v) (K p)))"
  using find_child_chain[OF st_invD(2)[OF assms]] assms(2) by (simp add: findDirectChild_def)

text \<open>
  \<open>added K st K' st' p v n\<close>: item \<open>n\<close> is the first child of \<open>p\<close> with the text of \<open>v\<close> in the tree \<open>st'\<close>,
  which has grown from \<open>st\<close> at \<open>p\<close> or not at all.
\<close>

definition added ::
    "(nat \<Rightarrow> nat list) \<Rightarrow> YStringTree \<Rightarrow> (nat \<Rightarrow> nat list) \<Rightarrow> YStringTree \<Rightarrow> nat \<Rightarrow> YTransText \<Rightarrow> nat \<Rightarrow> bool"
  where
  "added K st K' st' p v n \<longleftrightarrow> st_inv K' st' \<and> grows (st_items st) (st_items st')
     \<and> st_root st' = st_root st \<and> (\<forall>q<p. K' q = K q)
     \<and> List.find (\<lambda>x. text_of (st_items st') x = tt_trans v) (K' p) = Some n
     \<and> (\<forall>tr w. st_translated tr st \<and> v = translated tr w \<longrightarrow> st_translated tr st')"

lemma find_unique:
  assumes "g a = v" "\<forall>x\<in>set (pre @ post). g x \<noteq> v"
  shows "List.find (\<lambda>x. g x = v) (pre @ a # post) = Some a"
  using assms by (induction pre) auto

lemma add_component_added:
  assumes inv: "st_inv K st" and p: "st_items st p = Some pit"
  obtains n st' K' where "add_component v p st = Some (Inr (n, st'))" "added K st K' st' p v n"
proof (cases "List.find (\<lambda>x. text_of (st_items st) x = tt_trans v) (K p)")
  case (Some n)
  then have "add_component v p st = Some (Inr (n, st))"
    by (simp add: add_component_def findDirectChild_inv[OF inv p])
  moreover have "added K st K st p v n" using inv Some by (simp add: added_def)
  ultimately show thesis by (rule that)
next
  case None
  obtain st' pre post ait where new: "new_SortedTreeItem v p st = Some (Inr (st_fresh st, st'))"
    "K p = pre @ post" "st_inv (K(p := pre @ st_fresh st # post, st_fresh st := [])) st'"
    "st_root st' = st_root st" "grows (st_items st) (st_items st')"
    "st_items st' (st_fresh st) = Some ait" "ti_value ait = v" "ti_parent ait = Some p"
    "\<forall>tr w. st_translated tr st \<and> v = translated tr w \<longrightarrow> st_translated tr st'"
    by (rule new_item_inv[OF inv p])
  let ?K = "K(p := pre @ st_fresh st # post, st_fresh st := [])"
  have p_old: "p < st_fresh st" by (rule st_invD(1)[OF inv p])
  have "text_of (st_items st') x \<noteq> tt_trans v" if "x \<in> set (pre @ post)" for x
    using None that new(2) st_inv_kids(3)[OF inv p, of x] grows_text_of[OF new(5), of x]
    by (auto simp: find_None_iff)
  then have "List.find (\<lambda>x. text_of (st_items st') x = tt_trans v) (?K p) = Some (st_fresh st)"
    using p_old new(6,7) find_unique[of "text_of (st_items st')" "st_fresh st" "tt_trans v" pre post]
    by (simp add: text_of_def)
  then have "added K st ?K st' p v (st_fresh st)"
    using new p_old by (simp add: added_def)
  moreover have "add_component v p st = Some (Inr (st_fresh st, st'))"
    using None new(1) by (simp add: add_component_def findDirectChild_inv[OF inv p])
  ultimately show thesis by (intro that)
qed

section \<open>Paths\<close>

text \<open>The components of a path: what the scanning loops cut out.\<close>

function path_words :: "char \<Rightarrow> string \<Rightarrow> string list" where
  "path_words d s =
     (let r = dropWhile (\<lambda>c. c = d) s
      in if r = [] then [] else takeWhile (\<lambda>c. c \<noteq> d) r # path_words d (dropWhile (\<lambda>c. c \<noteq> d) r))"
  by pat_completeness auto
termination
proof (relation "measure (\<lambda>(d, s). length s)", goal_cases)
  case (2 d s x)
  then have "x \<noteq> []" "hd x \<noteq> d" using hd_dropWhile[of "\<lambda>c. c = d" s] by auto
  then have "length (dropWhile (\<lambda>c. c \<noteq> d) x) < length x"
    by (cases x) (auto simp: less_Suc_eq_le length_dropWhile_le)
  moreover have "length x \<le> length s" using 2 by (simp add: length_dropWhile_le)
  ultimately show ?case by simp
qed simp

declare path_words.simps [simp del]

fun join_path :: "char \<Rightarrow> string list \<Rightarrow> string" where
  "join_path d [] = []"
| "join_path d [w] = w"
| "join_path d (w # v # ws) = w @ d # join_path d (v # ws)"

lemma path_words_delimiter [simp]: "path_words d (d # s) = path_words d s"
  by (subst (1 2) path_words.simps) simp

lemma path_words_Nil [simp]: "path_words d [] = []"
  by (simp add: path_words.simps)

lemma path_words_word:
  assumes "w \<noteq> []" "d \<notin> set w" "s = [] \<or> hd s = d"
  shows "path_words d (w @ s) = w # path_words d s"
proof -
  have 1: "dropWhile (\<lambda>c. c = d) (w @ s) = w @ s" using assms(1,2) by (cases w) auto
  have "\<forall>c\<in>set w. c \<noteq> d" using assms(2) by blast
  then have 2: "takeWhile (\<lambda>c. c \<noteq> d) (w @ s) = w" "dropWhile (\<lambda>c. c \<noteq> d) (w @ s) = s"
    using assms(3) by (cases s; simp)+
  show ?thesis
    by (subst path_words.simps) (simp add: 1 2 assms(1))
qed

lemma path_words_join:
  "\<forall>w\<in>set ws. w \<noteq> [] \<and> d \<notin> set w \<Longrightarrow> path_words d (join_path d ws) = ws"
proof (induction d ws rule: join_path.induct)
  case (2 d w)
  then show ?case using path_words_word[of w d "[]"] by simp
qed (simp_all add: path_words_word)

lemma path_words_leading [simp]: "path_words d (replicate k d @ s) = path_words d s"
  by (induction k) simp_all

text \<open>Adding the components one below the other.\<close>

fun add_words ::
    "(string \<Rightarrow> string) \<Rightarrow> string list \<Rightarrow> nat option \<Rightarrow> nat \<Rightarrow> YStringTree
     \<Rightarrow> (nat option \<times> YStringTree) run" where
  "add_words tr [] node p st = Some (return (node, st))"
| "add_words tr (w # ws) node p st =
     bind_run (add_component (translated tr w) p st)
       (\<lambda>(n, st1). add_words tr ws (Some n) n st1)"

lemma addBranch_loop_words:
  "addBranch_loop tr d content start node p st = add_words tr (path_words d (drop start content)) node p st"
proof (induction tr d content start node p st rule: addBranch_loop.induct)
  case (1 tr d content start node p st)
  define s1 where "s1 = skip_while (\<lambda>c. c = d) content start"
  define e1 where "e1 = skip_while (\<lambda>c. c \<noteq> d) content s1"
  have s: "drop s1 content = dropWhile (\<lambda>c. c = d) (drop start content)"
    using skip_while_drop[of "\<lambda>c. c = d" content start] by (simp add: s1_def)
  have e: "drop e1 content = dropWhile (\<lambda>c. c \<noteq> d) (drop s1 content)"
    "take (e1 - s1) (drop s1 content) = takeWhile (\<lambda>c. c \<noteq> d) (drop s1 content)"
    using skip_while_drop[of "\<lambda>c. c \<noteq> d" content s1] by (simp_all add: e1_def)
  show ?case
  proof (cases "start < length content")
    case True
    show ?thesis
    proof (cases "s1 < e1")
      case word: True
      have "s1 < length content"
        using word by (rule_tac ccontr) (simp add: e1_def skip_while.simps[of _ content s1])
      then have "drop s1 content \<noteq> []" by simp
      then have w: "path_words d (drop start content)
          = take (e1 - s1) (drop s1 content) # path_words d (drop e1 content)"
        by (subst path_words.simps) (simp add: e Let_def flip: s)
      show ?thesis
        using 1(1)[OF True s1_def e1_def word refl] word True
        by (subst addBranch_loop.simps)
          (simp add: w Let_def flip: s1_def e1_def, auto intro!: bind_run_cong)
    next
      case False
      have e1: "e1 = s1" using False skip_while_ge[of s1 "\<lambda>c. c \<noteq> d" content] by (simp add: e1_def)
      have "drop s1 content = []"
      proof (rule ccontr)
        assume ne: "drop s1 content \<noteq> []"
        then have "content ! s1 \<noteq> d" "s1 < length content"
          using hd_dropWhile[of "\<lambda>c. c = d" "drop start content"] by (simp_all flip: s add: hd_drop_conv_nth)
        then have "Suc s1 \<le> e1"
          using skip_while_ge[of "Suc s1" "\<lambda>c. c \<noteq> d" content]
          by (simp add: e1_def skip_while.simps[of _ content s1])
        then show False using e1 by simp
      qed
      then have "path_words d (drop start content) = []" "drop e1 content = []"
        by (subst path_words.simps, simp_all add: e1 flip: s)
      then show ?thesis
        using 1(2)[OF True s1_def e1_def False] False True
        by (subst addBranch_loop.simps) (simp add: Let_def flip: s1_def e1_def)
    qed
  next
    case False
    then show ?thesis by (subst addBranch_loop.simps) simp
  qed
qed

text \<open>The texts on the way from the root to an item.\<close>

inductive path_to :: "item_store \<Rightarrow> nat \<Rightarrow> nat \<Rightarrow> YTransText list \<Rightarrow> bool" for h root where
  top: "h a = Some it \<Longrightarrow> ti_parent it = Some root \<Longrightarrow> path_to h root a [ti_value it]"
| below: "h a = Some it \<Longrightarrow> ti_parent it = Some p \<Longrightarrow> p \<noteq> root \<Longrightarrow> path_to h root p vs \<Longrightarrow>
    path_to h root a (vs @ [ti_value it])"

lemma path_to_last:
  "path_to h root a vs \<Longrightarrow> \<exists>it us. h a = Some it \<and> vs = us @ [ti_value it]"
  by (induction rule: path_to.induct) auto

lemma path_to_grows:
  assumes "path_to h root a vs" "grows h h'"
  shows "path_to h' root a vs"
  using assms
proof (induction rule: path_to.induct)
  case (top a it)
  then show ?case using growsD[OF top(3,1)] path_to.top[of h' a] by metis
next
  case (below a it p vs)
  then show ?case using growsD[OF below(6,1)] path_to.below[of h' a _ p root vs] by metis
qed

lemma join_path_snoc: "join_path d (ws @ [w]) = concat (map (\<lambda>x. x @ [d]) ws) @ w"
  by (induction d ws rule: join_path.induct) simp_all

text \<open>The way up ends at the root and collects these texts.\<close>

lemma path_up_path_to:
  assumes "path_to h root a vs"
  shows "path_up sel d root h a path =
     Some (Inr (concat (map (\<lambda>v. sel v @ [d]) (butlast vs)) @ path))"
  using assms
proof (induction arbitrary: path rule: path_to.induct)
  case (top a it)
  then show ?case by (simp add: path_up.simps)
next
  case (below a it p vs)
  obtain pit us where "h p = Some pit" "vs = us @ [ti_value pit]"
    using path_to_last[OF below(4)] by blast
  then show ?case using below by (simp add: path_up.simps[of sel d root h a] butlast_append)
qed

lemma tree_path_up_path_to:
  assumes "path_to h root a vs"
  shows "tree_path_up d root h a path =
     Some (Inr \<lparr>tt_orig = concat (map (\<lambda>v. tt_orig v @ [d]) (butlast vs)) @ tt_orig path,
                tt_trans = concat (map (\<lambda>v. tt_trans v @ [d]) (butlast vs)) @ tt_trans path\<rparr>)"
  using assms
proof (induction arbitrary: path rule: path_to.induct)
  case (top a it)
  then show ?case by (simp add: tree_path_up.simps)
next
  case (below a it p vs)
  obtain pit us where "h p = Some pit" "vs = us @ [ti_value pit]"
    using path_to_last[OF below(4)] by blast
  then show ?case using below by (simp add: tree_path_up.simps[of d root h a] butlast_append)
qed

lemma paths_of:
  assumes "path_to (st_items st) (st_root st) a vs"
  shows "origPath (Some a) d False st = Some (Inr (join_path d (map tt_orig vs)))"
    and "translatedPath (Some a) d False st = Some (Inr (join_path d (map tt_trans vs)))"
    and "tree_path (Some a) d False st =
      Some (Inr \<lparr>tt_orig = join_path d (map tt_orig vs), tt_trans = join_path d (map tt_trans vs)\<rparr>)"
proof -
  obtain it us where it: "st_items st a = Some it" "vs = us @ [ti_value it]"
    using path_to_last[OF assms] by blast
  show "origPath (Some a) d False st = Some (Inr (join_path d (map tt_orig vs)))"
    "translatedPath (Some a) d False st = Some (Inr (join_path d (map tt_trans vs)))"
    using it path_up_path_to[OF assms]
    by (simp_all add: origPath_def translatedPath_def completePath_def join_path_snoc comp_def)
  show "tree_path (Some a) d False st =
      Some (Inr \<lparr>tt_orig = join_path d (map tt_orig vs), tt_trans = join_path d (map tt_trans vs)\<rparr>)"
    using it tree_path_up_path_to[OF assms] by (simp add: tree_path_def join_path_snoc comp_def)
qed

section \<open>Adding a branch\<close>

text \<open>
  Adding components below \<open>p\<close>: the tree keeps its invariant and its items, the item returned has the
  components as the end of its path, and a second run of the same components finds what the
  first one left.
\<close>

lemma path_to_child:
  assumes "h n = Some it" "ti_parent it = Some p"
    and "(p = root \<and> vs = []) \<or> (p \<noteq> root \<and> path_to h root p vs)"
  shows "path_to h root n (vs @ [ti_value it])"
  using assms by (auto intro: path_to.intros)

lemma added_item:
  assumes "added K st K' st' p v n" "st_items st p \<noteq> None"
  obtains nit where "st_items st' n = Some nit" "ti_parent nit = Some p" "p < n"
    "tt_trans (ti_value nit) = tt_trans v"
proof -
  have inv: "st_inv K' st'" and gr: "grows (st_items st) (st_items st')"
    and f: "List.find (\<lambda>x. text_of (st_items st') x = tt_trans v) (K' p) = Some n"
    using assms(1) by (simp_all add: added_def)
  obtain pit where p: "st_items st' p = Some pit" using grows_dom[OF gr assms(2)] by blast
  have n: "n \<in> set (K' p)" "text_of (st_items st') n = tt_trans v"
    using f by (auto simp: find_Some_iff)
  obtain nit where "st_items st' n = Some nit" "ti_parent nit = Some p"
    using st_inv_kids(3)[OF inv p n(1)] by blast
  then show thesis
    using that n(2) st_inv_kids(1)[OF inv p n(1)] by (simp add: text_of_def)
qed

lemma add_words_spec:
  assumes "st_inv K st" "st_items st p \<noteq> None"
  shows "\<exists>n st' K'. add_words tr ws node p st = Some (Inr (n, st')) \<and> st_inv K' st'
     \<and> grows (st_items st) (st_items st') \<and> st_root st' = st_root st \<and> (\<forall>q<p. K' q = K q)
     \<and> (st_translated tr st \<longrightarrow> st_translated tr st')
     \<and> add_words tr ws node p st' = Some (Inr (n, st'))
     \<and> (ws = [] \<longrightarrow> n = node)"
  using assms
proof (induction ws arbitrary: K st p node)
  case Nil
  then show ?case by auto
next
  case (Cons w ws)
  obtain pit where p: "st_items st p = Some pit" using Cons.prems(2) by blast
  obtain n1 st1 K1 where c: "add_component (translated tr w) p st = Some (Inr (n1, st1))"
    and ad: "added K st K1 st1 p (translated tr w) n1"
    by (rule add_component_added[OF Cons.prems(1) p])
  note ad' = ad[unfolded added_def]
  obtain nit where n1: "st_items st1 n1 = Some nit" "ti_parent nit = Some p" "p < n1"
    by (rule added_item[OF ad Cons.prems(2)])
  obtain n st' K' where IH: "add_words tr ws (Some n1) n1 st1 = Some (Inr (n, st'))" "st_inv K' st'"
     "grows (st_items st1) (st_items st')" "st_root st' = st_root st1" "\<forall>q<n1. K' q = K1 q"
     "st_translated tr st1 \<longrightarrow> st_translated tr st'"
     "add_words tr ws (Some n1) n1 st' = Some (Inr (n, st'))" "ws = [] \<longrightarrow> n = Some n1"
    using Cons.IH[of K1 st1 n1 "Some n1"] ad' n1(1) by auto
  have gr: "grows (st_items st) (st_items st1)" and inv1: "st_inv K1 st1" using ad' by simp_all
  obtain p1 where p1: "st_items st1 p = Some p1" using growsD[OF gr p] by blast
  obtain p' where p': "st_items st' p = Some p'" using growsD[OF IH(3) p1] by blast
  have "\<forall>x\<in>set (K1 p). text_of (st_items st') x = text_of (st_items st1) x"
    using st_inv_kids(3)[OF inv1 p1] grows_text_of[OF IH(3)] by fastforce
  then have "List.find (\<lambda>x. text_of (st_items st') x = tt_trans (translated tr w)) (K' p) = Some n1"
    using ad' IH(5) n1(3) by (simp cong: find_cong)
  then have again: "add_component (translated tr w) p st' = Some (Inr (n1, st'))"
    by (simp add: add_component_def findDirectChild_inv[OF IH(2) p'])
  have "grows (st_items st) (st_items st')" "st_root st' = st_root st" "\<forall>q<p. K' q = K q"
    using grows_trans[OF gr IH(3)] ad' IH(4,5) n1(3) by auto
  moreover have "st_translated tr st \<longrightarrow> st_translated tr st'"
    using ad' IH(6) by blast
  ultimately show ?case
    using c IH again by auto
qed

definition parent_path :: "YStringTree \<Rightarrow> nat \<Rightarrow> YTransText list \<Rightarrow> bool" where
  "parent_path st p vs \<longleftrightarrow>
     (if p = st_root st then vs = [] else path_to (st_items st) (st_root st) p vs)"

lemma add_words_path:
  assumes "st_inv K st" "st_items st p \<noteq> None" "parent_path st p vs"
    and "add_words tr ws node p st = Some (Inr (n, st'))" "ws \<noteq> []"
  shows "\<exists>a us. n = Some a \<and> path_to (st_items st') (st_root st') a (vs @ us)
     \<and> map tt_trans us = map tr ws
     \<and> (st_translated tr st \<and> inj tr \<longrightarrow> map tt_orig us = ws)"
  using assms
proof (induction ws arbitrary: K st p vs node)
  case (Cons w ws)
  obtain pit where p: "st_items st p = Some pit" using Cons.prems(2) by blast
  obtain n1 st1 K1 where c: "add_component (translated tr w) p st = Some (Inr (n1, st1))"
    and ad: "added K st K1 st1 p (translated tr w) n1"
    by (rule add_component_added[OF Cons.prems(1) p])
  have gr: "grows (st_items st) (st_items st1)" and inv1: "st_inv K1 st1"
    and root: "st_root st1 = st_root st"
    and tr1: "st_translated tr st \<Longrightarrow> st_translated tr st1"
    using ad by (auto simp: added_def)
  obtain nit where n1: "st_items st1 n1 = Some nit" "ti_parent nit = Some p"
    "tt_trans (ti_value nit) = tr w"
    by (rule added_item[OF ad Cons.prems(2)]) (simp add: translated_def)
  have n1_root: "n1 \<noteq> st_root st1" using st_invD(6)[OF inv1 n1(1)] n1(2) by auto
  have "(p = st_root st1 \<and> vs = []) \<or> (p \<noteq> st_root st1 \<and> path_to (st_items st1) (st_root st1) p vs)"
    using Cons.prems(3) path_to_grows[OF _ gr, of "st_root st" p vs]
    by (simp add: parent_path_def root split: if_splits)
  from path_to_child[OF n1(1,2) this]
  have path: "path_to (st_items st1) (st_root st1) n1 (vs @ [ti_value nit])" .
  have orig: "tt_orig (ti_value nit) = w" if "st_translated tr st" "inj tr"
  proof -
    have "ti_value nit = translated tr (tt_orig (ti_value nit))"
      using tr1[OF that(1)] n1(1) n1_root by (simp add: st_translated_def)
    then have "tr (tt_orig (ti_value nit)) = tr w"
      using n1(3) by (metis YTransText.select_convs(2) translated_def)
    then show ?thesis using that(2) by (simp add: inj_eq)
  qed
  have rest: "add_words tr ws (Some n1) n1 st1 = Some (Inr (n, st'))"
    using Cons.prems(4) c by simp
  show ?case
  proof (cases "ws = []")
    case True
    then show ?thesis
      using rest path n1(3) orig by (intro exI[of _ n1] exI[of _ "[ti_value nit]"]) simp
  next
    case False
    have "\<exists>a us. n = Some a \<and> path_to (st_items st') (st_root st') a ((vs @ [ti_value nit]) @ us)
       \<and> map tt_trans us = map tr ws \<and> (st_translated tr st1 \<and> inj tr \<longrightarrow> map tt_orig us = ws)"
      using n1(1) n1_root path by (intro Cons.IH[OF inv1 _ _ rest False]) (simp_all add: parent_path_def)
    then obtain a us where "n = Some a"
      "path_to (st_items st') (st_root st') a (vs @ ti_value nit # us)"
      "map tt_trans us = map tr ws" "st_translated tr st1 \<and> inj tr \<longrightarrow> map tt_orig us = ws"
      by auto
    then show ?thesis
      using n1(3) orig tr1 by (intro exI[of _ a] exI[of _ "ti_value nit # us"]) simp
  qed
qed simp

text \<open>The trees a program can build with the translations of one text domain.\<close>

definition parent_in :: "YStringTree \<Rightarrow> nat option \<Rightarrow> bool" where
  "parent_in st parent = (case parent of None \<Rightarrow> True | Some p \<Rightarrow> st_items st p \<noteq> None)"

inductive string_tree :: "(string \<Rightarrow> string) \<Rightarrow> YStringTree \<Rightarrow> bool" for tr where
  created: "string_tree tr (new_YStringTree gettext)"
| branch: "string_tree tr st \<Longrightarrow> parent_in st parent \<Longrightarrow>
    addBranch tr content d parent st = Some (Inr (n, st')) \<Longrightarrow> string_tree tr st'"

lemma addBranch_total:
  assumes "st_inv K st" "parent_in st parent"
  shows "\<exists>n st' K'. addBranch tr content d parent st = Some (Inr (n, st')) \<and> st_inv K' st'
     \<and> grows (st_items st) (st_items st') \<and> (st_translated tr st \<longrightarrow> st_translated tr st')"
proof -
  define p where "p = (case parent of None \<Rightarrow> st_root st | Some q \<Rightarrow> q)"
  have p: "st_items st p \<noteq> None"
    using assms by (auto simp: p_def parent_in_def st_inv_def split: option.split)
  show ?thesis
  proof (cases "d = CHR 0x00")
    case True
    obtain pit where pit: "st_items st p = Some pit" using p by blast
    obtain st' pre post ait where "new_SortedTreeItem (translated tr content) p st
        = Some (Inr (st_fresh st, st'))"
      "st_inv (K(p := pre @ st_fresh st # post, st_fresh st := [])) st'"
      "grows (st_items st) (st_items st')"
      "\<forall>tr' w. st_translated tr' st \<and> translated tr content = translated tr' w \<longrightarrow> st_translated tr' st'"
      by (rule new_item_inv[OF assms(1) pit])
    then show ?thesis using True by (fastforce simp: addBranch_def Let_def simp flip: p_def)
  next
    case False
    then show ?thesis
      using add_words_spec[OF assms(1) p, of tr "path_words d content" None]
      by (auto simp: addBranch_def addBranch_loop_words simp flip: p_def)
  qed
qed

lemma string_tree_inv:
  assumes "string_tree tr st"
  shows "(\<exists>K. st_inv K st) \<and> st_translated tr st"
  using assms
proof induction
  case (created gettext)
  have "st_translated tr (new_YStringTree gettext)"
    by (simp add: st_translated_def new_YStringTree_def)
  then show ?case using new_YStringTree_inv by blast
next
  case (branch st parent content d n st')
  then show ?case using addBranch_total[of _ st parent tr content d] by fastforce
qed

section \<open>Properties\<close>

text \<open>
  C5: In every tree built by adding branches, the children of each item form a list that ends, has no
  item twice, is sorted by translated text, and holds exactly the items whose parent the item is.
  Adding a further branch below the root or any item always returns and never follows a
  dangling pointer.
\<close>

theorem string_tree_sorted:
  assumes "string_tree tr st" "st_items st a = Some it"
  shows "(\<exists>xs. chain (st_items st) (ti_firstChild it) xs \<and> distinct xs
           \<and> sorted (map (text_of (st_items st)) xs)
           \<and> set xs = {c. \<exists>cit. st_items st c = Some cit \<and> ti_parent cit = Some a})
     \<and> (\<exists>n st'. addBranch tr content d (Some a) st = Some (Inr (n, st')))
     \<and> (\<exists>n st'. addBranch tr content d None st = Some (Inr (n, st')))"
proof -
  obtain K where inv: "st_inv K st" using string_tree_inv[OF assms(1)] by blast
  note a = st_invD[OF inv assms(2)]
  have "c \<in> set (K a)" if "st_items st c = Some cit" "ti_parent cit = Some a" for c cit
    using st_invD(6,7)[OF inv that(1)] that(2) by (cases "c = st_root st") auto
  then have "set (K a) = {c. \<exists>cit. st_items st c = Some cit \<and> ti_parent cit = Some a}"
    using a(5) by auto
  moreover have "parent_in st (Some a)" "parent_in st None" using assms(2) by (simp_all add: parent_in_def)
  note addBranch_total[OF inv this(1), of tr content d] addBranch_total[OF inv this(2), of tr content d]
  ultimately show ?thesis using a(2-4) by blast
qed

text \<open>
  C13: Adding a branch and asking for its path is a round trip. For a content made of nonempty
  components, with any number of delimiters in front, the item returned has as its translated path
  the translated components; where no two texts share a translation its original path is the
  content without the delimiters in front; and adding the same content again returns the same item
  and leaves the tree as it is. The delimiter is not the zero character and not part of a component.
\<close>

theorem addBranch_round_trip:
  fixes k :: nat
  assumes "string_tree tr st" "ws \<noteq> []" "\<forall>w\<in>set ws. w \<noteq> [] \<and> d \<notin> set w" "d \<noteq> CHR 0x00"
  defines "content \<equiv> replicate k d @ join_path d ws"
  shows "\<exists>a st'. addBranch tr content d None st = Some (Inr (Some a, st'))
     \<and> translatedPath (Some a) d False st' = Some (Inr (join_path d (map tr ws)))
     \<and> (inj tr \<longrightarrow> origPath (Some a) d False st' = Some (Inr (join_path d ws)))
     \<and> addBranch tr content d None st' = Some (Inr (Some a, st'))"
proof -
  obtain K where inv: "st_inv K st" and tr: "st_translated tr st"
    using string_tree_inv[OF assms(1)] by blast
  have root: "st_items st (st_root st) \<noteq> None" using inv by (simp add: st_inv_def)
  have words: "path_words d content = ws"
    using path_words_join[OF assms(3)] by (simp add: content_def)
  then have run: "addBranch tr content d None t = add_words tr ws None (st_root t) t" for t
    using assms(4) by (simp add: addBranch_def addBranch_loop_words)
  obtain n st' where n: "add_words tr ws None (st_root st) st = Some (Inr (n, st'))"
    "st_root st' = st_root st" "add_words tr ws None (st_root st) st' = Some (Inr (n, st'))"
    using add_words_spec[OF inv root, of tr ws None] by blast
  obtain a us where "n = Some a" "path_to (st_items st') (st_root st') a us"
    "map tt_trans us = map tr ws" "inj tr \<Longrightarrow> map tt_orig us = ws"
    using add_words_path[OF inv root _ n(1) assms(2), of "[]"] tr by (auto simp: parent_path_def)
  then show ?thesis
    using n paths_of(1,2)[of st' a us d] by (simp add: run)
qed

section \<open>Witnesses\<close>

lemma string_tree_new: "string_tree (\<lambda>s. s) (new_YStringTree (\<lambda>s. s))"
  by (rule string_tree.created)

theorem addBranch_round_trip_witness:
  "\<exists>a st'. addBranch (\<lambda>s. s) ''/usr/local/bin'' CHR ''/'' None (new_YStringTree (\<lambda>s. s))
         = Some (Inr (Some a, st'))
     \<and> translatedPath (Some a) CHR ''/'' False st' = Some (Inr ''usr/local/bin'')
     \<and> origPath (Some a) CHR ''/'' False st' = Some (Inr ''usr/local/bin'')
     \<and> addBranch (\<lambda>s. s) ''/usr/local/bin'' CHR ''/'' None st' = Some (Inr (Some a, st'))"
  using addBranch_round_trip[OF string_tree_new, of "[''usr'', ''local'', ''bin'']" "CHR ''/''" 1]
  by simp

definition next_tree :: "string \<Rightarrow> YStringTree \<Rightarrow> YStringTree" where
  "next_tree content st =
     (case addBranch (\<lambda>s. s) content CHR ''/'' None st of Some (Inr (n, st')) \<Rightarrow> st' | _ \<Rightarrow> st)"

lemma string_tree_next:
  assumes "string_tree (\<lambda>s. s) st"
  shows "string_tree (\<lambda>s. s) (next_tree content st)"
proof -
  obtain n st' where "addBranch (\<lambda>s. s) content CHR ''/'' None st = Some (Inr (n, st'))"
    using string_tree_inv[OF assms] addBranch_total[of _ st None] by (fastforce simp: parent_in_def)
  then show ?thesis
    using string_tree.branch[OF assms, of None] by (simp add: next_tree_def parent_in_def)
qed

definition two_branches :: YStringTree where
  "two_branches = next_tree ''lib'' (next_tree ''/local/bin'' (new_YStringTree (\<lambda>s. s)))"

theorem string_tree_sorted_witness:
  "map_option ti_firstChild (st_items two_branches 0) = Some (Some 3)
   \<and> (\<exists>xs. chain (st_items two_branches) (Some 3) xs \<and> distinct xs
        \<and> sorted (map (text_of (st_items two_branches)) xs))"
proof -
  have f: "map_option ti_firstChild (st_items two_branches 0) = Some (Some 3)"
    by code_simp
  then obtain it where it: "st_items two_branches 0 = Some it" "ti_firstChild it = Some 3"
    by auto
  have "string_tree (\<lambda>s. s) two_branches"
    unfolding two_branches_def by (intro string_tree_next string_tree_new)
  from string_tree_sorted[OF this it(1), of "[]" "CHR ''/''"] show ?thesis
    using f unfolding it(2) by blast
qed

end
