(* ===== verification/Yui_LayoutTree.thy ===== *)
theory Yui_LayoutTree
  imports Yui_Alignment Yui_ButtonBox
begin

text \<open>
  The layout of a whole widget tree: how the virtual functions \<^verbatim>\<open>preferredSize\<close>, \<^verbatim>\<open>stretchable\<close> and
  \<^verbatim>\<open>setSize\<close> of the container classes call each other. \<^verbatim>\<open>YLayoutBox\<close>, \<^verbatim>\<open>YAlignment\<close> and
  \<^verbatim>\<open>YButtonBox\<close> are those of their own theories; \<^verbatim>\<open>YSpacing\<close>, \<^verbatim>\<open>YSquash\<close>, \<^verbatim>\<open>YEmpty\<close> and
  \<^verbatim>\<open>YSingleChildContainerWidget\<close> are added here. The main result is that in a tree of any depth and at
  any size every widget lies inside its dialog and no two widgets without children overlap.
\<close>

section \<open>Virtual functions\<close>

definition first_child :: "child_view list \<Rightarrow> child_view option" where
  "first_child vs = (case vs of [] \<Rightarrow> None | v # _ \<Rightarrow> Some v)"

definition sc_preferredSize :: "YUIDimension \<Rightarrow> child_view list \<Rightarrow> int" where
  "sc_preferredSize dir vs = (case first_child vs of Some c \<Rightarrow> c_pref dir c | None \<Rightarrow> 0)"

definition sc_stretchable :: "widget_data \<Rightarrow> YUIDimension \<Rightarrow> child_view list \<Rightarrow> bool" where
  "sc_stretchable w dir vs =
     (case first_child vs of Some c \<Rightarrow> c_stretchable dir c | None \<Rightarrow> at_dim (w_stretch w) dir)"

definition squash_stretchable :: "bool YBothDim \<Rightarrow> YUIDimension \<Rightarrow> child_view list \<Rightarrow> bool" where
  "squash_stretchable sq dir vs =
     (case first_child vs of None \<Rightarrow> False | Some c \<Rightarrow> \<not> at_dim sq dir \<and> c_stretchable dir c)"

definition spacing_preferredSize :: "YUIDimension \<Rightarrow> int \<Rightarrow> YUIDimension \<Rightarrow> int" where
  "spacing_preferredSize spacingDim units dir = (if dir = spacingDim then units else 0)"

text \<open>
  The constructor of \<^verbatim>\<open>YSpacing\<close>; \<open>deviceUnits\<close> is the conversion of the application object of the
  toolkit.
\<close>

definition new_YSpacing ::
    "(YUIDimension \<Rightarrow> real \<Rightarrow> int) \<Rightarrow> nat \<Rightarrow> YUIDimension \<Rightarrow> bool \<Rightarrow> real \<Rightarrow> widget_data" where
  "new_YSpacing deviceUnits a dir stretch layoutUnits =
     (let w = new_widget_data a (ClsSpacing dir (deviceUnits dir layoutUnits)) [] 0 0
      in setStretchable (if dir = YD_HORIZ then YD_VERT else YD_HORIZ) False
           (setStretchable dir stretch w))"

definition widget_preferredSize ::
    "YButtonBoxLayoutPolicy \<Rightarrow> widget_data \<Rightarrow> child_view list \<Rightarrow> YUIDimension \<Rightarrow> int" where
  "widget_preferredSize policy w vs dir =
     (case w_class w of
        ClsLayoutBox p \<Rightarrow> box_preferredSize p dir vs
      | ClsAlignment a \<Rightarrow> al_preferredSize a dir (first_child vs)
      | ClsButtonBox m relaxed \<Rightarrow>
          (case dir of YD_HORIZ \<Rightarrow> bb_preferredWidth (lp_equalSizeButtons policy) m vs
                     | YD_VERT \<Rightarrow> bb_preferredHeight m vs)
      | ClsSpacing d units \<Rightarrow> spacing_preferredSize d units dir
      | ClsSquash sq \<Rightarrow> sc_preferredSize dir vs
      | ClsSingleChild \<Rightarrow> sc_preferredSize dir vs
      | ClsDialog \<Rightarrow> sc_preferredSize dir vs
      | ClsEmpty \<Rightarrow> 0
      | _ \<Rightarrow> at_dim (w_toolkitSize w) dir)"

definition widget_stretchable :: "widget_data \<Rightarrow> child_view list \<Rightarrow> YUIDimension \<Rightarrow> bool" where
  "widget_stretchable w vs dir =
     (case w_class w of
        ClsLayoutBox p \<Rightarrow> box_stretchable dir vs
      | ClsAlignment a \<Rightarrow> al_stretchable a dir (first_child vs)
      | ClsButtonBox m relaxed \<Rightarrow> bb_stretchable dir
      | ClsSquash sq \<Rightarrow> squash_stretchable sq dir vs
      | ClsSingleChild \<Rightarrow> sc_stretchable w dir vs
      | ClsDialog \<Rightarrow> sc_stretchable w dir vs
      | _ \<Rightarrow> at_dim (w_stretch w) dir)"

text \<open>What a parent sees of a widget: the answers of its virtual functions and dynamic casts.\<close>

fun widget_view :: "YButtonBoxLayoutPolicy \<Rightarrow> YWidget \<Rightarrow> child_view" where
  "widget_view policy (YWidget w cs) =
     (let vs = map (widget_view policy) cs
      in \<lparr>cv_preferred = YBothDim (widget_preferredSize policy w vs YD_HORIZ)
                                  (widget_preferredSize policy w vs YD_VERT),
          cv_weight = w_weight w,
          cv_stretchable = YBothDim (widget_stretchable w vs YD_HORIZ) (widget_stretchable w vs YD_VERT),
          cv_isSpacing = (case w_class w of ClsSpacing _ _ \<Rightarrow> True | _ \<Rightarrow> False),
          cv_margins = (case w_class w of
              ClsAlignment a \<Rightarrow> Some (YBothDim (totalMargins a YD_HORIZ) (totalMargins a YD_VERT))
            | _ \<Rightarrow> None),
          cv_role = (case w_class w of ClsPushButton role _ \<Rightarrow> Some role | _ \<Rightarrow> None),
          cv_debugLabel = widget_debugLabel w\<rparr>)"

section \<open>Resizing a tree\<close>

text \<open>The sizes and positions a widget passes on to its children, by the number of the child.\<close>

definition child_rects ::
    "YButtonBoxLayoutPolicy \<Rightarrow> bool \<Rightarrow> widget_data \<Rightarrow> child_view list \<Rightarrow> int \<Rightarrow> int
     \<Rightarrow> (nat \<times> rect) list result" where
  "child_rects policy reverseLayout w vs width height =
     (case w_class w of
        ClsLayoutBox p \<Rightarrow>
          return (zip [0..<length vs] (box_setSize reverseLayout p width height vs))
      | ClsAlignment a \<Rightarrow>
          return (case al_setSize a width height (first_child vs) of None \<Rightarrow> [] | Some r \<Rightarrow> [(0, r)])
      | ClsButtonBox m relaxed \<Rightarrow> bb_setSize policy reverseLayout relaxed m width height vs
      | ClsSquash sq \<Rightarrow>
          return (if vs = [] then [] else [(0, \<lparr>r_x = 0, r_y = 0, r_w = width, r_h = height\<rparr>)])
      | ClsSingleChild \<Rightarrow>
          return (if vs = [] then [] else [(0, \<lparr>r_x = 0, r_y = 0, r_w = width, r_h = height\<rparr>)])
      | ClsDialog \<Rightarrow>
          return (if vs = [] then [] else [(0, \<lparr>r_x = 0, r_y = 0, r_w = width, r_h = height\<rparr>)])
      | _ \<Rightarrow> return [])"

datatype placed = Placed (p_rect: rect) (p_kids: "placed list")

text \<open>
  \<^verbatim>\<open>setSize\<close> of a whole tree. A child the parent gives no place to keeps the one it has and does not
  appear in the result.
\<close>

fun widget_setSize :: "YButtonBoxLayoutPolicy \<Rightarrow> bool \<Rightarrow> rect \<Rightarrow> YWidget \<Rightarrow> placed result"
  and children_setSize ::
    "YButtonBoxLayoutPolicy \<Rightarrow> bool \<Rightarrow> (nat \<times> rect) list \<Rightarrow> nat \<Rightarrow> YWidget list \<Rightarrow> placed list result"
  where
  "widget_setSize policy rl r (YWidget w cs) =
     bind_result (child_rects policy rl w (map (widget_view policy) cs) (r_w r) (r_h r))
       (\<lambda>rs. bind_result (children_setSize policy rl rs 0 cs)
          (\<lambda>ps. return (Placed r ps)))"
| "children_setSize policy rl rs i [] = return []"
| "children_setSize policy rl rs i (c # cs) =
     (case map_of rs i of
        None \<Rightarrow> children_setSize policy rl rs (Suc i) cs
      | Some r \<Rightarrow>
          bind_result (widget_setSize policy rl r c)
            (\<lambda>p. bind_result (children_setSize policy rl rs (Suc i) cs)
               (\<lambda>ps. return (p # ps))))"

section \<open>Well-formed trees\<close>

text \<open>
  What the constructors and the toolkit guarantee of a tree without button boxes: sizes, weights and
  margins are not negative, an alignment has its child, a single-child container at most one,
  and a widget that is no container has none.
\<close>

definition node_ok :: "widget_data \<Rightarrow> nat \<Rightarrow> bool" where
  "node_ok w n \<longleftrightarrow> 0 \<le> hor (w_weight w) \<and> 0 \<le> vert (w_weight w)
     \<and> (case w_class w of
          ClsLayoutBox p \<Rightarrow> True
        | ClsAlignment a \<Rightarrow> n = 1 \<and> good_margins a
        | ClsSquash sq \<Rightarrow> n \<le> 1
        | ClsSingleChild \<Rightarrow> n \<le> 1
        | ClsDialog \<Rightarrow> n \<le> 1
        | ClsButtonBox m relaxed \<Rightarrow> False
        | ClsSpacing d units \<Rightarrow> n = 0 \<and> 0 \<le> units
        | ClsEmpty \<Rightarrow> n = 0
        | _ \<Rightarrow> n = 0 \<and> 0 \<le> hor (w_toolkitSize w) \<and> 0 \<le> vert (w_toolkitSize w))"

fun layout_ok :: "YWidget \<Rightarrow> bool" where
  "layout_ok (YWidget w cs) \<longleftrightarrow> node_ok w (length cs) \<and> list_all layout_ok cs"

definition good_view :: "child_view \<Rightarrow> bool" where
  "good_view v \<longleftrightarrow> good_child YD_HORIZ v \<and> good_child YD_VERT v"

lemma good_viewD: "good_view v \<Longrightarrow> good_child d v" "good_view v \<Longrightarrow> 0 \<le> c_pref d v"
  by (cases d; simp add: good_view_def good_child_def)+

lemma good_view_all: "(\<And>d. good_child d v) \<Longrightarrow> good_view v"
  by (simp add: good_view_def)

lemma childrenMax_nonneg: "0 \<le> childrenMaxPreferredSize d vs"
proof -
  have "a \<le> fold (\<lambda>c m. max (c_pref d c) m) vs a" for a
  proof (induction vs arbitrary: a)
    case (Cons v vs)
    have "a \<le> max (c_pref d v) a" by simp
    also have "\<dots> \<le> fold (\<lambda>c m. max (c_pref d c) m) vs (max (c_pref d v) a)" by (rule Cons.IH)
    finally show ?case by simp
  qed simp
  from this[of 0] show ?thesis by simp
qed

lemma box_preferredSize_nonneg:
  assumes "\<forall>v\<in>set vs. good_view v"
  shows "0 \<le> box_preferredSize p d vs"
proof (cases "d = p")
  case True
  have "\<forall>v\<in>set vs. good_child p v" using assms good_viewD by blast
  then show ?thesis
    using weighted_pref_nonneg[of vs p] nonweighted_pref_nonneg[of vs p]
    by (simp add: True box_preferredSize_primary)
next
  case False
  then have "d = other_dim p" by (cases d; cases p) auto
  then show ?thesis using childrenMax_nonneg by (simp add: box_preferredSize_def)
qed

lemma pair_view_simps [simp]:
  "c_pref YD_HORIZ \<lparr>cv_preferred = YBothDim a b, cv_weight = w, cv_stretchable = s, cv_isSpacing = i,
     cv_margins = m, cv_role = r, cv_debugLabel = l\<rparr> = a"
  "c_pref YD_VERT \<lparr>cv_preferred = YBothDim a b, cv_weight = w, cv_stretchable = s, cv_isSpacing = i,
     cv_margins = m, cv_role = r, cv_debugLabel = l\<rparr> = b"
  by (simp_all add: c_pref_def)

lemma widget_view_simps:
  fixes policy w cs
  defines "vs \<equiv> map (widget_view policy) cs" and "v \<equiv> widget_view policy (YWidget w cs)"
  shows "c_pref d v = widget_preferredSize policy w vs d" "c_weight d v = at_dim (w_weight w) d"
    "c_margins d v = (case w_class w of ClsAlignment a \<Rightarrow> totalMargins a d | _ \<Rightarrow> 0)"
  by (cases d; simp add: v_def vs_def Let_def c_weight_def c_margins_def split: widget_class.split)+

lemma first_child_good: "\<forall>v\<in>set vs. good_view v \<Longrightarrow> first_child vs = Some c \<Longrightarrow> good_view c"
  by (auto simp: first_child_def split: list.splits)

lemma sc_preferredSize_nonneg: "\<forall>v\<in>set vs. good_view v \<Longrightarrow> 0 \<le> sc_preferredSize d vs"
  using first_child_good good_viewD(2) by (fastforce simp: sc_preferredSize_def split: option.split)

text \<open>A well-formed widget answers with sizes that the layout code can work with.\<close>

lemma widget_view_good: "layout_ok w \<Longrightarrow> good_view (widget_view policy w)"
proof (induction policy w rule: widget_view.induct)
  case (1 policy w cs)
  let ?vs = "map (widget_view policy) cs"
  have vs: "\<forall>v\<in>set ?vs. good_view v" using 1 by (auto simp: list_all_iff)
  have ok: "node_ok w (length cs)" using 1(2) by simp
  show ?case
  proof (rule good_view_all)
    fix d
    have wt: "0 \<le> at_dim (w_weight w) d" using ok by (cases d) (simp_all add: node_ok_def)
    have "0 \<le> widget_preferredSize policy w ?vs d
       \<and> (case w_class w of ClsAlignment a \<Rightarrow> 0 \<le> totalMargins a d
            \<and> totalMargins a d \<le> widget_preferredSize policy w ?vs d | _ \<Rightarrow> True)"
    proof (cases "w_class w")
      case (ClsAlignment a)
      then obtain c where c: "cs = [c]" "good_margins a"
        using ok by (auto simp: node_ok_def length_Suc_conv)
      have "0 \<le> c_pref d (widget_view policy c)" using vs c(1) good_viewD(2) by simp
      then show ?thesis
        using good_margins_dim[OF c(2), of d]
        by (simp add: ClsAlignment c(1) widget_preferredSize_def al_preferredSize_def first_child_def
            le_max_iff_disj)
    qed (use ok box_preferredSize_nonneg[OF vs] sc_preferredSize_nonneg[OF vs] in
        \<open>cases d; simp add: widget_preferredSize_def node_ok_def spacing_preferredSize_def\<close>)+
    then show "good_child d (widget_view policy (YWidget w cs))"
      using wt by (auto simp: good_child_def widget_view_simps simp del: widget_view.simps
          split: widget_class.splits)
  qed
qed

section \<open>Where the children lie\<close>

definition rects_ok :: "int \<Rightarrow> int \<Rightarrow> nat \<Rightarrow> (nat \<times> rect) list \<Rightarrow> bool" where
  "rects_ok width height n rs \<longleftrightarrow> map fst rs = [0..<n] \<and> (\<forall>r\<in>set (map snd rs). inside width height r)
     \<and> sorted_wrt apart (map snd rs)"

lemma rects_ok_single:
  "inside width height r \<Longrightarrow> rects_ok width height 1 [(0, r)]"
  "rects_ok width height 0 []"
  by (simp_all add: rects_ok_def)

lemma rects_ok_zip:
  assumes "length rs = n" "\<forall>i<n. inside width height (rs ! i)"
    and "\<forall>i j. i < j \<and> j < n \<longrightarrow> apart (rs ! i) (rs ! j)"
  shows "rects_ok width height n (zip [0..<n] rs)"
  using assms by (auto simp: rects_ok_def sorted_wrt_iff_nth_less in_set_conv_nth)

lemma child_rects_ok:
  assumes "node_ok w (length vs)" "\<forall>v\<in>set vs. good_view v" "0 \<le> width" "0 \<le> height"
  shows "\<exists>rs. child_rects policy rl w vs width height = Inr rs \<and> rects_ok width height (length vs) rs"
proof -
  have full: "inside width height \<lparr>r_x = 0, r_y = 0, r_w = width, r_h = height\<rparr>"
    using assms(3,4) by (simp add: inside_def)
  have single: "rects_ok width height (length vs)
      (if vs = [] then [] else [(0, \<lparr>r_x = 0, r_y = 0, r_w = width, r_h = height\<rparr>)])"
    if "length vs \<le> 1"
    using that rects_ok_single(1)[OF full] rects_ok_single(2)[of width height]
    by (cases vs) simp_all
  show ?thesis
  proof (cases "w_class w")
    case (ClsLayoutBox p)
    have good: "\<forall>v\<in>set vs. good_child p v" "\<forall>v\<in>set vs. 0 \<le> c_pref (other_dim p) v"
      using assms(2) good_viewD by blast+
    then show ?thesis
      using rects_ok_zip[OF box_setSize_ok[OF good assms(3,4), of rl]]
      by (simp add: ClsLayoutBox child_rects_def)
  next
    case (ClsAlignment a)
    then obtain c where c: "vs = [c]" "good_margins a"
      using assms(1) by (auto simp: node_ok_def length_Suc_conv)
    have g: "0 \<le> c_pref d c" for d using assms(2) good_viewD(2) c(1) by simp
    have "\<exists>r. al_setSize a width height (Some c) = Some r \<and> inside width height r"
      using al_dim_inside[OF c(2) assms(3) g] al_dim_inside[OF c(2) assms(4) g]
      by (simp add: al_setSize_def split_beta inside_def Let_def)
    then show ?thesis
      using rects_ok_single(1) by (auto simp: ClsAlignment child_rects_def c(1) first_child_def)
  qed (use assms(1) single rects_ok_single(2) in \<open>simp_all add: child_rects_def node_ok_def\<close>)
qed

section \<open>The whole tree\<close>

fun nested_ok :: "placed \<Rightarrow> bool" where
  "nested_ok (Placed r ks) \<longleftrightarrow> 0 \<le> r_w r \<and> 0 \<le> r_h r
     \<and> (\<forall>k\<in>set ks. inside (r_w r) (r_h r) (p_rect k) \<and> nested_ok k)
     \<and> sorted_wrt apart (map p_rect ks)"

text \<open>The number of widgets without children, and their rectangles in the coordinates of the root.\<close>

fun leaf_count :: "YWidget \<Rightarrow> nat" where
  "leaf_count (YWidget w cs) = (if cs = [] then 1 else sum_list (map leaf_count cs))"

definition shift :: "int \<Rightarrow> int \<Rightarrow> rect \<Rightarrow> rect" where
  "shift dx dy r = r\<lparr>r_x := dx + r_x r, r_y := dy + r_y r\<rparr>"

fun leaf_rects :: "int \<Rightarrow> int \<Rightarrow> placed \<Rightarrow> rect list" where
  "leaf_rects dx dy (Placed r ks) =
     (if ks = [] then [shift dx dy r]
      else concat (map (leaf_rects (dx + r_x r) (dy + r_y r)) ks))"

fun placed_leaves :: "placed \<Rightarrow> nat" where
  "placed_leaves (Placed r ks) = (if ks = [] then 1 else sum_list (map placed_leaves ks))"

lemma length_leaf_rects: "length (leaf_rects dx dy p) = placed_leaves p"
  by (induction dx dy p rule: leaf_rects.induct) (simp add: length_concat comp_def cong: map_cong)

lemma map_of_upt:
  assumes "map fst rs = [0..<length rs]" "i < length rs"
  shows "map_of rs i = Some (snd (rs ! i))"
proof -
  have "fst (rs ! i) = i"
    using arg_cong[OF assms(1), of "\<lambda>l. l ! i"] assms(2) by simp
  then have "(i, snd (rs ! i)) \<in> set rs" using nth_mem[OF assms(2)] by (metis prod.collapse)
  moreover have "distinct (map fst rs)" unfolding assms(1) by simp
  ultimately show ?thesis by simp
qed

lemma setSize_nested:
  shows "layout_ok w \<Longrightarrow> 0 \<le> r_w r \<Longrightarrow> 0 \<le> r_h r \<Longrightarrow>
      \<exists>p. widget_setSize policy rl r w = Inr p \<and> p_rect p = r \<and> nested_ok p
        \<and> placed_leaves p = leaf_count w"
    and "list_all layout_ok cs \<Longrightarrow> map fst rs = [0..<length rs] \<Longrightarrow> length rs = i + length cs \<Longrightarrow>
      \<forall>q\<in>set (map snd rs). 0 \<le> r_w q \<and> 0 \<le> r_h q \<Longrightarrow>
      \<exists>ps. children_setSize policy rl rs i cs = Inr ps \<and> map p_rect ps = drop i (map snd rs)
        \<and> list_all nested_ok ps \<and> map placed_leaves ps = map leaf_count cs"
proof (induction policy rl r w and policy rl rs i cs rule: widget_setSize_children_setSize.induct)
  case (1 policy rl r w cs)
  let ?vs = "map (widget_view policy) cs"
  have "\<forall>v\<in>set ?vs. good_view v" using 1(2) widget_view_good by (auto simp: list_all_iff)
  moreover have "node_ok w (length ?vs)" using 1(2) by simp
  ultimately obtain rs where rs: "child_rects policy rl w ?vs (r_w r) (r_h r) = Inr rs"
    "rects_ok (r_w r) (r_h r) (length cs) rs"
    using child_rects_ok[of w ?vs "r_w r" "r_h r" policy rl] 1(3,4) by auto
  have fst: "map fst rs = [0..<length cs]" using rs(2) by (simp add: rects_ok_def)
  have len: "length rs = length cs" using arg_cong[OF fst, of length] by simp
  have ins: "\<forall>q\<in>set (map snd rs). inside (r_w r) (r_h r) q" and ap: "sorted_wrt apart (map snd rs)"
    using rs(2) by (simp_all add: rects_ok_def)
  obtain ps where ps: "children_setSize policy rl rs 0 cs = Inr ps" "map p_rect ps = map snd rs"
    "list_all nested_ok ps" "map placed_leaves ps = map leaf_count cs"
    using 1(1)[OF rs(1)] 1(2) fst len ins by (auto simp: inside_def)
  have "\<forall>k\<in>set ps. inside (r_w r) (r_h r) (p_rect k)"
    using ins unfolding ps(2)[symmetric] by simp
  moreover have "ps = [] \<longleftrightarrow> cs = []" using ps(4) by (metis map_is_Nil_conv)
  ultimately show ?case
    using rs(1) ps ap 1(3,4) by (simp add: list_all_iff ps(2))
next
  case (3 policy rl rs i c cs)
  have i: "i < length rs" using "3.prems"(3) by simp
  let ?q = "snd (rs ! i)"
  have q: "map_of rs i = Some ?q" by (rule map_of_upt[OF "3.prems"(2) i])
  have "?q \<in> set (map snd rs)" using i by simp
  then obtain p where p: "widget_setSize policy rl ?q c = Inr p" "p_rect p = ?q" "nested_ok p"
    "placed_leaves p = leaf_count c"
    using "3.IH"(2)[OF q] "3.prems"(1,4) by fastforce
  obtain ps where "children_setSize policy rl rs (Suc i) cs = Inr ps"
    "map p_rect ps = drop (Suc i) (map snd rs)" "list_all nested_ok ps"
    "map placed_leaves ps = map leaf_count cs"
    using "3.IH"(3)[OF q p(1)] "3.prems" by auto
  moreover have "drop i (map snd rs) = ?q # drop (Suc i) (map snd rs)"
    using i by (simp add: Cons_nth_drop_Suc[symmetric])
  ultimately show ?case using p q by simp
qed simp

text \<open>Rectangles inside others.\<close>

definition lies_in :: "rect \<Rightarrow> rect \<Rightarrow> bool" where
  "lies_in r R \<longleftrightarrow> r_x R \<le> r_x r \<and> r_y R \<le> r_y r \<and> 0 \<le> r_w r \<and> 0 \<le> r_h r
     \<and> r_x r + r_w r \<le> r_x R + r_w R \<and> r_y r + r_h r \<le> r_y R + r_h R"

lemma lies_in_trans: "lies_in q r \<Longrightarrow> lies_in r R \<Longrightarrow> lies_in q R"
  by (simp add: lies_in_def)

lemma lies_in_apart: "lies_in q r \<Longrightarrow> lies_in q' r' \<Longrightarrow> apart r r' \<Longrightarrow> apart q q'"
  by (auto simp: lies_in_def apart_def)

lemma inside_lies_in: "inside (r_w R) (r_h R) r \<Longrightarrow> lies_in (shift (dx + r_x R) (dy + r_y R) r) (shift dx dy R)"
  by (simp add: inside_def lies_in_def shift_def)

lemma apart_shift: "apart r r' \<Longrightarrow> apart (shift dx dy r) (shift dx dy r')"
  by (auto simp: apart_def shift_def)

lemma sorted_wrt_concat:
  assumes "\<forall>xs\<in>set xss. sorted_wrt P xs"
    and "sorted_wrt (\<lambda>xs ys. \<forall>x\<in>set xs. \<forall>y\<in>set ys. P x y) xss"
  shows "sorted_wrt P (concat xss)"
  using assms by (induction xss) (auto simp: sorted_wrt_append)

lemma leaf_rects_nested:
  "nested_ok p \<Longrightarrow> (\<forall>q\<in>set (leaf_rects dx dy p). lies_in q (shift dx dy (p_rect p)))
     \<and> sorted_wrt apart (leaf_rects dx dy p)"
proof (induction dx dy p rule: leaf_rects.induct)
  case (1 dx dy r ks)
  show ?case
  proof (cases "ks = []")
    case True
    then show ?thesis using 1(2) by (simp add: lies_in_def shift_def)
  next
    case False
    let ?dx = "dx + r_x r" and ?dy = "dy + r_y r"
    have kid: "(\<forall>q\<in>set (leaf_rects ?dx ?dy k). lies_in q (shift ?dx ?dy (p_rect k)))
        \<and> sorted_wrt apart (leaf_rects ?dx ?dy k)
        \<and> lies_in (shift ?dx ?dy (p_rect k)) (shift dx dy r)" if "k \<in> set ks" for k
      using 1(1)[OF False that] 1(2) that inside_lies_in by simp
    have "sorted_wrt (\<lambda>k k'. apart (p_rect k) (p_rect k')) ks"
      using 1(2) by (simp add: sorted_wrt_map)
    moreover have "\<forall>q\<in>set (leaf_rects ?dx ?dy k). \<forall>q'\<in>set (leaf_rects ?dx ?dy k'). apart q q'"
      if "k \<in> set ks" "k' \<in> set ks" "apart (p_rect k) (p_rect k')" for k k'
    proof (intro ballI)
      fix q q' assume q: "q \<in> set (leaf_rects ?dx ?dy k)" "q' \<in> set (leaf_rects ?dx ?dy k')"
      have "lies_in q (shift ?dx ?dy (p_rect k))" "lies_in q' (shift ?dx ?dy (p_rect k'))"
        using kid[OF that(1)] kid[OF that(2)] q by simp_all
      then show "apart q q'" using apart_shift[OF that(3)] by (rule lies_in_apart)
    qed
    ultimately have "sorted_wrt (\<lambda>k k'. \<forall>q\<in>set (leaf_rects ?dx ?dy k).
        \<forall>q'\<in>set (leaf_rects ?dx ?dy k'). apart q q') ks"
      by (rule sorted_wrt_mono_rel[rotated])
    then have "sorted_wrt apart (concat (map (leaf_rects ?dx ?dy) ks))"
      using kid by (intro sorted_wrt_concat) (simp_all add: sorted_wrt_map)
    moreover have "lies_in q (shift dx dy r)" if q: "q \<in> set (concat (map (leaf_rects ?dx ?dy) ks))" for q
    proof -
      obtain k where k: "k \<in> set ks" "q \<in> set (leaf_rects ?dx ?dy k)" using q by auto
      show ?thesis
        by (rule lies_in_trans[of q "shift ?dx ?dy (p_rect k)"]) (use kid[OF k(1)] k(2) in simp_all)
    qed
    ultimately show ?thesis using False by simp
  qed
qed

section \<open>Trees at their preferred size\<close>

text \<open>
  The sizes a box hands out, without the positions: the primary geometry in its own direction, the
  secondary in the other.
\<close>

lemma box_setSize_sizes:
  fixes rl p width height vs
  defines "P \<equiv> calcPrimaryGeometry p (if p = YD_HORIZ then width else height) vs"
  assumes "length (fst P) = length vs" "length (snd P) = length vs" "i < length vs"
  shows "r_w (box_setSize rl p width height vs ! i)
      = (if p = YD_HORIZ then fst P ! i else secondary_size YD_HORIZ width (vs ! i))"
    and "r_h (box_setSize rl p width height vs ! i)
      = (if p = YD_HORIZ then secondary_size YD_VERT height (vs ! i) else fst P ! i)"
proof -
  let ?s = "other_dim p" and ?n = "if p = YD_HORIZ then height else width"
  let ?S = "calcSecondaryGeometry ?s ?n vs"
  let ?ws = "if p = YD_HORIZ then fst P else fst ?S" and ?hs = "if p = YD_HORIZ then fst ?S else fst P"
  let ?xs0 = "if p = YD_HORIZ then snd P else snd ?S" and ?ys = "if p = YD_HORIZ then snd ?S else snd P"
  define xs where "xs = (if rl then map2 (\<lambda>x w. width - x - w) ?xs0 ?ws else ?xs0)"
  have rs: "box_setSize rl p width height vs = mk_rects xs ?ys ?ws ?hs"
    by (simp add: box_setSize_def xs_def P_def split_beta Let_def)
  have "length xs = length vs" "length ?ys = length vs" "length ?ws = length vs" "length ?hs = length vs"
    using assms(2,3) by (simp_all add: xs_def)
  note nth = mk_rects_nth[OF this, folded rs, THEN conjunct2, rule_format, OF assms(4)]
  have sec: "fst ?S ! i = secondary_size ?s ?n (vs ! i)"
    using assms(4) by (simp add: calcSecondaryGeometry_def)
  show "r_w (box_setSize rl p width height vs ! i)
      = (if p = YD_HORIZ then fst P ! i else secondary_size YD_HORIZ width (vs ! i))"
    "r_h (box_setSize rl p width height vs ! i)
      = (if p = YD_HORIZ then secondary_size YD_VERT height (vs ! i) else fst P ! i)"
    unfolding nth rect.simps using sec by (cases p; simp)+
qed

lemma childrenMax_ge:
  assumes "v \<in> set vs"
  shows "c_pref d v \<le> childrenMaxPreferredSize d vs"
proof -
  have "(\<forall>v\<in>set vs. c_pref d v \<le> fold (\<lambda>c m. max (c_pref d c) m) vs a)
      \<and> a \<le> fold (\<lambda>c m. max (c_pref d c) m) vs a" for a
    by (induction vs arbitrary: a) (auto, (metis max.bounded_iff)+)
  then show ?thesis using assms by simp
qed

lemma secondary_size_enough: "c_pref d v \<le> n \<Longrightarrow> c_pref d v \<le> secondary_size d n v"
  by (simp add: secondary_size_def)

definition unweighted :: "child_view \<Rightarrow> bool" where
  "unweighted v \<longleftrightarrow> \<not> c_hasWeight YD_HORIZ v \<and> \<not> c_hasWeight YD_VERT v"

lemma box_setSize_fits:
  assumes good: "\<forall>v\<in>set vs. good_view v" and uw: "\<forall>v\<in>set vs. unweighted v"
    and sz: "box_preferredSize p YD_HORIZ vs \<le> width" "box_preferredSize p YD_VERT vs \<le> height"
    and i: "i < length vs"
  shows "c_pref YD_HORIZ (vs ! i) \<le> r_w (box_setSize rl p width height vs ! i)
     \<and> c_pref YD_VERT (vs ! i) \<le> r_h (box_setSize rl p width height vs ! i)"
proof -
  let ?n = "if p = YD_HORIZ then width else height"
  let ?P = "calcPrimaryGeometry p ?n vs"
  have gp: "\<forall>v\<in>set vs. good_child p v" using good good_viewD by blast
  have "box_preferredSize p p vs \<le> ?n" using sz by (cases p) simp_all
  then have n: "0 \<le> ?n" and N: "totalNonWeightedChildrenPreferredSize p vs \<le> ?n"
    using box_preferredSize_nonneg[OF good, of p p] weighted_pref_nonneg[OF gp]
    by (auto simp: box_preferredSize_primary)
  note len = primary_sizes_ok(1)[OF gp n]
  have lens: "length (snd ?P) = length vs" using primary_in_order[OF gp n] len by (simp add: in_order_def)
  have v: "vs ! i \<in> set vs" using i by simp
  have "fst ?P ! i = normal_size p (normal_extras p ?n vs) (childrenTotalWeight p vs) (vs ! i)"
    using N i by (simp add: calcPrimaryGeometry_def Let_def normal_sizes_def)
  then have pr: "c_pref p (vs ! i) \<le> fst ?P ! i"
    using normal_sizes_nonneg(2)[OF gp N v] uw v by (cases p) (simp_all add: unweighted_def)
  have se: "c_pref (other_dim p) (vs ! i) \<le> secondary_size (other_dim p) m (vs ! i)"
    if "box_preferredSize p (other_dim p) vs \<le> m" for m
    using childrenMax_ge[OF v, of "other_dim p"] that
    by (intro secondary_size_enough) (simp add: box_preferredSize_def del: childrenMaxPreferredSize.simps)
  note sizes = box_setSize_sizes[OF len lens i, of rl]
  show ?thesis
    unfolding sizes using pr se sz by (cases p) simp_all
qed

lemma child_rects_fit:
  assumes ok: "node_ok w (length vs)" and good: "\<forall>v\<in>set vs. good_view v"
    and uw: "\<forall>v\<in>set vs. unweighted v"
    and sz: "widget_preferredSize policy w vs YD_HORIZ \<le> width"
      "widget_preferredSize policy w vs YD_VERT \<le> height"
    and rs: "child_rects policy rl w vs width height = Inr rs" and i: "i < length vs"
  shows "c_pref YD_HORIZ (vs ! i) \<le> r_w (snd (rs ! i)) \<and> c_pref YD_VERT (vs ! i) \<le> r_h (snd (rs ! i))"
proof (cases "w_class w")
  case (ClsLayoutBox p)
  have b: "box_preferredSize p YD_HORIZ vs \<le> width" "box_preferredSize p YD_VERT vs \<le> height"
    using sz by (simp_all add: ClsLayoutBox widget_preferredSize_def)
  have wh: "0 \<le> width" "0 \<le> height"
    using b box_preferredSize_nonneg[OF good, of p YD_HORIZ] box_preferredSize_nonneg[OF good, of p YD_VERT]
    by simp_all
  have gd: "\<forall>v\<in>set vs. good_child p v" "\<forall>v\<in>set vs. 0 \<le> c_pref (other_dim p) v"
    using good good_viewD by blast+
  have "snd (rs ! i) = box_setSize rl p width height vs ! i"
    using rs i box_setSize_ok(1)[OF gd wh, of rl] by (auto simp: ClsLayoutBox child_rects_def)
  then show ?thesis using box_setSize_fits[OF good uw b i, of rl] by simp
next
  case (ClsAlignment a)
  then obtain c where c: "vs = [c]" "good_margins a"
    using ok by (auto simp: node_ok_def length_Suc_conv)
  have "c_pref YD_HORIZ c + totalMargins a YD_HORIZ \<le> width"
    "c_pref YD_VERT c + totalMargins a YD_VERT \<le> height"
    using sz by (simp_all add: ClsAlignment c(1) widget_preferredSize_def al_preferredSize_def first_child_def)
  then show ?thesis
    using al_dim_enough[OF c(2), of YD_HORIZ c width] al_dim_enough[OF c(2), of YD_VERT c height] rs i
    by (auto simp: ClsAlignment c(1) child_rects_def first_child_def al_setSize_def split_beta Let_def)
qed (use ok i sz rs in \<open>auto simp: node_ok_def widget_preferredSize_def child_rects_def
      sc_preferredSize_def first_child_def split: list.splits if_splits\<close>)

fun no_weights :: "YWidget \<Rightarrow> bool" where
  "no_weights (YWidget w cs) \<longleftrightarrow> \<not> hasWeight w YD_HORIZ \<and> \<not> hasWeight w YD_VERT \<and> list_all no_weights cs"

lemma unweighted_view: "no_weights w \<Longrightarrow> unweighted (widget_view policy w)"
  by (cases w) (simp add: unweighted_def c_hasWeight_def c_weight_def hasWeight_def weight_def Let_def)

text \<open>Every widget of a tree got at least the size it prefers.\<close>

fun fits :: "YButtonBoxLayoutPolicy \<Rightarrow> YWidget \<Rightarrow> placed \<Rightarrow> bool"
  and all_fit :: "YButtonBoxLayoutPolicy \<Rightarrow> YWidget list \<Rightarrow> placed list \<Rightarrow> bool" where
  "fits policy (YWidget w cs) (Placed r ks) \<longleftrightarrow>
     c_pref YD_HORIZ (widget_view policy (YWidget w cs)) \<le> r_w r
   \<and> c_pref YD_VERT (widget_view policy (YWidget w cs)) \<le> r_h r \<and> all_fit policy cs ks"
| "all_fit policy [] [] \<longleftrightarrow> True"
| "all_fit policy (c # cs) (k # ks) \<longleftrightarrow> fits policy c k \<and> all_fit policy cs ks"
| "all_fit policy [] (k # ks) \<longleftrightarrow> False"
| "all_fit policy (c # cs) [] \<longleftrightarrow> False"

definition room :: "YButtonBoxLayoutPolicy \<Rightarrow> YWidget \<Rightarrow> rect \<Rightarrow> bool" where
  "room policy w r \<longleftrightarrow> c_pref YD_HORIZ (widget_view policy w) \<le> r_w r
     \<and> c_pref YD_VERT (widget_view policy w) \<le> r_h r"

lemma setSize_fits:
  shows "layout_ok w \<Longrightarrow> no_weights w \<Longrightarrow> room policy w r \<Longrightarrow>
      \<exists>p. widget_setSize policy rl r w = Inr p \<and> fits policy w p"
    and "list_all layout_ok cs \<Longrightarrow> list_all no_weights cs \<Longrightarrow> map fst rs = [0..<length rs] \<Longrightarrow>
      length rs = i + length cs \<Longrightarrow>
      \<forall>j<length cs. room policy (cs ! j) (snd (rs ! (i + j))) \<Longrightarrow>
      \<exists>ps. children_setSize policy rl rs i cs = Inr ps \<and> all_fit policy cs ps"
proof (induction policy rl r w and policy rl rs i cs rule: widget_setSize_children_setSize.induct)
  case (1 policy rl r w cs)
  let ?vs = "map (widget_view policy) cs"
  have good: "\<forall>v\<in>set ?vs. good_view v" using 1(2) widget_view_good by (auto simp: list_all_iff)
  have uw: "\<forall>v\<in>set ?vs. unweighted v" using 1(3) unweighted_view by (auto simp: list_all_iff)
  have ok: "node_ok w (length ?vs)" using 1(2) by simp
  have sz: "widget_preferredSize policy w ?vs YD_HORIZ \<le> r_w r"
    "widget_preferredSize policy w ?vs YD_VERT \<le> r_h r"
    using 1(4) by (simp_all add: room_def Let_def)
  have "0 \<le> r_w r" "0 \<le> r_h r"
    using good_viewD(2)[OF widget_view_good[OF 1(2)]] 1(4) unfolding room_def by (meson order_trans)+
  then obtain rs where rs: "child_rects policy rl w ?vs (r_w r) (r_h r) = Inr rs"
    "rects_ok (r_w r) (r_h r) (length cs) rs"
    using child_rects_ok[OF ok good, of "r_w r" "r_h r" policy rl] by auto
  have fst: "map fst rs = [0..<length cs]" using rs(2) by (simp add: rects_ok_def)
  have len: "length rs = length cs" using arg_cong[OF fst, of length] by simp
  have "\<forall>j<length cs. room policy (cs ! j) (snd (rs ! (0 + j)))"
    using child_rects_fit[OF ok good uw sz rs(1)] by (simp add: room_def)
  then obtain ps where "children_setSize policy rl rs 0 cs = Inr ps" "all_fit policy cs ps"
    using 1(1)[OF rs(1)] 1(2,3) fst len by auto
  then show ?case using rs(1) sz by (simp add: Let_def)
next
  case (3 policy rl rs i c cs)
  have i: "i < length rs" using "3.prems"(4) by simp
  have q: "map_of rs i = Some (snd (rs ! i))" by (rule map_of_upt[OF "3.prems"(3) i])
  have here: "room policy c (snd (rs ! i))"
    using "3.prems"(5)[rule_format, of 0] by simp
  obtain p where p: "widget_setSize policy rl (snd (rs ! i)) c = Inr p" "fits policy c p"
    using "3.IH"(2)[OF q] "3.prems"(1,2) here by auto
  have "\<forall>j<length cs. room policy (cs ! j) (snd (rs ! (Suc i + j)))"
    using "3.prems"(5) by (metis Suc_less_eq add_Suc_right add_Suc length_Cons nth_Cons_Suc)
  then obtain ps where "children_setSize policy rl rs (Suc i) cs = Inr ps" "all_fit policy cs ps"
    using "3.IH"(3)[OF q p(1)] "3.prems"(1-4) by auto
  then show ?case using p q by simp
qed simp

section \<open>Properties\<close>

text \<open>
  C2: Resizing a whole widget tree of layout boxes, alignments, spacings, squashes and single-child
  containers, nested to any depth, never fails. At any size of the dialog, down to zero, and in both
  reading directions, every widget without children ends up inside the dialog, no two of them
  overlap, and none is left out.
\<close>

theorem layout_tree_no_overlap:
  assumes "layout_ok w" "0 \<le> width" "0 \<le> height"
  shows "\<exists>p. widget_setSize policy rl \<lparr>r_x = 0, r_y = 0, r_w = width, r_h = height\<rparr> w = Inr p
     \<and> (\<forall>r\<in>set (leaf_rects 0 0 p). inside width height r)
     \<and> sorted_wrt apart (leaf_rects 0 0 p) \<and> length (leaf_rects 0 0 p) = leaf_count w"
proof -
  let ?r = "\<lparr>r_x = 0, r_y = 0, r_w = width, r_h = height\<rparr>"
  obtain p where p: "widget_setSize policy rl ?r w = Inr p" "p_rect p = ?r" "nested_ok p"
    "placed_leaves p = leaf_count w"
    using setSize_nested(1)[of w ?r policy rl] assms by auto
  then show ?thesis
    using leaf_rects_nested[OF p(3), of 0 0]
    by (auto simp: length_leaf_rects lies_in_def shift_def inside_def)
qed

text \<open>
  C15: A widget tree without weights that gets at least its preferred size gives every widget in it
  at least the size this widget prefers.
\<close>

theorem layout_tree_preferred:
  assumes "layout_ok w" "no_weights w" "room policy w r"
  shows "\<exists>p. widget_setSize policy rl r w = Inr p \<and> fits policy w p"
  by (rule setSize_fits(1)[OF assms])

section \<open>Witnesses\<close>

definition leaf_widget :: "nat \<Rightarrow> int \<Rightarrow> int \<Rightarrow> YWidget" where
  "leaf_widget a width height = YWidget (new_widget_data a ClsLeaf [] width height) []"

definition sample_tree :: YWidget where
  "sample_tree =
     YWidget (new_widget_data 1 ClsDialog [] 0 0)
       [YWidget (new_widget_data 2 (ClsLayoutBox YD_VERT) [] 0 0)
          [YWidget (new_widget_data 3 (ClsLayoutBox YD_HORIZ) [] 0 0)
             [leaf_widget 4 20 2, YWidget (new_YSpacing (\<lambda>_ _. 2) 5 YD_HORIZ True 1) [],
              YWidget (new_widget_data 6 (ClsAlignment sample_alignment) [] 0 0) [leaf_widget 7 10 5]],
           YWidget (new_widget_data 8 (ClsSquash (YBothDim True False)) [] 0 0) [leaf_widget 9 15 1]]]"

lemma sample_tree_ok: "layout_ok sample_tree" "no_weights sample_tree" "leaf_count sample_tree = 4"
  by (simp_all add: sample_tree_def leaf_widget_def node_ok_def new_widget_data_def new_YSpacing_def
      setStretchable_def good_margins_def sample_alignment_def hasWeight_def weight_def Let_def)

theorem layout_tree_no_overlap_witness:
  "\<exists>p. widget_setSize kdeLayoutPolicy True \<lparr>r_x = 0, r_y = 0, r_w = 30, r_h = 5\<rparr> sample_tree = Inr p
     \<and> list_all (inside 30 5) (leaf_rects 0 0 p) \<and> length (leaf_rects 0 0 p) = 4"
  using layout_tree_no_overlap[OF sample_tree_ok(1), of 30 5 kdeLayoutPolicy True] sample_tree_ok(3)
  by (auto simp: list_all_iff)

theorem layout_tree_preferred_witness:
  "\<exists>p. widget_setSize kdeLayoutPolicy False \<lparr>r_x = 0, r_y = 0, r_w = 40, r_h = 10\<rparr> sample_tree = Inr p
     \<and> fits kdeLayoutPolicy sample_tree p"
proof -
  have "room kdeLayoutPolicy sample_tree \<lparr>r_x = 0, r_y = 0, r_w = 40, r_h = 10\<rparr>"
    by code_simp
  from layout_tree_preferred[OF sample_tree_ok(1,2) this] show ?thesis .
qed

end
