(* ===== verification/Yui_Radio.thy ===== *)
theory Yui_Radio
  imports Yui_Prelude
begin

text \<open>
  Radio buttons: the group of \<^verbatim>\<open>YRadioButtonGroup.cc\<close>, which relies on the \<^verbatim>\<open>setValue\<close> of its toolkit, and
  the radio buttons of the Qt and of the text mode toolkit, which call the group back. The contract
  between the two is a locale with an interpretation for each toolkit. The theory shows that in
  both toolkits at most one button of a group is ever checked, and where moving the keyboard focus
  through a group in text mode goes wrong.
\<close>

section \<open>State\<close>

text \<open>
  Buttons are numbered. \<open>rg_events\<close> collects the events sent to the application, \<open>rg_focus\<close> is the
  button that got the keyboard focus last, and \<open>rg_focusId\<close> belongs to \<^verbatim>\<open>NCRadioButtonGroup\<close>.
\<close>

record radio_group =
  rg_buttons :: "nat list"
  rg_checked :: "nat \<Rightarrow> bool"
  rg_notify :: "nat \<Rightarrow> bool"
  rg_events :: "nat list"
  rg_focusId :: int
  rg_focus :: "nat option"

definition new_radio_group :: "(nat \<Rightarrow> bool) \<Rightarrow> radio_group" where
  "new_radio_group notify =
     \<lparr>rg_buttons = [], rg_checked = (\<lambda>_. False), rg_notify = notify, rg_events = [],
      rg_focusId = 1, rg_focus = None\<rparr>"

definition setChecked :: "nat \<Rightarrow> bool \<Rightarrow> radio_group \<Rightarrow> radio_group" where
  "setChecked b v g = g\<lparr>rg_checked := (rg_checked g)(b := v)\<rparr>"

definition valueChanged :: "nat \<Rightarrow> radio_group \<Rightarrow> radio_group" where
  "valueChanged b g = (if rg_notify g b then g\<lparr>rg_events := rg_events g @ [b]\<rparr> else g)"

section \<open>YRadioButtonGroup\<close>

definition addRadioButton :: "nat \<Rightarrow> radio_group \<Rightarrow> radio_group" where
  "addRadioButton b g = g\<lparr>rg_buttons := rg_buttons g @ [b]\<rparr>"

definition removeRadioButton :: "nat \<Rightarrow> radio_group \<Rightarrow> radio_group" where
  "removeRadioButton b g = g\<lparr>rg_buttons := filter (\<lambda>c. c \<noteq> b) (rg_buttons g)\<rparr>"

text \<open>\<open>uncheck\<close> is the virtual \<^verbatim>\<open>setValue( false )\<close> of the buttons.\<close>

definition uncheckOtherButtons ::
    "(nat \<Rightarrow> radio_group \<Rightarrow> radio_group) \<Rightarrow> nat \<Rightarrow> radio_group \<Rightarrow> radio_group" where
  "uncheckOtherButtons uncheck selectedRadioButton g =
     fold (\<lambda>b g. if b \<noteq> selectedRadioButton then uncheck b g else g) (rg_buttons g) g"

definition currentButton :: "radio_group \<Rightarrow> nat option" where
  "currentButton g = List.find (rg_checked g) (rg_buttons g)"

section \<open>The Qt toolkit\<close>

definition qt_uncheck :: "nat \<Rightarrow> radio_group \<Rightarrow> radio_group" where
  "qt_uncheck b g = setChecked b False g"

definition qt_setValue :: "nat \<Rightarrow> bool \<Rightarrow> radio_group \<Rightarrow> radio_group" where
  "qt_setValue b newValue g =
     (let g1 = setChecked b newValue g
      in if newValue then uncheckOtherButtons qt_uncheck b g1 else g1)"

definition qt_addRadioButton :: "nat \<Rightarrow> radio_group \<Rightarrow> radio_group" where
  "qt_addRadioButton b g =
     (let g1 = addRadioButton b g
      in if rg_checked g1 b then uncheckOtherButtons qt_uncheck b g1 else g1)"

text \<open>The constructor and the registration in \<^verbatim>\<open>YQWidgetFactory::createRadioButton\<close>.\<close>

definition qt_createRadioButton :: "nat \<Rightarrow> bool \<Rightarrow> radio_group \<Rightarrow> radio_group" where
  "qt_createRadioButton b checked g = qt_addRadioButton b (setChecked b checked g)"

definition qt_changed_on :: "nat \<Rightarrow> radio_group \<Rightarrow> radio_group" where
  "qt_changed_on b g = valueChanged b (uncheckOtherButtons qt_uncheck b g)"

text \<open>
  The slot \<^verbatim>\<open>changed\<close>. Switching off is undone by \<^verbatim>\<open>setChecked( true )\<close>, whose signal calls the slot
  again. A mouse click toggles the button, and Qt calls the slot with the new state.
\<close>

definition qt_changed :: "nat \<Rightarrow> bool \<Rightarrow> radio_group \<Rightarrow> radio_group" where
  "qt_changed b newState g =
     (if newState then qt_changed_on b g else qt_changed_on b (setChecked b True g))"

definition qt_click :: "nat \<Rightarrow> radio_group \<Rightarrow> radio_group" where
  "qt_click b g = (let v = \<not> rg_checked g b in qt_changed b v (setChecked b v g))"

section \<open>The text mode toolkit\<close>

definition nc_uncheck :: "nat \<Rightarrow> radio_group \<Rightarrow> radio_group" where
  "nc_uncheck b g = (if rg_checked g b then valueChanged b (setChecked b False g) else g)"

definition nc_setValue :: "nat \<Rightarrow> bool \<Rightarrow> radio_group \<Rightarrow> radio_group" where
  "nc_setValue b newval g =
     (if newval \<noteq> rg_checked g b
      then let g1 = setChecked b newval g;
               g2 = (if newval then uncheckOtherButtons nc_uncheck b g1 else g1)
           in valueChanged b g2
      else g)"

text \<open>The constructor and the registration in \<^verbatim>\<open>NCWidgetFactory::createRadioButton\<close>.\<close>

definition nc_createRadioButton :: "nat \<Rightarrow> bool \<Rightarrow> radio_group \<Rightarrow> radio_group" where
  "nc_createRadioButton b check g = addRadioButton b (nc_setValue b check (setChecked b False g))"

text \<open>
  \<^verbatim>\<open>wHandleInput\<close> for the space, return and shortcut keys; the result tells whether it returns a
  \<open>ValueChanged\<close> event to the dialog.
\<close>

definition nc_select :: "nat \<Rightarrow> radio_group \<Rightarrow> radio_group" where
  "nc_select b g = nc_setValue b True g"

definition nc_select_event :: "nat \<Rightarrow> radio_group \<Rightarrow> bool" where
  "nc_select_event b g \<longleftrightarrow> rg_notify g b \<and> rg_checked g b \<noteq> rg_checked (nc_select b g) b"

text \<open>The loops of \<^verbatim>\<open>focusNextButton\<close> and \<^verbatim>\<open>focusPrevButton\<close> that count the buttons from 1.\<close>

fun focus_nth :: "int \<Rightarrow> int \<Rightarrow> nat list \<Rightarrow> nat option \<Rightarrow> nat option" where
  "focus_nth n focusId [] focus = focus"
| "focus_nth n focusId (b # bs) focus =
     focus_nth (n + 1) focusId bs (if n + 1 = focusId then Some b else focus)"

definition focusNextButton :: "radio_group \<Rightarrow> radio_group" where
  "focusNextButton g =
     (let count = int (length (rg_buttons g));
          focusId = (if rg_focusId g < count then rg_focusId g + 1
                     else if rg_focusId g = count then 0 else rg_focusId g)
      in g\<lparr>rg_focusId := focusId, rg_focus := focus_nth 0 focusId (rg_buttons g) (rg_focus g)\<rparr>)"

definition focusPrevButton :: "radio_group \<Rightarrow> radio_group" where
  "focusPrevButton g =
     (let count = int (length (rg_buttons g));
          focusId = (if rg_focusId g > 0 then rg_focusId g - 1
                     else if rg_focusId g = 0 then count - 1 else rg_focusId g)
      in g\<lparr>rg_focusId := focusId, rg_focus := focus_nth 0 focusId (rg_buttons g) (rg_focus g)\<rparr>)"

section \<open>Unchecking\<close>

definition checked_buttons :: "radio_group \<Rightarrow> nat list" where
  "checked_buttons g = filter (rg_checked g) (rg_buttons g)"

lemma setChecked_simps [simp]:
  "rg_buttons (setChecked b v g) = rg_buttons g" "rg_checked (setChecked b v g) = (rg_checked g)(b := v)"
  by (simp_all add: setChecked_def)

lemma valueChanged_simps [simp]:
  "rg_buttons (valueChanged b g) = rg_buttons g" "rg_checked (valueChanged b g) = rg_checked g"
  by (simp_all add: valueChanged_def)

text \<open>The contract of \<^verbatim>\<open>setValue( false )\<close>: the button is off afterwards and nothing else changes.\<close>

locale unchecking =
  fixes uncheck :: "nat \<Rightarrow> radio_group \<Rightarrow> radio_group"
  assumes uncheck_buttons: "rg_buttons (uncheck b g) = rg_buttons g"
    and uncheck_checked: "rg_checked (uncheck b g) = (rg_checked g)(b := False)"
begin

lemma fold_uncheck:
  "rg_buttons (fold (\<lambda>b g. if b \<noteq> s then uncheck b g else g) bs g) = rg_buttons g \<and>
   rg_checked (fold (\<lambda>b g. if b \<noteq> s then uncheck b g else g) bs g) c
     = (rg_checked g c \<and> (c \<in> set bs \<longrightarrow> c = s))"
  by (induction bs arbitrary: g) (auto simp: uncheck_buttons uncheck_checked)

lemma uncheckOther_buttons: "rg_buttons (uncheckOtherButtons uncheck s g) = rg_buttons g"
  by (simp add: uncheckOtherButtons_def fold_uncheck)

lemma uncheckOther_checked:
  "rg_checked (uncheckOtherButtons uncheck s g) c
     \<longleftrightarrow> rg_checked g c \<and> (c \<in> set (rg_buttons g) \<longrightarrow> c = s)"
  by (simp add: uncheckOtherButtons_def fold_uncheck)

end

interpretation qt_off: unchecking qt_uncheck
  by unfold_locales (simp_all add: qt_uncheck_def)

interpretation nc_off: unchecking nc_uncheck
  by unfold_locales (auto simp: nc_uncheck_def fun_eq_iff)

lemmas unchecking_simps = qt_off.uncheckOther_buttons qt_off.uncheckOther_checked
  nc_off.uncheckOther_buttons nc_off.uncheckOther_checked

section \<open>The contract of a toolkit\<close>

definition exclusive :: "radio_group \<Rightarrow> bool" where
  "exclusive g \<longleftrightarrow> distinct (rg_buttons g) \<and> length (checked_buttons g) \<le> 1"

lemma exclusive_checked:
  assumes "exclusive g" "b \<in> set (rg_buttons g)" "rg_checked g b" "c \<in> set (rg_buttons g)" "rg_checked g c"
  shows "c = b"
proof -
  have "b \<in> set (checked_buttons g)" "c \<in> set (checked_buttons g)" "length (checked_buttons g) \<le> 1"
    using assms by (simp_all add: exclusive_def checked_buttons_def)
  then show ?thesis by (cases "checked_buttons g") auto
qed

lemma exclusiveI:
  assumes "distinct (rg_buttons g)" "\<And>c. c \<in> set (rg_buttons g) \<Longrightarrow> rg_checked g c \<Longrightarrow> c = b"
  shows "exclusive g"
proof -
  have d: "distinct (checked_buttons g)" using assms(1) by (simp add: checked_buttons_def)
  have "set (checked_buttons g) \<subseteq> {b}" using assms(2) by (auto simp: checked_buttons_def)
  then have "card (set (checked_buttons g)) \<le> card {b}" by (intro card_mono) simp_all
  then show ?thesis using assms(1) by (simp add: exclusive_def distinct_card[OF d])
qed

lemma find_only: "b \<in> set xs \<Longrightarrow> (\<And>c. c \<in> set xs \<Longrightarrow> P c = (c = b)) \<Longrightarrow> List.find P xs = Some b"
  by (induction xs) auto

datatype radio_op = Create nat bool | SetValue nat bool | UserSelect nat | Delete nat

text \<open>
  The uses of a group: creating a button that is not in it, and the program or the user changing,
  or the program deleting, one that is.
\<close>

definition radio_step ::
    "(nat \<Rightarrow> bool \<Rightarrow> radio_group \<Rightarrow> radio_group) \<Rightarrow> (nat \<Rightarrow> bool \<Rightarrow> radio_group \<Rightarrow> radio_group)
     \<Rightarrow> (nat \<Rightarrow> radio_group \<Rightarrow> radio_group) \<Rightarrow> radio_op \<Rightarrow> radio_group \<Rightarrow> radio_group" where
  "radio_step create setValue select op g =
     (case op of
        Create b v \<Rightarrow> if b \<in> set (rg_buttons g) then g else create b v g
      | SetValue b v \<Rightarrow> if b \<in> set (rg_buttons g) then setValue b v g else g
      | UserSelect b \<Rightarrow> if b \<in> set (rg_buttons g) then select b g else g
      | Delete b \<Rightarrow> removeRadioButton b g)"

locale radio_toolkit =
  fixes create setValue :: "nat \<Rightarrow> bool \<Rightarrow> radio_group \<Rightarrow> radio_group"
    and select :: "nat \<Rightarrow> radio_group \<Rightarrow> radio_group"
  assumes create_buttons: "rg_buttons (create b v g) = rg_buttons g @ [b]"
    and create_checked: "b \<notin> set (rg_buttons g) \<Longrightarrow> c \<in> set (rg_buttons g) \<Longrightarrow>
      rg_checked (create b v g) c = (rg_checked g c \<and> \<not> v)"
    and create_new: "b \<notin> set (rg_buttons g) \<Longrightarrow> rg_checked (create b v g) b = v"
    and setValue_buttons: "rg_buttons (setValue b v g) = rg_buttons g"
    and setValue_on: "exclusive g \<Longrightarrow> b \<in> set (rg_buttons g) \<Longrightarrow> c \<in> set (rg_buttons g) \<Longrightarrow>
      rg_checked (setValue b True g) c = (c = b)"
    and setValue_off: "rg_checked (setValue b False g) = (rg_checked g)(b := False)"
    and select_buttons: "rg_buttons (select b g) = rg_buttons g"
    and select_on: "exclusive g \<Longrightarrow> b \<in> set (rg_buttons g) \<Longrightarrow> c \<in> set (rg_buttons g) \<Longrightarrow>
      rg_checked (select b g) c = (c = b)"
begin

lemma create_exclusive:
  assumes "exclusive g" "b \<notin> set (rg_buttons g)"
  shows "exclusive (create b v g)"
proof (cases v)
  case True
  then show ?thesis
    using assms by (intro exclusiveI[of _ b])
      (auto simp: create_buttons create_checked exclusive_def)
next
  case False
  then have "checked_buttons (create b v g) = checked_buttons g"
    using assms(2) by (auto simp: checked_buttons_def create_buttons create_checked create_new intro: filter_cong)
  then show ?thesis using assms by (simp add: exclusive_def create_buttons)
qed

lemma setValue_exclusive:
  assumes "exclusive g" "b \<in> set (rg_buttons g)"
  shows "exclusive (setValue b v g)"
proof (cases v)
  case True
  then show ?thesis
    using assms by (intro exclusiveI[of _ b]) (auto simp: setValue_buttons setValue_on exclusive_def)
next
  case False
  have "checked_buttons (setValue b False g) = filter (\<lambda>c. c \<noteq> b) (checked_buttons g)"
    by (auto simp: checked_buttons_def setValue_buttons setValue_off intro!: filter_cong
        split: if_splits)
  then have "length (checked_buttons (setValue b False g)) \<le> length (checked_buttons g)"
    by (simp only: length_filter_le)
  then show ?thesis using assms(1) False by (simp add: exclusive_def setValue_buttons)
qed

lemma select_exclusive:
  assumes "exclusive g" "b \<in> set (rg_buttons g)"
  shows "exclusive (select b g)"
  using assms by (intro exclusiveI[of _ b]) (auto simp: select_buttons select_on exclusive_def)

lemma remove_exclusive: "exclusive g \<Longrightarrow> exclusive (removeRadioButton b g)"
proof -
  assume g: "exclusive g"
  have "checked_buttons (removeRadioButton b g) = filter (\<lambda>c. c \<noteq> b) (checked_buttons g)"
    by (simp add: checked_buttons_def removeRadioButton_def conj_commute)
  then have "length (checked_buttons (removeRadioButton b g)) \<le> length (checked_buttons g)"
    by (simp only: length_filter_le)
  then show ?thesis using g by (simp add: exclusive_def removeRadioButton_def)
qed

lemma step_exclusive: "exclusive g \<Longrightarrow> exclusive (radio_step create setValue select op g)"
  by (cases op) (auto simp: radio_step_def create_exclusive setValue_exclusive select_exclusive
      remove_exclusive)

lemma run_exclusive:
  "exclusive g \<Longrightarrow> exclusive (fold (radio_step create setValue select) ops g)"
  by (induction ops arbitrary: g) (auto simp: step_exclusive)

lemma new_exclusive: "exclusive (new_radio_group notify)"
  by (simp add: exclusive_def new_radio_group_def checked_buttons_def)

lemma current_selected:
  assumes "exclusive g" "b \<in> set (rg_buttons g)"
  shows "currentButton (setValue b True g) = Some b" "currentButton (select b g) = Some b"
proof -
  show "currentButton (setValue b True g) = Some b" "currentButton (select b g) = Some b"
    using assms by (auto intro!: find_only simp: currentButton_def setValue_buttons select_buttons setValue_on select_on)
qed

end

interpretation qt_radio: radio_toolkit qt_createRadioButton qt_setValue qt_click
proof unfold_locales
  fix g b c
  show "rg_checked (qt_click b g) c = (c = b)"
    if "exclusive g" "b \<in> set (rg_buttons g)" "c \<in> set (rg_buttons g)"
    using that by (auto simp: qt_click_def qt_changed_def qt_changed_on_def Let_def unchecking_simps)
qed (auto simp: qt_createRadioButton_def qt_addRadioButton_def addRadioButton_def qt_setValue_def
    qt_click_def qt_changed_def qt_changed_on_def Let_def unchecking_simps)

interpretation nc_radio: radio_toolkit nc_createRadioButton nc_setValue nc_select
proof unfold_locales
  fix g b c
  show on: "rg_checked (nc_setValue b True g) c = (c = b)"
    if "exclusive g" "b \<in> set (rg_buttons g)" "c \<in> set (rg_buttons g)"
    using that exclusive_checked[of g b c]
    by (cases "rg_checked g b") (auto simp: nc_setValue_def Let_def unchecking_simps)
  show "rg_checked (nc_select b g) c = (c = b)"
    if "exclusive g" "b \<in> set (rg_buttons g)" "c \<in> set (rg_buttons g)"
    unfolding nc_select_def by (rule on[OF that])
qed (auto simp: nc_createRadioButton_def nc_setValue_def nc_select_def addRadioButton_def Let_def
    unchecking_simps fun_eq_iff)

section \<open>Properties\<close>

abbreviation qt_run :: "(nat \<Rightarrow> bool) \<Rightarrow> radio_op list \<Rightarrow> radio_group" where
  "qt_run notify ops \<equiv>
     fold (radio_step qt_createRadioButton qt_setValue qt_click) ops (new_radio_group notify)"

abbreviation nc_run :: "(nat \<Rightarrow> bool) \<Rightarrow> radio_op list \<Rightarrow> radio_group" where
  "nc_run notify ops \<equiv>
     fold (radio_step nc_createRadioButton nc_setValue nc_select) ops (new_radio_group notify)"

text \<open>
  C16: In both toolkits, whatever the program and the user do, at most one button of a radio group is
  checked.
\<close>

theorem radio_exclusive:
  "length (checked_buttons (qt_run notify ops)) \<le> 1 \<and> length (checked_buttons (nc_run notify ops)) \<le> 1"
  using qt_radio.run_exclusive[OF qt_radio.new_exclusive] nc_radio.run_exclusive[OF nc_radio.new_exclusive]
  by (simp add: exclusive_def)

text \<open>
  After any history, a button of the group that is switched on by the program or selected by the user
  is the current button, even if it was on before.
\<close>

lemma radio_current:
  assumes "b \<in> set (rg_buttons (qt_run notify ops))" "b \<in> set (rg_buttons (nc_run notify ops'))"
  shows "currentButton (qt_setValue b True (qt_run notify ops)) = Some b"
    "currentButton (qt_click b (qt_run notify ops)) = Some b"
    "currentButton (nc_setValue b True (nc_run notify ops')) = Some b"
  using qt_radio.current_selected[OF qt_radio.run_exclusive[OF qt_radio.new_exclusive] assms(1)]
    nc_radio.current_selected[OF nc_radio.run_exclusive[OF nc_radio.new_exclusive] assms(2)]
  by simp_all

text \<open>The position that gets the focus, counted from 1, is within the group or gets nothing.\<close>

lemma focus_nth_eq:
  "focus_nth n k bs f = (if n < k \<and> k \<le> n + int (length bs) then Some (bs ! nat (k - n - 1)) else f)"
proof (induction bs arbitrary: n f)
  case Nil
  then show ?case by auto
next
  case (Cons b bs)
  consider "k = n + 1" | "n + 1 < k" | "k < n + 1" by linarith
  then show ?case
  proof cases
    case 1
    then show ?thesis using Cons.IH[of "n + 1" "Some b"] by simp
  next
    case 2
    then have "nat (k - n - 1) = Suc (nat (k - (n + 1) - 1))" by simp
    then show ?thesis using 2 by (simp add: Cons.IH)
  next
    case 3
    then show ?thesis by (simp add: Cons.IH)
  qed
qed

lemma focusPrev_iterate:
  fixes g :: radio_group
  assumes "rg_buttons g \<noteq> []" "0 \<le> rg_focusId g" "rg_focusId g < int (length (rg_buttons g))"
    and "rg_focus g \<noteq> Some (last (rg_buttons g))" "distinct (rg_buttons g)"
  defines "h \<equiv> focusPrevButton g"
  shows "rg_buttons h = rg_buttons g \<and> 0 \<le> rg_focusId h \<and> rg_focusId h < int (length (rg_buttons g))
     \<and> rg_focus h \<noteq> Some (last (rg_buttons g))"
proof -
  let ?n = "int (length (rg_buttons g))"
  have n: "0 < ?n" using assms(1) by simp
  have id: "rg_focusId h = (if rg_focusId g > 0 then rg_focusId g - 1 else ?n - 1)"
    using assms(2) by (auto simp: h_def focusPrevButton_def Let_def)
  have bounds: "0 \<le> rg_focusId h" "rg_focusId h < ?n" using id assms(2,3) n by auto
  have "rg_focus h = focus_nth 0 (rg_focusId h) (rg_buttons g) (rg_focus g)"
    by (simp add: h_def focusPrevButton_def Let_def)
  also have "\<dots> \<noteq> Some (last (rg_buttons g))"
  proof (cases "0 < rg_focusId h")
    case True
    then have "nat (rg_focusId h - 1) < length (rg_buttons g) - 1" using bounds by simp
    then have "rg_buttons g ! nat (rg_focusId h - 1) \<noteq> last (rg_buttons g)"
      using assms(1,5) by (simp add: last_conv_nth nth_eq_iff_index_eq)
    then show ?thesis using True bounds by (simp add: focus_nth_eq)
  next
    case False
    then show ?thesis using assms(4) by (simp add: focus_nth_eq)
  qed
  finally show ?thesis using bounds by (simp add: h_def focusPrevButton_def Let_def)
qed

text \<open>
  Walking through a radio group with the cursor keys in text mode misses a button. The position is
  counted from 1, but the wrap-around goes through 0, which no button has: pressing the down key on
  the last button moves the focus to no button, and however often the up key is pressed on
  the first button, the focus never reaches the last one.
\<close>

theorem focus_misses_button:
  assumes "distinct (rg_buttons g)" "2 \<le> length (rg_buttons g)"
  shows "(rg_focusId g = int (length (rg_buttons g)) \<longrightarrow> rg_focus (focusNextButton g) = rg_focus g)
     \<and> (rg_focusId g = 1 \<and> rg_focus g = Some (hd (rg_buttons g)) \<longrightarrow>
          rg_focus ((focusPrevButton ^^ k) g) \<noteq> Some (last (rg_buttons g)))"
proof (intro conjI impI)
  assume "rg_focusId g = int (length (rg_buttons g))"
  then show "rg_focus (focusNextButton g) = rg_focus g"
    by (simp add: focusNextButton_def focus_nth_eq)
next
  assume start: "rg_focusId g = 1 \<and> rg_focus g = Some (hd (rg_buttons g))"
  have ne: "rg_buttons g \<noteq> []" using assms(2) by auto
  have "hd (rg_buttons g) \<noteq> last (rg_buttons g)"
    using assms ne by (simp add: hd_conv_nth last_conv_nth nth_eq_iff_index_eq)
  then have "rg_buttons ((focusPrevButton ^^ k) g) = rg_buttons g
     \<and> 0 \<le> rg_focusId ((focusPrevButton ^^ k) g)
     \<and> rg_focusId ((focusPrevButton ^^ k) g) < int (length (rg_buttons g))
     \<and> rg_focus ((focusPrevButton ^^ k) g) \<noteq> Some (last (rg_buttons g))"
    using start assms
  proof (induction k)
    case (Suc k)
    then show ?case
      using focusPrev_iterate[of "(focusPrevButton ^^ k) g"] ne by simp
  qed simp
  then show "rg_focus ((focusPrevButton ^^ k) g) \<noteq> Some (last (rg_buttons g))" by simp
qed

definition three_buttons :: radio_group where
  "three_buttons = (nc_run (\<lambda>_. False) [Create 1 True, Create 2 False, Create 3 False])\<lparr>rg_focus := Some 1\<rparr>"

theorem focus_misses_button_witness:
  "rg_focus ((focusPrevButton ^^ 7) three_buttons) \<noteq> Some 3"
proof -
  have "rg_buttons three_buttons = [1, 2, 3]" "rg_focusId three_buttons = 1"
    "rg_focus three_buttons = Some 1"
    by code_simp+
  then show ?thesis using focus_misses_button[of three_buttons 7] by simp
qed

end
