(* ===== verification/Yui_Table.thy ===== *)
theory Yui_Table
  imports Yui_Item
begin

text \<open>
  The rows of a table (\<^verbatim>\<open>YTableItem.cc\<close>): cells in a store of their own, the vectors of cell pointers
  the items own, adding cells, and the destructor that deletes them. The theory shows that items
  filled with texts own their cells exclusively, so that destruction frees every cell once,
  that the labels given are the labels found, and that passing cell objects around defeats
  the check that should prevent shared cells.
\<close>

section \<open>State\<close>

record YTableCell =
  tc_label :: string
  tc_iconName :: string
  tc_sortKey :: string
  tc_parent :: "nat option"
  tc_column :: int

text \<open>\<open>ts_items\<close> has the vector \<^verbatim>\<open>_cells\<close> of every living item, \<open>ts_fresh\<close> the next address of \<^verbatim>\<open>new\<close>.\<close>

record tables =
  ts_cells :: "nat \<rightharpoonup> YTableCell"
  ts_items :: "nat \<rightharpoonup> nat list"
  ts_fresh :: nat

text \<open>
  An operation returns the state it leaves also when it throws, since what it did before stays done.
\<close>

type_synonym 's effect_result = "yui_exception option \<times> 's"

definition new_YTableCell :: "string \<Rightarrow> string \<Rightarrow> string \<Rightarrow> YTableCell" where
  "new_YTableCell label icon sortKey =
     \<lparr>tc_label = label, tc_iconName = icon, tc_sortKey = sortKey, tc_parent = None, tc_column = -1\<rparr>"

definition new_YTableItem :: "nat \<Rightarrow> tables \<Rightarrow> tables" where
  "new_YTableItem i t = t\<lparr>ts_items := (ts_items t)(i \<mapsto> [])\<rparr>"

section \<open>Adding cells\<close>

definition reparent :: "nat \<Rightarrow> nat \<Rightarrow> int \<Rightarrow> tables \<Rightarrow> tables effect_result" where
  "reparent c parent column t =
     (case ts_cells t c of
        None \<Rightarrow> (Some (undefined_behaviour ''dangling YTableCell pointer''), t)
      | Some cell \<Rightarrow>
          if tc_parent cell \<noteq> None \<and> tc_parent cell \<noteq> Some parent \<and> tc_column cell \<noteq> column
          then (Some (YUIException (''Cannot reparent YTableCell '' @ tc_label cell
                                    @ ''to different parent.'')), t)
          else (None, t\<lparr>ts_cells := (ts_cells t)(c \<mapsto> cell\<lparr>tc_parent := Some parent,
                                                          tc_column := column\<rparr>)\<rparr>))"

definition addCell :: "nat \<Rightarrow> nat option \<Rightarrow> tables \<Rightarrow> tables effect_result" where
  "addCell item cell t =
     (case cell of
        None \<Rightarrow> (Some YUINullPointerException, t)
      | Some c \<Rightarrow>
          (case ts_items t item of
             None \<Rightarrow> (Some (undefined_behaviour ''dangling YTableItem pointer''), t)
           | Some cells \<Rightarrow>
               let cells1 = cells @ [c]
               in reparent c item (int (length cells1) - 1)
                    (t\<lparr>ts_items := (ts_items t)(item \<mapsto> cells1)\<rparr>)))"

definition addCell_text :: "nat \<Rightarrow> string \<Rightarrow> string \<Rightarrow> string \<Rightarrow> tables \<Rightarrow> tables effect_result" where
  "addCell_text item label icon sortKey t =
     (let c = ts_fresh t
      in addCell item (Some c)
           (t\<lparr>ts_cells := (ts_cells t)(c \<mapsto> new_YTableCell label icon sortKey), ts_fresh := Suc c\<rparr>))"

text \<open>The loop that looks for the last nonempty label; it never looks at the first one.\<close>

fun last_label :: "string list \<Rightarrow> nat \<Rightarrow> nat" where
  "last_label labels 0 = 0"
| "last_label labels (Suc i) =
     (if labels ! Suc i = [] then if i > 0 then last_label labels i else 0 else Suc i)"

fun addCell_loop :: "nat \<Rightarrow> string list \<Rightarrow> tables \<Rightarrow> tables effect_result" where
  "addCell_loop item [] t = (None, t)"
| "addCell_loop item (l # ls) t =
     (case addCell_text item l [] [] t of
        (Some e, t1) \<Rightarrow> (Some e, t1)
      | (None, t1) \<Rightarrow> addCell_loop item ls t1)"

text \<open>\<^verbatim>\<open>addCells\<close> with its ten parameters as a list.\<close>

definition addCells :: "nat \<Rightarrow> string list \<Rightarrow> tables \<Rightarrow> tables effect_result" where
  "addCells item labels t =
     addCell_loop item (take (Suc (last_label labels (length labels - 1))) labels) t"

section \<open>Accessors\<close>

definition hasCell :: "nat list \<Rightarrow> int \<Rightarrow> bool" where
  "hasCell cells index \<longleftrightarrow> index \<ge> 0 \<and> index < int (length cells)"

definition table_cell :: "tables \<Rightarrow> nat \<Rightarrow> int \<Rightarrow> nat option" where
  "table_cell t item index =
     (case ts_items t item of
        None \<Rightarrow> None
      | Some cells \<Rightarrow> if hasCell cells index then Some (cells ! nat index) else None)"

definition cell_text :: "(YTableCell \<Rightarrow> string) \<Rightarrow> tables \<Rightarrow> nat \<Rightarrow> int \<Rightarrow> string" where
  "cell_text sel t item index =
     (case table_cell t item index of
        None \<Rightarrow> []
      | Some c \<Rightarrow> (case ts_cells t c of None \<Rightarrow> [] | Some cell \<Rightarrow> sel cell))"

definition table_label :: "tables \<Rightarrow> nat \<Rightarrow> int \<Rightarrow> string" where
  "table_label = cell_text tc_label"

definition table_iconName :: "tables \<Rightarrow> nat \<Rightarrow> int \<Rightarrow> string" where
  "table_iconName = cell_text tc_iconName"

definition table_hasIconName :: "tables \<Rightarrow> nat \<Rightarrow> int \<Rightarrow> bool" where
  "table_hasIconName t item index \<longleftrightarrow> table_iconName t item index \<noteq> []"

definition MIN_DEBUG_LABEL_LEN :: nat where
  "MIN_DEBUG_LABEL_LEN = 20"

fun debug_loop :: "string \<Rightarrow> string list \<Rightarrow> string" where
  "debug_loop text [] = text"
| "debug_loop text (l # ls) =
     (let text1 = (if text \<noteq> [] then text @ '' | '' else text) @ l
      in if length text1 > MIN_DEBUG_LABEL_LEN then text1 else debug_loop text1 ls)"

definition table_debugLabel :: "tables \<Rightarrow> nat \<Rightarrow> string" where
  "table_debugLabel t item =
     (case ts_items t item of
        None \<Rightarrow> []
      | Some cells \<Rightarrow>
          if cells = [] then ''[empty]''
          else limitLength (debug_loop [] (map (\<lambda>i. table_label t item (int i)) [0..<length cells])) 40)"

section \<open>Destruction\<close>

fun delete_cells :: "nat list \<Rightarrow> tables \<Rightarrow> tables effect_result" where
  "delete_cells [] t = (None, t)"
| "delete_cells (c # cs) t =
     (if ts_cells t c = None then (Some (undefined_behaviour ''YTableCell deleted twice''), t)
      else delete_cells cs (t\<lparr>ts_cells := (ts_cells t)(c := None)\<rparr>))"

definition deleteCells :: "nat \<Rightarrow> tables \<Rightarrow> tables effect_result" where
  "deleteCells item t =
     (case ts_items t item of
        None \<Rightarrow> (Some (undefined_behaviour ''dangling YTableItem pointer''), t)
      | Some cells \<Rightarrow>
          (case delete_cells cells t of
             (Some e, t1) \<Rightarrow> (Some e, t1)
           | (None, t1) \<Rightarrow> (None, t1\<lparr>ts_items := (ts_items t1)(item \<mapsto> [])\<rparr>)))"

definition delete_YTableItem :: "nat \<Rightarrow> tables \<Rightarrow> tables effect_result" where
  "delete_YTableItem item t =
     (case deleteCells item t of
        (Some e, t1) \<Rightarrow> (Some e, t1)
      | (None, t1) \<Rightarrow> (None, t1\<lparr>ts_items := (ts_items t1)(item := None)\<rparr>))"

section \<open>Exclusive ownership\<close>

definition owned_cell :: "tables \<Rightarrow> nat \<Rightarrow> nat list \<Rightarrow> nat \<Rightarrow> bool" where
  "owned_cell t item cells j \<longleftrightarrow>
     (\<exists>cell. ts_cells t (cells ! j) = Some cell \<and> tc_parent cell = Some item \<and> tc_column cell = int j)"

text \<open>
  Every cell in an item's vector is alive and knows the item and its column; every living cell is in
  the vector of its parent.
\<close>

definition cells_ok :: "tables \<Rightarrow> bool" where
  "cells_ok t \<longleftrightarrow>
     (\<forall>item cells. ts_items t item = Some cells \<longrightarrow> (\<forall>j<length cells. owned_cell t item cells j))
   \<and> (\<forall>c cell. ts_cells t c = Some cell \<longrightarrow>
        c < ts_fresh t \<and> (\<exists>p cells. tc_parent cell = Some p \<and> ts_items t p = Some cells \<and> c \<in> set cells))"

lemma cells_okD:
  assumes "cells_ok t"
  shows "ts_items t item = Some cells \<Longrightarrow> j < length cells \<Longrightarrow> owned_cell t item cells j"
    and "ts_cells t c = Some cell \<Longrightarrow> c < ts_fresh t"
    and "ts_cells t c = Some cell \<Longrightarrow>
      \<exists>p cells. tc_parent cell = Some p \<and> ts_items t p = Some cells \<and> c \<in> set cells"
  using assms unfolding cells_ok_def by blast+

lemma cells_ok_member:
  assumes "cells_ok t" "ts_items t item = Some cells" "c \<in> set cells"
  shows "\<exists>cell. ts_cells t c = Some cell \<and> tc_parent cell = Some item"
proof -
  obtain j where "j < length cells" "cells ! j = c" using assms(3) by (auto simp: in_set_conv_nth)
  then show ?thesis using cells_okD(1)[OF assms(1,2)] by (auto simp: owned_cell_def)
qed

lemma cells_ok_distinct:
  assumes "cells_ok t" "ts_items t item = Some cells"
  shows "distinct cells"
proof -
  have "j = k" if "j < length cells" "k < length cells" "cells ! j = cells ! k" for j k
    using cells_okD(1)[OF assms that(1)] cells_okD(1)[OF assms that(2)] that(3)
    by (auto simp: owned_cell_def)
  then show ?thesis by (auto simp: distinct_conv_nth)
qed

lemma addCell_text_ok:
  assumes ok: "cells_ok t" and item: "ts_items t item = Some cells"
  shows "\<exists>t'. addCell_text item l ic k t = (None, t') \<and> cells_ok t'
     \<and> ts_items t' = (ts_items t)(item \<mapsto> cells @ [ts_fresh t])
     \<and> ts_cells t' = (ts_cells t)(ts_fresh t \<mapsto> \<lparr>tc_label = l, tc_iconName = ic, tc_sortKey = k,
          tc_parent = Some item, tc_column = int (length cells)\<rparr>)"
proof -
  let ?c = "ts_fresh t"
  let ?cell = "\<lparr>tc_label = l, tc_iconName = ic, tc_sortKey = k, tc_parent = Some item,
      tc_column = int (length cells)\<rparr>"
  let ?t = "t\<lparr>ts_cells := (ts_cells t)(?c \<mapsto> ?cell), ts_items := (ts_items t)(item \<mapsto> cells @ [?c]),
      ts_fresh := Suc ?c\<rparr>"
  have res: "addCell_text item l ic k t = (None, ?t)"
    using item by (simp add: addCell_text_def addCell_def reparent_def new_YTableCell_def Let_def)
  have old: "x \<noteq> ?c" if "ts_cells t x = Some cell" for x cell
    using cells_okD(2)[OF ok that] by simp
  have old_in: "x \<noteq> ?c" if "ts_items t i = Some xs" "x \<in> set xs" for i xs x
    using cells_ok_member[OF ok that] old by blast
  have own: "owned_cell ?t i xs j" if i: "ts_items ?t i = Some xs" and j: "j < length xs" for i xs j
  proof (cases "i = item")
    case True
    then have xs: "xs = cells @ [?c]" using i by simp
    show ?thesis
    proof (cases "j < length cells")
      case lt: True
      have "cells ! j \<noteq> ?c" using old_in[OF item] lt by simp
      then show ?thesis
        using cells_okD(1)[OF ok item lt] lt by (simp add: owned_cell_def xs True nth_append)
    next
      case False
      then have "j = length cells" using j xs by simp
      then show ?thesis by (simp add: owned_cell_def xs True)
    qed
  next
    case False
    then have xs: "ts_items t i = Some xs" using i by simp
    have "xs ! j \<noteq> ?c" using old_in[OF xs] j by simp
    then show ?thesis using cells_okD(1)[OF ok xs j] by (simp add: owned_cell_def)
  qed
  have home: "\<exists>p xs. tc_parent cell = Some p \<and> ts_items ?t p = Some xs \<and> x \<in> set xs"
    if x: "ts_cells ?t x = Some cell" for x cell
  proof (cases "x = ?c")
    case True
    then show ?thesis using x by auto
  next
    case False
    then obtain p xs where "tc_parent cell = Some p" "ts_items t p = Some xs" "x \<in> set xs"
      using x cells_okD(3)[OF ok, of x cell] by auto
    then show ?thesis using item by (cases "p = item") auto
  qed
  have "x < Suc ?c" if "ts_cells ?t x = Some cell" for x cell
    using that cells_okD(2)[OF ok, of x] by (auto split: if_splits intro: less_SucI)
  then have "cells_ok ?t" using own home unfolding cells_ok_def by simp
  then show ?thesis using res by simp
qed

definition labels_of :: "tables \<Rightarrow> nat list \<Rightarrow> string list" where
  "labels_of t cells = map (\<lambda>c. case ts_cells t c of None \<Rightarrow> [] | Some cell \<Rightarrow> tc_label cell) cells"

lemma addCell_loop_ok:
  assumes "cells_ok t" "ts_items t item = Some cells"
  shows "\<exists>t' cells'. addCell_loop item ls t = (None, t') \<and> cells_ok t'
     \<and> ts_items t' = (ts_items t)(item \<mapsto> cells') \<and> labels_of t' cells' = labels_of t cells @ ls"
  using assms
proof (induction ls arbitrary: t cells)
  case Nil
  then show ?case by (intro exI[of _ t] exI[of _ cells]) (simp add: map_upd_triv)
next
  case (Cons l ls)
  obtain t1 where t1: "addCell_text item l [] [] t = (None, t1)" "cells_ok t1"
    "ts_items t1 = (ts_items t)(item \<mapsto> cells @ [ts_fresh t])"
    "ts_cells t1 = (ts_cells t)(ts_fresh t \<mapsto> \<lparr>tc_label = l, tc_iconName = [], tc_sortKey = [],
        tc_parent = Some item, tc_column = int (length cells)\<rparr>)"
    using addCell_text_ok[OF Cons.prems] by blast
  have "ts_fresh t \<notin> set cells"
    using cells_ok_member[OF Cons.prems] cells_okD(2)[OF Cons.prems(1)] by blast
  then have lab: "labels_of t1 (cells @ [ts_fresh t]) = labels_of t cells @ [l]"
    by (auto simp: labels_of_def t1(4))
  have item1: "ts_items t1 item = Some (cells @ [ts_fresh t])" by (simp add: t1(3))
  obtain t' cells' where "addCell_loop item ls t1 = (None, t')" "cells_ok t'"
    "ts_items t' = (ts_items t1)(item \<mapsto> cells')" "labels_of t' cells' = labels_of t cells @ l # ls"
    using Cons.IH[OF t1(2) item1] lab by (auto simp del: fun_upd_apply)
  then show ?case using t1(1,3) by (auto simp del: fun_upd_apply)
qed

lemma last_label_le: "last_label labels i \<le> i"
  by (induction labels i rule: last_label.induct) auto

lemma last_label_rest:
  "last_label labels i < j \<Longrightarrow> j \<le> i \<Longrightarrow> labels ! j = []"
  by (induction labels i rule: last_label.induct) (auto simp: le_Suc_eq split: if_splits)

text \<open>Deleting the cells of an item.\<close>

lemma delete_cells_ok:
  "distinct cs \<Longrightarrow> set cs \<subseteq> dom (ts_cells t) \<Longrightarrow>
     delete_cells cs t = (None, t\<lparr>ts_cells := (ts_cells t) |` (- set cs)\<rparr>)"
proof (induction cs arbitrary: t)
  case (Cons c cs)
  let ?t = "t\<lparr>ts_cells := (ts_cells t)(c := None)\<rparr>"
  have "delete_cells (c # cs) t = delete_cells cs ?t" using Cons.prems by auto
  also have "\<dots> = (None, ?t\<lparr>ts_cells := (ts_cells ?t) |` (- set cs)\<rparr>)"
    using Cons.prems by (intro Cons.IH) auto
  also have "(ts_cells ?t) |` (- set cs) = (ts_cells t) |` (- set (c # cs))"
    by (auto simp: restrict_map_def fun_eq_iff)
  finally show ?case by simp
qed (simp add: restrict_map_def)

lemma deleteCells_ok:
  assumes ok: "cells_ok t" and item: "ts_items t item = Some cells"
  shows "deleteCells item t
      = (None, t\<lparr>ts_cells := (ts_cells t) |` (- set cells), ts_items := (ts_items t)(item \<mapsto> [])\<rparr>)"
    and "cells_ok (t\<lparr>ts_cells := (ts_cells t) |` (- set cells), ts_items := (ts_items t)(item \<mapsto> [])\<rparr>)"
    and "cells_ok (t\<lparr>ts_cells := (ts_cells t) |` (- set cells), ts_items := (ts_items t)(item := None)\<rparr>)"
proof -
  have "set cells \<subseteq> dom (ts_cells t)" using cells_ok_member[OF ok item] by blast
  then show "deleteCells item t
      = (None, t\<lparr>ts_cells := (ts_cells t) |` (- set cells), ts_items := (ts_items t)(item \<mapsto> [])\<rparr>)"
    using delete_cells_ok[OF cells_ok_distinct[OF ok item]] item by (simp add: deleteCells_def)
  have own: "\<exists>cell. ((ts_cells t) |` (- set cells)) (xs ! j) = Some cell
      \<and> tc_parent cell = Some i \<and> tc_column cell = int j"
    if "i \<noteq> item" "ts_items t i = Some xs" "j < length xs" for i xs j
  proof -
    have "xs ! j \<notin> set cells"
      using cells_ok_member[OF ok item] cells_ok_member[OF ok that(2), of "xs ! j"] that(1,3) by fastforce
    then show ?thesis using cells_okD(1)[OF ok that(2,3)] by (simp add: owned_cell_def)
  qed
  have home: "\<exists>p xs. tc_parent cell = Some p \<and> p \<noteq> item \<and> ts_items t p = Some xs \<and> x \<in> set xs"
    if "((ts_cells t) |` (- set cells)) x = Some cell" for x cell
    using that cells_okD(3)[OF ok, of x cell] item by (auto simp: restrict_map_def split: if_splits)
  have fresh: "x < ts_fresh t" if "((ts_cells t) |` (- set cells)) x = Some cell" for x cell
    using that cells_okD(2)[OF ok, of x] by (auto simp: restrict_map_def split: if_splits)
  show "cells_ok (t\<lparr>ts_cells := (ts_cells t) |` (- set cells), ts_items := (ts_items t)(item \<mapsto> [])\<rparr>)"
    "cells_ok (t\<lparr>ts_cells := (ts_cells t) |` (- set cells), ts_items := (ts_items t)(item := None)\<rparr>)"
    using own fresh home unfolding cells_ok_def owned_cell_def
    by (auto split: if_splits simp del: restrict_map_def, (metis+)?)
qed

section \<open>Histories\<close>

datatype table_op = NewItem nat | AddCell nat string string string | AddCells nat "string list"
  | DeleteCells nat | DeleteItem nat

text \<open>Operations on living items only, and a new item at a free address.\<close>

definition table_step :: "table_op \<Rightarrow> tables \<Rightarrow> tables effect_result" where
  "table_step op t =
     (case op of
        NewItem i \<Rightarrow> (None, if ts_items t i = None then new_YTableItem i t else t)
      | AddCell i l ic k \<Rightarrow> if ts_items t i = None then (None, t) else addCell_text i l ic k t
      | AddCells i ls \<Rightarrow> if ts_items t i = None then (None, t) else addCells i ls t
      | DeleteCells i \<Rightarrow> if ts_items t i = None then (None, t) else deleteCells i t
      | DeleteItem i \<Rightarrow> if ts_items t i = None then (None, t) else delete_YTableItem i t)"

fun table_run :: "table_op list \<Rightarrow> tables \<Rightarrow> tables effect_result" where
  "table_run [] t = (None, t)"
| "table_run (op # ops) t =
     (case table_step op t of (Some e, t1) \<Rightarrow> (Some e, t1) | (None, t1) \<Rightarrow> table_run ops t1)"

definition no_tables :: tables where
  "no_tables = \<lparr>ts_cells = Map.empty, ts_items = Map.empty, ts_fresh = 0\<rparr>"

lemma new_item_ok:
  assumes "cells_ok t" "ts_items t i = None"
  shows "cells_ok (new_YTableItem i t)"
proof -
  have "\<exists>p cells. tc_parent cell = Some p \<and> p \<noteq> i \<and> ts_items t p = Some cells \<and> c \<in> set cells"
    if "ts_cells t c = Some cell" for c cell
    using cells_okD(3)[OF assms(1) that] assms(2) by fastforce
  then show ?thesis
    using cells_okD(1,2)[OF assms(1)] unfolding cells_ok_def new_YTableItem_def
    by (auto simp: owned_cell_def split: if_splits) (metis+)?
qed

lemma table_step_ok:
  assumes ok: "cells_ok t"
  shows "\<exists>t'. table_step op t = (None, t') \<and> cells_ok t'"
proof (cases op)
  case (NewItem i)
  then show ?thesis using ok new_item_ok[of t i] by (auto simp: table_step_def)
next
  case (AddCell i l ic k)
  then show ?thesis using ok addCell_text_ok[OF ok, of i _ l ic k] by (auto simp: table_step_def)
next
  case (AddCells i ls)
  then show ?thesis
    using ok addCell_loop_ok[OF ok, of i] by (fastforce simp: table_step_def addCells_def)
next
  case (DeleteCells i)
  then show ?thesis using ok deleteCells_ok(1,2)[OF ok, of i] by (auto simp: table_step_def)
next
  case (DeleteItem i)
  then show ?thesis
    using ok deleteCells_ok(1,3)[OF ok, of i] by (auto simp: table_step_def delete_YTableItem_def)
qed

lemma table_run_ok: "cells_ok t \<Longrightarrow> \<exists>t'. table_run ops t = (None, t') \<and> cells_ok t'"
proof (induction ops arbitrary: t)
  case (Cons op ops)
  then show ?case using table_step_ok[OF Cons.prems, of op] by fastforce
qed simp

lemma no_tables_ok: "cells_ok no_tables"
  by (simp add: cells_ok_def no_tables_def)

section \<open>Properties\<close>

text \<open>
  C17: As long as cells are made from texts, no history of creating, filling and deleting table items
  without child items (rows that are not nested) fails. Every cell in an item's vector is alive and knows its item and its column, no cell belongs
  to two items, and once no items are left no cell is: destruction frees every cell exactly once.
\<close>

theorem table_cells_owned:
  "\<exists>t. table_run ops no_tables = (None, t) \<and> cells_ok t
     \<and> (ts_items t = Map.empty \<longrightarrow> ts_cells t = Map.empty)"
proof -
  obtain t where t: "table_run ops no_tables = (None, t)" "cells_ok t"
    using table_run_ok[OF no_tables_ok] by blast
  have "ts_cells t = Map.empty" if "ts_items t = Map.empty"
  proof (rule ext)
    fix c show "ts_cells t c = None"
      using cells_okD(3)[OF t(2), of c] that by (cases "ts_cells t c") auto
  qed
  then show ?thesis using t by blast
qed

theorem table_cells_owned_witness:
  "\<exists>t. table_run [NewItem 1, AddCells 1 [''a'', ''b''], NewItem 2, AddCell 2 ''c'' [] [], DeleteItem 1]
         no_tables = (None, t) \<and> cells_ok t"
  using table_cells_owned[of "[NewItem 1, AddCells 1 [''a'', ''b''], NewItem 2, AddCell 2 ''c'' [] [],
      DeleteItem 1]"] by blast

text \<open>
  C33: The labels given to a new item are the labels found in it: column \<open>j\<close> shows the \<open>j\<close>-th label,
  whatever empty labels stand at the end or in between, and every other column shows nothing.
\<close>

theorem addCells_round_trip:
  assumes "cells_ok t" "ts_items t item = Some []" "labels \<noteq> []"
  shows "\<exists>t'. addCells item labels t = (None, t')
     \<and> table_label t' item j = (if 0 \<le> j \<and> j < int (length labels) then labels ! nat j else [])"
proof -
  let ?n = "last_label labels (length labels - 1)"
  obtain t' cells where t': "addCells item labels t = (None, t')"
    "ts_items t' item = Some cells" "labels_of t' cells = take (Suc ?n) labels"
    using addCell_loop_ok[OF assms(1,2), of "take (Suc ?n) labels"]
    by (auto simp: addCells_def labels_of_def)
  have n: "?n < length labels"
    using last_label_le[of labels "length labels - 1"] assms(3) by (cases labels) auto
  have len: "length cells = Suc ?n"
    using arg_cong[OF t'(3), of length] n by (simp add: labels_of_def)
  have "table_label t' item j = (if 0 \<le> j \<and> j < int (Suc ?n) then labels_of t' cells ! nat j else [])"
    using t'(2) len by (auto simp: table_label_def cell_text_def table_cell_def hasCell_def labels_of_def
        nth_append split: option.splits)
  also have "\<dots> = (if 0 \<le> j \<and> j < int (length labels) then labels ! nat j else [])"
    using n last_label_rest[of labels "length labels - 1" "nat j"] unfolding t'(3) by auto
  finally show ?thesis using t'(1) by blast
qed

theorem addCells_round_trip_witness:
  "\<exists>t'. addCells 1 [''a'', [], ''c'', []] (new_YTableItem 1 no_tables) = (None, t')
     \<and> table_label t' 1 2 = ''c''"
proof -
  have "cells_ok (new_YTableItem 1 no_tables)" "ts_items (new_YTableItem 1 no_tables) 1 = Some []"
    using new_item_ok[OF no_tables_ok, of 1] by (simp_all add: new_YTableItem_def no_tables_def)
  from addCells_round_trip[OF this, of "[''a'', [], ''c'', []]" 2] show ?thesis by simp
qed

text \<open>
  A cell object that belongs to one item can be added to another one. If both columns are the same,
  \<^verbatim>\<open>reparent\<close> accepts it, although it is meant to reject every cell that has a parent; if they differ
  it throws, but the cell is already in the second vector. In both cases two items own the cell,
  and deleting both deletes it twice.
\<close>

theorem table_cell_shared:
  "let t = snd (table_run [NewItem 1, AddCell 1 ''x'' [] [], NewItem 2] no_tables);
       same = addCell 2 (Some 0) t;
       other = addCell 2 (Some 0) (snd (addCell_text 2 ''y'' [] [] t));
       deleted = (\<lambda>u. fst (delete_YTableItem 2 (snd (delete_YTableItem 1 u))))
   in fst same = None \<and> deleted (snd same) = Some (undefined_behaviour ''YTableCell deleted twice'')
    \<and> fst other \<noteq> None \<and> deleted (snd other) = Some (undefined_behaviour ''YTableCell deleted twice'')"
  by code_simp

end
