(* ===== verification/Yui_PushButton.thy ===== *)
theory Yui_PushButton
  imports Yui_Prelude
begin

text \<open>
  Push buttons (\<^verbatim>\<open>YPushButton.cc\<close>) and the default button of their dialog (\<^verbatim>\<open>YDialog.cc\<close>): roles and
  function keys that are guessed from each other, the flags for help and release notes buttons, and
  the pointer to the default button. The theory shows that the dialog never points to a deleted
  button, what the guesses agree on, and that two buttons can both claim to be the default.
\<close>

section \<open>State\<close>

record YPushButton =
  pb_label :: string
  pb_isDefaultButton :: bool
  pb_setDefaultButtonRecursive :: bool
  pb_isHelpButton :: bool
  pb_isRelNotesButton :: bool
  pb_role :: YButtonRole
  pb_functionKey :: int

record button_dialog =
  bd_buttons :: "nat \<rightharpoonup> YPushButton"
  bd_defaultButton :: "nat option"

definition hasFunctionKey :: "YPushButton \<Rightarrow> bool" where
  "hasFunctionKey b \<longleftrightarrow> pb_functionKey b > 0"

section \<open>Roles and function keys\<close>

definition setFunctionKey :: "int \<Rightarrow> YPushButton \<Rightarrow> YPushButton" where
  "setFunctionKey fkey_no b =
     (let b1 = b\<lparr>pb_functionKey := fkey_no\<rparr>
      in if pb_role b1 = YCustomButton
         then if pb_functionKey b1 = 10 then b1\<lparr>pb_role := YOKButton\<rparr>
              else if pb_functionKey b1 = 9 then b1\<lparr>pb_role := YCancelButton\<rparr>
              else if pb_functionKey b1 = 1 then b1\<lparr>pb_role := YHelpButton\<rparr>
              else b1
         else b1)"

definition setRole :: "YButtonRole \<Rightarrow> YPushButton \<Rightarrow> YPushButton" where
  "setRole role b =
     (let b1 = b\<lparr>pb_role := role\<rparr>
      in if \<not> hasFunctionKey b1
         then (case pb_role b1 of
                 YOKButton \<Rightarrow> b1\<lparr>pb_functionKey := 10\<rparr>
               | YCancelButton \<Rightarrow> b1\<lparr>pb_functionKey := 9\<rparr>
               | YApplyButton \<Rightarrow> b1\<lparr>pb_functionKey := 10\<rparr>
               | YHelpButton \<Rightarrow> b1\<lparr>pb_functionKey := 1\<rparr>
               | _ \<Rightarrow> b1)
         else b1)"

definition setHelpButton :: "bool \<Rightarrow> YPushButton \<Rightarrow> YPushButton" where
  "setHelpButton helpButton b = b\<lparr>pb_isHelpButton := helpButton, pb_role := YHelpButton\<rparr>"

definition setRelNotesButton :: "bool \<Rightarrow> YPushButton \<Rightarrow> YPushButton" where
  "setRelNotesButton relNotesButton b =
     b\<lparr>pb_isRelNotesButton := relNotesButton, pb_role := YRelNotesButton\<rparr>"

text \<open>The constructor; \<open>defaultFunctionKey\<close> is the table of the application object.\<close>

definition new_YPushButton :: "(string \<Rightarrow> int) \<Rightarrow> string \<Rightarrow> YPushButton" where
  "new_YPushButton defaultFunctionKey label =
     (let b = \<lparr>pb_label = label, pb_isDefaultButton = False, pb_setDefaultButtonRecursive = False,
               pb_isHelpButton = False, pb_isRelNotesButton = False, pb_role = YCustomButton,
               pb_functionKey = 0\<rparr>;
          fkey = defaultFunctionKey label
      in if fkey > 0 \<and> \<not> hasFunctionKey b then setFunctionKey fkey b else b)"

section \<open>The default button\<close>

text \<open>\<^verbatim>\<open>YDialog::setDefaultButton\<close>: a second default button is only logged.\<close>

definition dialog_setDefaultButton :: "nat option \<Rightarrow> button_dialog \<Rightarrow> button_dialog" where
  "dialog_setDefaultButton newDefaultButton d = d\<lparr>bd_defaultButton := newDefaultButton\<rparr>"

definition on_button :: "nat \<Rightarrow> (YPushButton \<Rightarrow> YPushButton) \<Rightarrow> button_dialog \<Rightarrow> button_dialog" where
  "on_button b f d = d\<lparr>bd_buttons := (bd_buttons d)(b := map_option f (bd_buttons d b))\<rparr>"

definition setDefaultButton :: "nat \<Rightarrow> bool \<Rightarrow> button_dialog \<Rightarrow> button_dialog result" where
  "setDefaultButton b isDefaultButton d =
     (case bd_buttons d b of
        None \<Rightarrow> throw (undefined_behaviour ''dangling YPushButton pointer'')
      | Some pb \<Rightarrow>
          let d1 = on_button b (\<lambda>p. p\<lparr>pb_isDefaultButton := isDefaultButton\<rparr>) d
          in return
               (if \<not> pb_setDefaultButtonRecursive pb
                then let d2 = on_button b (\<lambda>p. p\<lparr>pb_setDefaultButtonRecursive := True\<rparr>) d1;
                         d3 = (if isDefaultButton then dialog_setDefaultButton (Some b) d2
                               else if bd_defaultButton d2 = Some b then dialog_setDefaultButton None d2
                               else d2)
                     in on_button b (\<lambda>p. p\<lparr>pb_setDefaultButtonRecursive := False\<rparr>) d3
                else d1))"

definition create_button :: "nat \<Rightarrow> YPushButton \<Rightarrow> button_dialog \<Rightarrow> button_dialog" where
  "create_button b pb d = d\<lparr>bd_buttons := (bd_buttons d)(b \<mapsto> pb)\<rparr>"

text \<open>The destructor, and the memory going away.\<close>

definition delete_YPushButton :: "nat \<Rightarrow> button_dialog \<Rightarrow> button_dialog" where
  "delete_YPushButton b d =
     (let d1 = (if bd_defaultButton d = Some b then dialog_setDefaultButton None d else d)
      in d1\<lparr>bd_buttons := (bd_buttons d1)(b := None)\<rparr>)"

section \<open>Histories\<close>

datatype button_op = CreateButton nat string | SetDefault nat bool | SetRole nat YButtonRole
  | SetFunctionKey nat int | SetHelp nat bool | SetRelNotes nat bool | DeleteButton nat

definition button_step :: "(string \<Rightarrow> int) \<Rightarrow> button_op \<Rightarrow> button_dialog \<Rightarrow> button_dialog result" where
  "button_step fkeys op d =
     (case op of
        CreateButton b l \<Rightarrow>
          return (if bd_buttons d b = None then create_button b (new_YPushButton fkeys l) d else d)
      | SetDefault b v \<Rightarrow> if bd_buttons d b = None then return d else setDefaultButton b v d
      | SetRole b r \<Rightarrow> return (on_button b (setRole r) d)
      | SetFunctionKey b k \<Rightarrow> return (on_button b (setFunctionKey k) d)
      | SetHelp b v \<Rightarrow> return (on_button b (setHelpButton v) d)
      | SetRelNotes b v \<Rightarrow> return (on_button b (setRelNotesButton v) d)
      | DeleteButton b \<Rightarrow> return (delete_YPushButton b d))"

fun button_run :: "(string \<Rightarrow> int) \<Rightarrow> button_op list \<Rightarrow> button_dialog \<Rightarrow> button_dialog result" where
  "button_run fkeys [] d = return d"
| "button_run fkeys (op # ops) d = bind_result (button_step fkeys op d) (button_run fkeys ops)"

definition empty_dialog :: button_dialog where
  "empty_dialog = \<lparr>bd_buttons = Map.empty, bd_defaultButton = None\<rparr>"

text \<open>
  The dialog's default button is alive and says that it is the default; no button is left in the
  middle of \<^verbatim>\<open>setDefaultButton\<close>.
\<close>

definition default_ok :: "button_dialog \<Rightarrow> bool" where
  "default_ok d \<longleftrightarrow>
     (case bd_defaultButton d of
        None \<Rightarrow> True
      | Some b \<Rightarrow> (case bd_buttons d b of None \<Rightarrow> False | Some pb \<Rightarrow> pb_isDefaultButton pb))
   \<and> (\<forall>b pb. bd_buttons d b = Some pb \<longrightarrow> \<not> pb_setDefaultButtonRecursive pb)"

text \<open>Changes of a button that leave the default flags alone.\<close>

definition keeps_flags :: "(YPushButton \<Rightarrow> YPushButton) \<Rightarrow> bool" where
  "keeps_flags f \<longleftrightarrow> (\<forall>b. pb_isDefaultButton (f b) = pb_isDefaultButton b
     \<and> pb_setDefaultButtonRecursive (f b) = pb_setDefaultButtonRecursive b)"

lemma keeps_flags_ops:
  "keeps_flags (setRole r)" "keeps_flags (setFunctionKey k)" "keeps_flags (setHelpButton v)"
  "keeps_flags (setRelNotesButton v)"
  by (auto simp: keeps_flags_def setRole_def setFunctionKey_def setHelpButton_def setRelNotesButton_def
      Let_def split: YButtonRole.split)

lemma on_button_ok: "keeps_flags f \<Longrightarrow> default_ok d \<Longrightarrow> default_ok (on_button b f d)"
  by (auto simp: default_ok_def on_button_def keeps_flags_def split: option.splits if_splits)

lemma new_button_flags:
  "\<not> pb_setDefaultButtonRecursive (new_YPushButton fkeys l)"
  by (simp add: new_YPushButton_def setFunctionKey_def Let_def)

lemma button_step_ok:
  assumes "default_ok d"
  shows "\<exists>d'. button_step fkeys op d = Inr d' \<and> default_ok d'"
proof (cases op)
  case (CreateButton b l)
  then show ?thesis
    using assms new_button_flags[of fkeys l]
    by (auto simp: button_step_def create_button_def default_ok_def split: option.splits)
next
  case (SetDefault b v)
  then show ?thesis
    using assms
    by (auto simp: button_step_def setDefaultButton_def on_button_def dialog_setDefaultButton_def
        default_ok_def Let_def split: option.splits if_splits)
next
  case (DeleteButton b)
  then show ?thesis
    using assms by (auto simp: button_step_def delete_YPushButton_def dialog_setDefaultButton_def
        default_ok_def Let_def split: option.splits if_splits)
qed (use assms in \<open>auto simp: button_step_def intro: on_button_ok keeps_flags_ops\<close>)

lemma button_run_ok: "default_ok d \<Longrightarrow> \<exists>d'. button_run fkeys ops d = Inr d' \<and> default_ok d'"
proof (induction ops arbitrary: d)
  case (Cons op ops)
  then show ?case using button_step_ok[OF Cons.prems, of fkeys op] by auto
qed simp

text \<open>
  Setting the role of a button without a function key and setting the function key of a button
  without a role guess each other's value, except that the apply role takes the key of the OK role.
\<close>

lemma role_fkey_guess:
  assumes "pb_role b = YCustomButton" "pb_functionKey b = 0"
  shows "r \<in> {YOKButton, YCancelButton, YHelpButton} \<Longrightarrow>
      pb_role (setFunctionKey (pb_functionKey (setRole r b)) b) = r"
    and "pb_role (setFunctionKey (pb_functionKey (setRole YApplyButton b)) b) = YOKButton"
  using assms by (auto simp: setRole_def setFunctionKey_def hasFunctionKey_def Let_def)

text \<open>Switching the help or release notes flag off still gives the button the special role.\<close>

lemma help_off_sets_role:
  "pb_role (setHelpButton False b) = YHelpButton" "pb_role (setRelNotesButton False b) = YRelNotesButton"
  by (simp_all add: setHelpButton_def setRelNotesButton_def)

section \<open>Properties\<close>

text \<open>
  C31: Through every history of creating, changing and deleting the push buttons of a dialog, its
  default button is none or a living button that is marked as the default.
\<close>

theorem default_button_alive:
  "\<exists>d. button_run fkeys ops empty_dialog = Inr d \<and> default_ok d"
proof (rule button_run_ok)
  show "default_ok empty_dialog" by (simp add: default_ok_def empty_dialog_def)
qed

text \<open>
  A dialog can have two buttons that both say they are the default. Making a second button the
  default does not take the mark from the first, and taking it from the second leaves the dialog
  without a default button although the first still claims to be it.
\<close>

theorem two_default_buttons:
  "let ops = [CreateButton 1 ''a'', CreateButton 2 ''b'', SetDefault 1 True, SetDefault 2 True];
       marked = (\<lambda>r b. case r of Inl _ \<Rightarrow> None | Inr d \<Rightarrow> map_option pb_isDefaultButton (bd_buttons d b));
       default = (\<lambda>r. case r of Inl _ \<Rightarrow> None | Inr d \<Rightarrow> bd_defaultButton d);
       before = button_run (\<lambda>_. 0) ops empty_dialog;
       after = button_run (\<lambda>_. 0) (ops @ [SetDefault 2 False]) empty_dialog
   in marked before 1 = Some True \<and> marked before 2 = Some True \<and> default before = Some 2
    \<and> marked after 1 = Some True \<and> default after = None"
  by code_simp

end
