(* ===== verification/Yui_ItemSelector.thy ===== *)
theory Yui_ItemSelector
  imports Yui_Selection
begin

text \<open>
  \<^verbatim>\<open>YItemSelector\<close> with custom item states (\<^verbatim>\<open>YItemSelector.cc\<close>, \<^verbatim>\<open>YItemCustomStatus.h\<close>): the table of states
  with their successors, its check, cycling through the states and setting the status of an item.
  The theory shows that after the check cycling never leaves the table and always yields a status
  that \<^verbatim>\<open>setItemStatus\<close> accepts, and which statuses are rejected.
\<close>

section \<open>State\<close>

record YItemCustomStatus =
  cs_iconName :: string
  cs_textIndicator :: string
  cs_nextStatus :: int

definition hasNextStatus :: "YItemCustomStatus \<Rightarrow> bool" where
  "hasNextStatus s \<longleftrightarrow> cs_nextStatus s \<noteq> -1"

definition DEFAULT_VISIBLE_ITEMS :: int where
  "DEFAULT_VISIBLE_ITEMS = 3"

record YItemSelector =
  is_selection :: YSelectionWidget
  is_visibleItems :: int
  is_customStates :: "YItemCustomStatus list"

section \<open>Operations\<close>

definition usingCustomStatus :: "YItemSelector \<Rightarrow> bool" where
  "usingCustomStatus w \<longleftrightarrow> is_customStates w \<noteq> []"

definition customStatusCount :: "YItemSelector \<Rightarrow> int" where
  "customStatusCount w = int (length (is_customStates w))"

text \<open>\<^verbatim>\<open>std::vector::at\<close>: a negative index becomes a huge one and throws, too.\<close>

definition customStatus :: "int \<Rightarrow> YItemSelector \<Rightarrow> YItemCustomStatus result" where
  "customStatus index w =
     (if 0 \<le> index \<and> index < customStatusCount w then return (is_customStates w ! nat index)
      else throw out_of_range)"

definition validCustomStatusIndex :: "int \<Rightarrow> YItemSelector \<Rightarrow> bool" where
  "validCustomStatusIndex index w \<longleftrightarrow> index \<ge> 0 \<and> index < customStatusCount w"

definition checked_next :: "int \<Rightarrow> YItemCustomStatus \<Rightarrow> YItemCustomStatus" where
  "checked_next maxStatus s =
     (if cs_nextStatus s > maxStatus then s\<lparr>cs_nextStatus := -1\<rparr>
      else if cs_nextStatus s < -1 then s\<lparr>cs_nextStatus := -1\<rparr>
      else s)"

definition checkCustomStates :: "YItemSelector \<Rightarrow> YItemSelector result" where
  "checkCustomStates w =
     (if length (is_customStates w) < 2
      then throw (YUIException ''Need at least 2 different custom status value definitions'')
      else return (w\<lparr>is_customStates :=
             map (checked_next (customStatusCount w - 1)) (is_customStates w)\<rparr>))"

definition init_YItemSelector :: "YSelectionWidget \<Rightarrow> YItemCustomStatus list \<Rightarrow> YItemSelector" where
  "init_YItemSelector sw states =
     \<lparr>is_selection = setEnforceInitialSelection False sw, is_visibleItems = DEFAULT_VISIBLE_ITEMS,
      is_customStates = states\<rparr>"

definition new_YItemSelector :: "bool \<Rightarrow> YItemSelector result" where
  "new_YItemSelector enforceSingle =
     bind_result (new_YSelectionWidget [] enforceSingle False)
       (\<lambda>sw. return (init_YItemSelector sw []))"

definition new_YItemSelector_custom :: "YItemCustomStatus list \<Rightarrow> YItemSelector result" where
  "new_YItemSelector_custom states =
     bind_result (new_YSelectionWidget [] False False)
       (\<lambda>sw. checkCustomStates (init_YItemSelector sw states))"

definition is_setVisibleItems :: "int \<Rightarrow> YItemSelector \<Rightarrow> YItemSelector" where
  "is_setVisibleItems newVal w = w\<lparr>is_visibleItems := (if newVal < 1 then 1 else newVal)\<rparr>"

text \<open>The item is passed by pointer; \<^verbatim>\<open>updateCustomStatusIndicator\<close> belongs to the toolkit.\<close>

definition is_setItemStatus :: "YItem \<Rightarrow> int \<Rightarrow> YItemSelector \<Rightarrow> YItemSelector result" where
  "is_setItemStatus item status w =
     (if usingCustomStatus w
      then bind_result (YUI_CHECK_INDEX status (-1) (customStatusCount w - 1))
             (\<lambda>_. return (w\<lparr>is_selection := (is_selection w)\<lparr>sw_items :=
                on_item (it_id (idata item)) (setStatus status) (sw_items (is_selection w))\<rparr>\<rparr>))
      else bind_result (setItemStatus item status (is_selection w))
             (\<lambda>sw. return (w\<lparr>is_selection := sw\<rparr>)))"

definition cycleCustomStatus :: "int \<Rightarrow> YItemSelector \<Rightarrow> int" where
  "cycleCustomStatus oldStatus w =
     (if \<not> validCustomStatusIndex oldStatus w then oldStatus
      else cs_nextStatus (is_customStates w ! nat oldStatus))"

definition is_widgetClass :: "YItemSelector \<Rightarrow> string" where
  "is_widgetClass w =
     (if usingCustomStatus w then ''YCustomStatusItemSelector''
      else if sw_enforceSingleSelection (is_selection w) then ''YSingleItemSelector''
      else ''YMultiItemSelector'')"

section \<open>Cycling\<close>

definition states_ok :: "YItemSelector \<Rightarrow> bool" where
  "states_ok w \<longleftrightarrow> 2 \<le> length (is_customStates w)
     \<and> (\<forall>s\<in>set (is_customStates w). -1 \<le> cs_nextStatus s \<and> cs_nextStatus s < customStatusCount w)"

lemma checkCustomStates_ok:
  "checkCustomStates w = Inr w' \<longleftrightarrow> 2 \<le> length (is_customStates w)
     \<and> w' = w\<lparr>is_customStates := map (checked_next (customStatusCount w - 1)) (is_customStates w)\<rparr>"
  by (auto simp: checkCustomStates_def)

lemma checked_states_ok: "checkCustomStates w = Inr w' \<Longrightarrow> states_ok w'"
  by (auto simp: checkCustomStates_ok states_ok_def checked_next_def customStatusCount_def)

definition status_in_range :: "int \<Rightarrow> YItemSelector \<Rightarrow> bool" where
  "status_in_range s w \<longleftrightarrow> -1 \<le> s \<and> s < customStatusCount w"

lemma cycle_in_range:
  assumes "states_ok w" "status_in_range s w"
  shows "status_in_range (cycleCustomStatus s w) w"
  using assms by (auto simp: states_ok_def status_in_range_def cycleCustomStatus_def
      validCustomStatusIndex_def customStatusCount_def)

lemma cycle_iterate:
  assumes "states_ok w" "status_in_range s w"
  shows "status_in_range (((\<lambda>s. cycleCustomStatus s w) ^^ k) s) w"
  using assms(2) by (induction k) (simp_all add: cycle_in_range[OF assms(1)])

text \<open>
  An item selector with custom states exists only with at least two of them. However often the user
  cycles, starting from a status that \<^verbatim>\<open>setItemStatus\<close> accepts, the result is accepted again, and
  the item then has it; every status outside the table, apart from -1, is rejected.
\<close>

theorem customStatus_cycle:
  fixes k :: nat
  assumes "new_YItemSelector_custom states = Inr w" "-1 \<le> s" "s < int (length states)"
  defines "s' \<equiv> ((\<lambda>s. cycleCustomStatus s w) ^^ k) s"
  shows "2 \<le> length states \<and> -1 \<le> s' \<and> s' < int (length states)
     \<and> (\<exists>w'. is_setItemStatus item s' w = Inr w')
     \<and> (\<forall>bad. bad < -1 \<or> int (length states) \<le> bad \<longrightarrow>
          is_setItemStatus item bad w = throw (YUIIndexOutOfRangeException bad (-1) (int (length states) - 1)))"
proof -
  obtain sw where c: "checkCustomStates (init_YItemSelector sw states) = Inr w"
    using assms(1) by (auto simp: new_YItemSelector_custom_def bind_result_Inr_iff)
  then have w: "2 \<le> length states" "customStatusCount w = int (length states)" "usingCustomStatus w"
    unfolding checkCustomStates_ok
    by (auto simp: init_YItemSelector_def customStatusCount_def usingCustomStatus_def)
  have "status_in_range s' w"
    unfolding s'_def using checked_states_ok[OF c] assms(2,3) w(2)
    by (intro cycle_iterate) (simp_all add: status_in_range_def)
  then show ?thesis
    using w by (auto simp: status_in_range_def is_setItemStatus_def YUI_CHECK_INDEX_def)
qed

definition three_states :: "YItemCustomStatus list" where
  "three_states =
     [\<lparr>cs_iconName = [], cs_textIndicator = ''[ ]'', cs_nextStatus = 1\<rparr>,
      \<lparr>cs_iconName = [], cs_textIndicator = ''[+]'', cs_nextStatus = 2\<rparr>,
      \<lparr>cs_iconName = [], cs_textIndicator = ''[-]'', cs_nextStatus = 7\<rparr>]"

definition three_selector :: YItemSelector where
  "three_selector =
     \<lparr>is_selection = \<lparr>sw_label = [], sw_enforceSingleSelection = False, sw_enforceInitialSelection = True,
        sw_recursiveSelection = False, sw_iconBasePath = [], sw_items = []\<rparr>,
      is_visibleItems = 3, is_customStates = map (checked_next 2) three_states\<rparr>"

theorem customStatus_cycle_witness:
  "((\<lambda>s. cycleCustomStatus s three_selector) ^^ 3) 0 = -1
   \<and> (\<exists>w'. is_setItemStatus (YItem (new_item_data 1 ClsItem [] [] False) []) (-1) three_selector = Inr w')"
proof -
  have new: "new_YItemSelector_custom three_states = Inr three_selector"
    by (simp add: new_YItemSelector_custom_def new_YSelectionWidget_def checkCustomStates_def
        init_YItemSelector_def three_selector_def three_states_def customStatusCount_def
        setEnforceInitialSelection_def DEFAULT_VISIBLE_ITEMS_def)
  have "((\<lambda>s. cycleCustomStatus s three_selector) ^^ 3) 0 = -1"
    by code_simp
  moreover have "int (length three_states) = 3" by (simp add: three_states_def)
  ultimately show ?thesis
    using customStatus_cycle[OF new, of 0 3 "YItem (new_item_data 1 ClsItem [] [] False) []"] by auto
qed

end
