(* ===== verification/Yui_Values.thy ===== *)
theory Yui_Values
  imports Yui_Prelude Complex_Main "HOL-Library.Word"
begin

text \<open>
  Classes with plain values: sizes with units (\<^verbatim>\<open>FSize.cc\<close>), the segments of a progress meter
  (\<^verbatim>\<open>YMultiProgressMeter.cc\<close>) and of a bar graph (\<^verbatim>\<open>YBarGraph.cc\<close>), and the command line
  (\<^verbatim>\<open>YCommandLine.cc\<close>). The theory shows that sizes are rounded to blocks and units as documented, except
  for negative sizes, which lists of progress values are safe, and that a postponed display update of a
  bar graph is never lost.
\<close>

section \<open>FSize\<close>

datatype Unit = Unit_B | Unit_K | Unit_M | Unit_G | Unit_T | Unit_P | Unit_E | Unit_Z | Unit_Y

fun factor :: "Unit \<Rightarrow> int" where
  "factor Unit_B = 1"
| "factor Unit_K = 1024"
| "factor Unit_M = 1024 * 1024"
| "factor Unit_G = 1024 * 1024 * 1024"
| "factor Unit_T = 1024 * 1024 * 1024 * 1024"
| "factor Unit_P = 1024 * 1024 * 1024 * 1024 * 1024"
| "factor Unit_E = 1024 * 1024 * 1024 * 1024 * 1024 * 1024"
| "factor Unit_Z = 1024 * 1024 * 1024 * 1024 * 1024 * 1024 * 1024"
| "factor Unit_Y = 1024 * 1024 * 1024 * 1024 * 1024 * 1024 * 1024 * 1024"

definition new_FSize :: "int \<Rightarrow> Unit \<Rightarrow> int" where
  "new_FSize n u = n * factor u"

definition in_unit :: "int \<Rightarrow> Unit \<Rightarrow> int" where
  "in_unit s u = c_div s (factor u)"

text \<open>The remainder of C++ is used on positive operands only, where it is the mathematical one.\<close>

definition fillBlock :: "int \<Rightarrow> int \<Rightarrow> int" where
  "fillBlock blocksize s =
     (if s > 0 \<and> blocksize > 0
      then let diff = s mod blocksize
           in if diff \<noteq> 0 then (if s > 0 then s + blocksize else s) - diff else s
      else s)"

definition bestUnit :: "int \<Rightarrow> Unit" where
  "bestUnit s =
     (let usize = \<bar>s\<bar>
      in if usize < factor Unit_K then Unit_B
         else if usize < factor Unit_M then Unit_K
         else if usize < factor Unit_G then Unit_M
         else if usize < factor Unit_T then Unit_G
         else if usize < factor Unit_P then Unit_T
         else if usize < factor Unit_E then Unit_P
         else if usize < factor Unit_Z then Unit_E
         else if usize < factor Unit_Y then Unit_Z
         else Unit_Y)"

text \<open>The number of decimals \<^verbatim>\<open>form\<close> prints; \<open>None\<close> stands for \<^verbatim>\<open>bestPrec\<close>.\<close>

definition form_prec :: "Unit \<Rightarrow> nat option \<Rightarrow> nat" where
  "form_prec u prec =
     (case prec of
        None \<Rightarrow> (case u of Unit_Y \<Rightarrow> 3 | Unit_Z \<Rightarrow> 3 | Unit_E \<Rightarrow> 3 | Unit_P \<Rightarrow> 3 | Unit_T \<Rightarrow> 3
                         | Unit_G \<Rightarrow> 2 | Unit_M \<Rightarrow> 1 | Unit_K \<Rightarrow> 1 | Unit_B \<Rightarrow> 0)
      | Some p \<Rightarrow> if u = Unit_B then 0 else p)"

text \<open>The number \<^verbatim>\<open>form\<close> prints when it prints no decimals.\<close>

definition form_integer :: "int \<Rightarrow> Unit \<Rightarrow> int" where
  "form_integer s u = c_div (s + c_div (factor u) 2) (factor u)"

lemma factor_pos: "0 < factor u"
  by (cases u) simp_all

lemma factor_even:
  assumes "u \<noteq> Unit_B"
  shows "factor u = 2 * c_div (factor u) 2" "0 < c_div (factor u) 2"
proof -
  have "\<exists>k. 0 < k \<and> factor u = 2 * k"
    using assms by (cases u) (auto intro!: exI[of _ "factor u div 2"])
  then obtain k where "0 < k" "factor u = 2 * k" by blast
  then show "factor u = 2 * c_div (factor u) 2" "0 < c_div (factor u) 2"
    by (simp_all add: c_div_nonneg_eq)
qed

text \<open>
  Filling up to a block gives the smallest multiple of the block size that is not below the size.
\<close>

lemma fillBlock_spec:
  assumes "0 < s" "0 < b"
  shows "b dvd fillBlock b s" "s \<le> fillBlock b s" "fillBlock b s < s + b"
proof -
  define r where "r = s mod b"
  have m: "0 \<le> r" "r < b" using assms by (simp_all add: r_def)
  have e: "fillBlock b s = (if r = 0 then s else s - r + b)"
    using assms by (simp add: fillBlock_def Let_def r_def)
  have d: "b dvd s - r" unfolding r_def by (rule dvd_minus_mod)
  show "b dvd fillBlock b s" using d by (cases "r = 0") (simp_all add: e)
  show "s \<le> fillBlock b s" "fillBlock b s < s + b" using m assms by (simp_all add: e)
qed

lemma bestUnit_spec:
  assumes "s \<noteq> 0"
  shows "factor (bestUnit s) \<le> \<bar>s\<bar> \<and> (bestUnit s \<noteq> Unit_Y \<longrightarrow> \<bar>s\<bar> < 1024 * factor (bestUnit s))"
  using assms by (auto simp: bestUnit_def Let_def)

text \<open>
  C37: Positive sizes are handled as documented. Filling such a size up to a block gives the smallest
  multiple of the block that holds it; the best unit is the largest one of which the size has at least
  one; and without decimals the size is printed in any unit other than bytes rounded to the nearest
  unit.
\<close>

theorem fsize_rounding:
  assumes "0 < s" "0 < b" "u \<noteq> Unit_B"
  shows "b dvd fillBlock b s \<and> s \<le> fillBlock b s \<and> fillBlock b s < s + b
     \<and> factor (bestUnit s) \<le> s \<and> (bestUnit s \<noteq> Unit_Y \<longrightarrow> s < 1024 * factor (bestUnit s))
     \<and> \<bar>2 * (form_integer s u * factor u - s)\<bar> \<le> factor u"
proof -
  let ?f = "factor u"
  have f: "0 < ?f" "?f = 2 * c_div ?f 2" "0 < c_div ?f 2"
    using factor_pos factor_even[OF assms(3)] by auto
  define h where "h = c_div ?f 2"
  have h: "0 \<le> h" "?f = 2 * h" using f by (simp_all add: h_def)
  have n: "0 \<le> s + h" using assms(1) h by simp
  define p where "p = form_integer s u * ?f"
  have "p \<le> s + h" "s + h - ?f < p"
    unfolding p_def form_integer_def h_def[symmetric]
    using c_div_mult_le[OF n f(1)] c_div_mult_gt[OF n f(1)] by simp_all
  then have "\<bar>2 * (p - s)\<bar> \<le> ?f" using h(2) by (simp add: abs_le_iff)
  then show ?thesis
    using fillBlock_spec[OF assms(1,2)] bestUnit_spec[of s] assms(1) by (simp add: p_def)
qed

theorem fsize_rounding_witness:
  "fillBlock 1024 1500 = 2048 \<and> \<bar>2 * (form_integer 1500 Unit_K * 1024 - 1500)\<bar> \<le> 1024"
  using fsize_rounding[of 1500 1024 Unit_K] by (simp add: fillBlock_def)

text \<open>
  Negative sizes are printed wrongly without decimals: half a unit is added before a division that
  rounds towards zero, so every negative whole number of units loses one of them.
\<close>

theorem fsize_form_negative:
  assumes "n < 0" "u \<noteq> Unit_B"
  shows "form_integer (new_FSize n u) u = n + 1"
proof -
  define f h k where "f = factor u" and "h = c_div f 2" and "k = - n - 1"
  have f: "f = 2 * h" "0 < h" unfolding f_def h_def using factor_even[OF assms(2)] by auto
  have k: "0 \<le> k" "n = - k - 1" using assms(1) by (simp_all add: k_def)
  have "0 \<le> k * f" using k f by simp
  then have neg: "0 < k * f + h" "n * f + h = - (k * f + h)"
    using f(2) by simp (simp add: k(2) f(1) left_diff_distrib)
  have "(k * f + h) div f = k" using f by simp
  then have "c_div (n * f + h) f = - k"
    using neg(1) f unfolding neg(2) c_div_def by (simp add: sgn_if abs_if)
  then show ?thesis by (simp add: form_integer_def new_FSize_def f_def h_def k_def)
qed

theorem fsize_form_negative_witness: "form_integer (new_FSize (-2) Unit_K) Unit_K = -1"
  using fsize_form_negative[of "-2" Unit_K] by simp

section \<open>YMultiProgressMeter\<close>

text \<open>
  The C++ \<^verbatim>\<open>float\<close>s are rational numbers here: the class only compares and copies them. Reading or
  writing a vector at an index that the check let through but that is not in the vector is undefined.
\<close>

record YMultiProgressMeter =
  mp_dim :: YUIDimension
  maxValues :: "rat list"
  currentValues :: "rat list"

definition new_YMultiProgressMeter :: "YUIDimension \<Rightarrow> rat list \<Rightarrow> YMultiProgressMeter" where
  "new_YMultiProgressMeter d vs =
     \<lparr>mp_dim = d, maxValues = vs, currentValues = replicate (length vs) 0\<rparr>"

definition vector_at :: "'a list \<Rightarrow> int \<Rightarrow> 'a result" where
  "vector_at xs i =
     (if 0 \<le> i \<and> i < int (length xs) then return (xs ! nat i)
      else throw (undefined_behaviour ''vector index out of range''))"

definition maxValue :: "YMultiProgressMeter \<Rightarrow> int \<Rightarrow> rat result" where
  "maxValue m i =
     bind_result (YUI_CHECK_INDEX i 0 (int (length (maxValues m)))) (\<lambda>_. vector_at (maxValues m) i)"

definition currentValue :: "YMultiProgressMeter \<Rightarrow> int \<Rightarrow> rat result" where
  "currentValue m i =
     bind_result (YUI_CHECK_INDEX i 0 (int (length (currentValues m)))) (\<lambda>_. vector_at (currentValues m) i)"

definition setCurrentValue :: "YMultiProgressMeter \<Rightarrow> int \<Rightarrow> rat \<Rightarrow> YMultiProgressMeter result" where
  "setCurrentValue m i v =
     bind_result (YUI_CHECK_INDEX i 0 (int (length (currentValues m)))) (\<lambda>_.
     let v = (if v < 0 then 0 else v)
     in bind_result (maxValue m i) (\<lambda>mx.
        let v = (if v > mx then mx else v)
        in bind_result (vector_at (currentValues m) i) (\<lambda>_.
           return (m\<lparr>currentValues := (currentValues m)[nat i := v]\<rparr>))))"

fun setCurrentValues_from :: "YMultiProgressMeter \<Rightarrow> int \<Rightarrow> rat list \<Rightarrow> YMultiProgressMeter result" where
  "setCurrentValues_from m i [] = return m"
| "setCurrentValues_from m i (v # vs) =
     bind_result (setCurrentValue m i v) (\<lambda>m'. setCurrentValues_from m' (i + 1) vs)"

definition setCurrentValues :: "YMultiProgressMeter \<Rightarrow> rat list \<Rightarrow> YMultiProgressMeter result" where
  "setCurrentValues m vs = setCurrentValues_from m 0 vs"

text \<open>Every segment stays between zero and its maximum.\<close>

definition meter_ok :: "YMultiProgressMeter \<Rightarrow> bool" where
  "meter_ok m \<longleftrightarrow> length (currentValues m) = length (maxValues m)
     \<and> (\<forall>i < length (maxValues m). 0 \<le> currentValues m ! i \<and> currentValues m ! i \<le> maxValues m ! i)"

definition clamp :: "rat \<Rightarrow> rat \<Rightarrow> rat" where
  "clamp mx v = min mx (max 0 v)"

lemma new_meter_ok: "list_all (\<lambda>v. 0 \<le> v) vs \<Longrightarrow> meter_ok (new_YMultiProgressMeter d vs)"
  by (simp add: meter_ok_def new_YMultiProgressMeter_def list_all_length)

lemma setCurrentValue_in:
  assumes "meter_ok m" "i < length (maxValues m)"
  shows "setCurrentValue m (int i) v =
    return (m\<lparr>currentValues := (currentValues m)[i := clamp (maxValues m ! i) v]\<rparr>)"
  using assms
  by (auto simp: setCurrentValue_def maxValue_def vector_at_def meter_ok_def YUI_CHECK_INDEX_def clamp_def
      Let_def min_def max_def)

lemma setCurrentValue_at_end:
  assumes "meter_ok m"
  shows "setCurrentValue m (int (length (maxValues m))) v =
    throw (undefined_behaviour ''vector index out of range'')"
  using assms
  by (simp add: setCurrentValue_def maxValue_def vector_at_def meter_ok_def YUI_CHECK_INDEX_def Let_def)

lemma meter_ok_clamp:
  assumes "meter_ok m" "i < length (maxValues m)"
  shows "meter_ok (m\<lparr>currentValues := (currentValues m)[i := clamp (maxValues m ! i) v]\<rparr>)"
proof -
  have "0 \<le> maxValues m ! i" using assms unfolding meter_ok_def by (meson order_trans)
  then show ?thesis using assms by (auto simp: meter_ok_def nth_list_update clamp_def)
qed

lemma setCurrentValues_from_in:
  assumes "meter_ok m" "i + length vs \<le> length (maxValues m)"
  shows "\<exists>m'. setCurrentValues_from m (int i) vs = return m' \<and> meter_ok m' \<and> maxValues m' = maxValues m
     \<and> currentValues m' = take i (currentValues m)
         @ map2 clamp (drop i (maxValues m)) vs @ drop (i + length vs) (currentValues m)"
  using assms
proof (induction vs arbitrary: i m)
  case Nil
  then show ?case by simp
next
  case (Cons v vs)
  let ?m = "m\<lparr>currentValues := (currentValues m)[i := clamp (maxValues m ! i) v]\<rparr>"
  have i: "i < length (maxValues m)" "i < length (currentValues m)"
    using Cons.prems by (simp_all add: meter_ok_def)
  have "meter_ok ?m" by (rule meter_ok_clamp[OF Cons.prems(1) i(1)])
  then obtain m' where m': "setCurrentValues_from ?m (int (Suc i)) vs = return m'" "meter_ok m'"
      "maxValues m' = maxValues ?m" "currentValues m' = take (Suc i) (currentValues ?m)
         @ map2 clamp (drop (Suc i) (maxValues ?m)) vs @ drop (Suc i + length vs) (currentValues ?m)"
    using Cons.IH[of ?m "Suc i"] Cons.prems(2) by auto
  have "take (Suc i) (currentValues ?m) = take i (currentValues m) @ [clamp (maxValues m ! i) v]"
    using i(2) by (simp add: take_Suc_conv_app_nth)
  moreover have "drop i (maxValues m) = maxValues m ! i # drop (Suc i) (maxValues m)"
    using i(1) by (simp add: Cons_nth_drop_Suc)
  ultimately show ?case
    using m' setCurrentValue_in[OF Cons.prems(1) i(1)] by (intro exI[of _ m']) (simp add: add.commute)
qed

lemma setCurrentValues_from_dim: "setCurrentValues_from m i vs = return m' \<Longrightarrow> mp_dim m' = mp_dim m"
proof (induction vs arbitrary: m i)
  case (Cons v vs)
  then obtain m1 where m1: "setCurrentValue m i v = return m1" "mp_dim m' = mp_dim m1"
    by (auto simp: bind_result_Inr_iff)
  then show ?case by (auto simp: setCurrentValue_def bind_result_Inr_iff Let_def)
qed simp

lemma setCurrentValues_from_append:
  "setCurrentValues_from m i (us @ vs)
     = bind_result (setCurrentValues_from m i us) (\<lambda>m'. setCurrentValues_from m' (i + int (length us)) vs)"
proof (induction us arbitrary: m i)
  case (Cons u us)
  then show ?case by (cases "setCurrentValue m i u") (simp_all add: algebra_simps)
qed simp

text \<open>
  C36: A list of progress values is set segment by segment, each clamped into the range from zero to the
  segment's maximum, and the segments past the end of the list keep their values, as long as the list has
  no more values than the meter has segments. A longer list passes the index check, whose upper bound is
  one too high, and writes past the end of the vectors.
\<close>

theorem setCurrentValues_spec:
  assumes "meter_ok m"
  shows "if length vs \<le> length (maxValues m)
    then setCurrentValues m vs = return (m\<lparr>currentValues :=
           map2 clamp (maxValues m) vs @ drop (length vs) (currentValues m)\<rparr>)
    else setCurrentValues m vs = throw (undefined_behaviour ''vector index out of range'')"
proof (cases "length vs \<le> length (maxValues m)")
  case True
  then obtain m' where m': "setCurrentValues m vs = return m'" "maxValues m' = maxValues m"
      "currentValues m' = map2 clamp (maxValues m) vs @ drop (length vs) (currentValues m)"
    using setCurrentValues_from_in[OF assms, of 0 vs] by (auto simp: setCurrentValues_def)
  have "mp_dim m' = mp_dim m" using m'(1) setCurrentValues_from_dim by (simp add: setCurrentValues_def)
  with m' True show ?thesis by simp
next
  case False
  define n where "n = length (maxValues m)"
  have vs: "vs = take n vs @ vs ! n # drop (Suc n) vs"
    using False by (simp add: n_def id_take_nth_drop)
  obtain m' where m': "setCurrentValues_from m 0 (take n vs) = return m'" "meter_ok m'"
      "maxValues m' = maxValues m"
    using setCurrentValues_from_in[OF assms, of 0 "take n vs"] by (auto simp: n_def)
  have "setCurrentValues m vs = setCurrentValues_from m' (int n) (vs ! n # drop (Suc n) vs)"
    unfolding setCurrentValues_def
    by (subst vs, subst setCurrentValues_from_append) (use False m'(1) in \<open>simp add: n_def min_def\<close>)
  then show ?thesis using False setCurrentValue_at_end[OF m'(2)] m'(3) by (simp add: n_def)
qed

theorem setCurrentValues_spec_witness:
  "setCurrentValues (new_YMultiProgressMeter YD_HORIZ [5, 10]) [7]
     = return \<lparr>mp_dim = YD_HORIZ, maxValues = [5, 10], currentValues = [5, 0]\<rparr>"
  using setCurrentValues_spec[OF new_meter_ok[of "[5, 10]" YD_HORIZ], of "[7]"]
  by (simp add: new_YMultiProgressMeter_def clamp_def)

section \<open>YBarGraph\<close>

text \<open>
  The display is what the toolkit drew in the last call of \<^verbatim>\<open>doUpdate()\<close>: the segments at that moment,
  \<open>None\<close> before the first call.
\<close>

record YColor =
  red :: "8 word"
  green :: "8 word"
  blue :: "8 word"
  undef :: bool

definition new_YColor :: "8 word \<Rightarrow> 8 word \<Rightarrow> 8 word \<Rightarrow> YColor" where
  "new_YColor r g b = \<lparr>red = r, green = g, blue = b, undef = False\<rparr>"

definition undefined_YColor :: YColor where
  "undefined_YColor = \<lparr>red = 0, green = 0, blue = 0, undef = True\<rparr>"

record YBarGraphSegment =
  seg_value :: int
  seg_label :: string
  segmentColor :: YColor
  textColor :: YColor

record YBarGraph =
  segments :: "YBarGraphSegment list"
  updatesPending :: bool
  postponeUpdates :: bool
  display :: "YBarGraphSegment list option"

definition new_YBarGraph :: YBarGraph where
  "new_YBarGraph = \<lparr>segments = [], updatesPending = False, postponeUpdates = False, display = None\<rparr>"

definition updateDisplay :: "YBarGraph \<Rightarrow> YBarGraph" where
  "updateDisplay g =
     (let g = g\<lparr>updatesPending := True\<rparr>
      in if \<not> postponeUpdates g
         then g\<lparr>display := Some (segments g), updatesPending := False\<rparr>
         else g)"

definition CHECK_INDEX :: "YBarGraph \<Rightarrow> int \<Rightarrow> unit result" where
  "CHECK_INDEX g i =
     (if i < 0 \<or> i \<ge> int (length (segments g))
      then throw (YUIIndexOutOfRangeException i 0 (int (length (segments g)) - 1))
      else return ())"

definition addSegment :: "YBarGraphSegment \<Rightarrow> YBarGraph \<Rightarrow> YBarGraph" where
  "addSegment s g = updateDisplay (g\<lparr>segments := segments g @ [s]\<rparr>)"

definition deleteAllSegments :: "YBarGraph \<Rightarrow> YBarGraph" where
  "deleteAllSegments g = updateDisplay (g\<lparr>segments := []\<rparr>)"

definition segment :: "YBarGraph \<Rightarrow> int \<Rightarrow> YBarGraphSegment result" where
  "segment g i = bind_result (CHECK_INDEX g i) (\<lambda>_. return (segments g ! nat i))"

definition update_segment :: "YBarGraph \<Rightarrow> int \<Rightarrow> (YBarGraphSegment \<Rightarrow> YBarGraphSegment) \<Rightarrow> YBarGraph" where
  "update_segment g i f =
     updateDisplay (g\<lparr>segments := (segments g)[nat i := f (segments g ! nat i)]\<rparr>)"

definition bg_setValue :: "int \<Rightarrow> int \<Rightarrow> YBarGraph \<Rightarrow> YBarGraph result" where
  "bg_setValue i v g =
     bind_result (CHECK_INDEX g i) (\<lambda>_. return (update_segment g i (\<lambda>s. s\<lparr>seg_value := v\<rparr>)))"

definition bg_setLabel :: "int \<Rightarrow> string \<Rightarrow> YBarGraph \<Rightarrow> YBarGraph result" where
  "bg_setLabel i l g =
     bind_result (CHECK_INDEX g i) (\<lambda>_. return (update_segment g i (\<lambda>s. s\<lparr>seg_label := l\<rparr>)))"

definition setSegmentColor :: "int \<Rightarrow> YColor \<Rightarrow> YBarGraph \<Rightarrow> YBarGraph result" where
  "setSegmentColor i c g =
     bind_result (CHECK_INDEX g i) (\<lambda>_.
     if undef c then throw (YUIException ''Invalid YColor'')
     else return (update_segment g i (\<lambda>s. s\<lparr>segmentColor := c\<rparr>)))"

definition setTextColor :: "int \<Rightarrow> YColor \<Rightarrow> YBarGraph \<Rightarrow> YBarGraph result" where
  "setTextColor i c g =
     bind_result (CHECK_INDEX g i) (\<lambda>_.
     if undef c then throw (YUIException ''Invalid YColor'')
     else return (update_segment g i (\<lambda>s. s\<lparr>textColor := c\<rparr>)))"

definition new_YBarGraphMultiUpdate :: "YBarGraph \<Rightarrow> YBarGraph" where
  "new_YBarGraphMultiUpdate g = g\<lparr>postponeUpdates := True\<rparr>"

definition delete_YBarGraphMultiUpdate :: "YBarGraph \<Rightarrow> YBarGraph" where
  "delete_YBarGraphMultiUpdate g =
     (let g = g\<lparr>postponeUpdates := False\<rparr>
      in if updatesPending g then updateDisplay g else g)"

datatype bar_op =
    Add_segment YBarGraphSegment | Delete_segments | Set_value int int | Set_label int string
  | Set_segmentColor int YColor | Set_textColor int YColor | Begin_update | End_update

text \<open>One call of the interface; a call that throws leaves the graph as it was.\<close>

definition caught :: "YBarGraph \<Rightarrow> YBarGraph result \<Rightarrow> YBarGraph" where
  "caught g r = (case r of Inl _ \<Rightarrow> g | Inr g' \<Rightarrow> g')"

fun bar_step :: "YBarGraph \<Rightarrow> bar_op \<Rightarrow> YBarGraph" where
  "bar_step g (Add_segment s) = addSegment s g"
| "bar_step g Delete_segments = deleteAllSegments g"
| "bar_step g (Set_value i v) = caught g (bg_setValue i v g)"
| "bar_step g (Set_label i l) = caught g (bg_setLabel i l g)"
| "bar_step g (Set_segmentColor i c) = caught g (setSegmentColor i c g)"
| "bar_step g (Set_textColor i c) = caught g (setTextColor i c g)"
| "bar_step g Begin_update = new_YBarGraphMultiUpdate g"
| "bar_step g End_update = delete_YBarGraphMultiUpdate g"

definition bar_run :: "YBarGraph \<Rightarrow> bar_op list \<Rightarrow> YBarGraph" where
  "bar_run g ops = foldl bar_step g ops"

definition bar_shown :: "YBarGraph \<Rightarrow> bool" where
  "bar_shown g \<longleftrightarrow>
     (updatesPending g \<or> display g = Some (segments g) \<or> display g = None \<and> segments g = [])
     \<and> (updatesPending g \<longrightarrow> postponeUpdates g)"

lemma updateDisplay_shown: "bar_shown (updateDisplay g)"
  by (simp add: bar_shown_def updateDisplay_def Let_def)

lemma caught_shown:
  assumes "bar_shown g" "\<And>g'. r = Inr g' \<Longrightarrow> bar_shown g'"
  shows "bar_shown (caught g r)"
  using assms by (simp add: caught_def split: sum.splits)

lemma bar_step_shown: "bar_shown g \<Longrightarrow> bar_shown (bar_step g op)"
proof (cases op)
  case End_update
  assume "bar_shown g"
  with End_update show ?thesis
    by (auto simp: delete_YBarGraphMultiUpdate_def Let_def updateDisplay_shown) (auto simp: bar_shown_def)
next
  case Begin_update
  assume "bar_shown g"
  with Begin_update show ?thesis by (auto simp: new_YBarGraphMultiUpdate_def bar_shown_def)
qed (auto intro!: caught_shown updateDisplay_shown
    simp: addSegment_def deleteAllSegments_def bg_setValue_def bg_setLabel_def setSegmentColor_def
      setTextColor_def update_segment_def bind_result_Inr_iff split: if_splits)

lemma bar_run_shown: "bar_shown g \<Longrightarrow> bar_shown (bar_run g ops)"
  unfolding bar_run_def by (induction ops arbitrary: g) (simp_all add: bar_step_shown)

lemma bar_step_postponed:
  assumes "postponeUpdates g" "op \<noteq> End_update"
  shows "postponeUpdates (bar_step g op)" "display (bar_step g op) = display g"
  using assms
  by (cases op; auto simp: caught_def addSegment_def deleteAllSegments_def bg_setValue_def bg_setLabel_def
      setSegmentColor_def setTextColor_def update_segment_def updateDisplay_def Let_def bind_result_def
      new_YBarGraphMultiUpdate_def split: sum.splits if_splits)+

lemma bar_run_postponed:
  assumes "postponeUpdates g" "End_update \<notin> set ops"
  shows "display (bar_run g ops) = display g"
  using assms unfolding bar_run_def
proof (induction ops arbitrary: g)
  case (Cons op ops)
  then show ?case using bar_step_postponed[of g op] by auto
qed simp

lemma bar_step_direct:
  assumes "\<not> postponeUpdates g" "op \<noteq> Begin_update"
  shows "\<not> postponeUpdates (bar_step g op)"
  using assms
  by (cases op) (auto simp: caught_def addSegment_def deleteAllSegments_def bg_setValue_def bg_setLabel_def
      setSegmentColor_def setTextColor_def update_segment_def updateDisplay_def Let_def bind_result_def
      delete_YBarGraphMultiUpdate_def split: sum.splits if_splits)

lemma bar_run_direct:
  assumes "\<not> postponeUpdates g" "Begin_update \<notin> set ops"
  shows "\<not> postponeUpdates (bar_run g ops)"
  using assms unfolding bar_run_def
proof (induction ops arbitrary: g)
  case (Cons op ops)
  then show ?case using bar_step_direct[of g op] by auto
qed simp

lemma bar_run_append: "bar_run g (xs @ ys) = bar_run (bar_run g xs) ys"
  by (simp add: bar_run_def)

text \<open>The display shows the segments the graph has now, or nothing was ever drawn and there are none.\<close>

definition up_to_date :: "YBarGraph \<Rightarrow> bool" where
  "up_to_date g \<longleftrightarrow> display g = Some (segments g) \<or> display g = None \<and> segments g = []"

text \<open>
  C34: Display updates of a bar graph are held back but never lost, after every history of calls, failed
  ones included, and with any number of \<^verbatim>\<open>YBarGraphMultiUpdate\<close> objects. From the creation of such an
  object until the next destruction of such an object, no call draws anything. From a destruction until
  the next creation, the display is up to date after every call; the destruction itself changes no
  segment. Update objects of one graph do not nest, then: when the inner one is destroyed, all that was
  held back is drawn and the updates are no longer held back, although the outer one still lives.
\<close>

theorem bar_graph_updates:
  "(End_update \<notin> set ops \<longrightarrow>
      display (bar_run new_YBarGraph (before @ Begin_update # ops)) = display (bar_run new_YBarGraph before))
   \<and> (Begin_update \<notin> set ops \<longrightarrow> up_to_date (bar_run new_YBarGraph (before @ End_update # ops)))
   \<and> segments (bar_run new_YBarGraph (before @ [End_update])) = segments (bar_run new_YBarGraph before)"
proof -
  define g where "g = bar_run new_YBarGraph before"
  have run: "bar_run new_YBarGraph (before @ op # ops) = bar_run (bar_step g op) ops" for op ops
    by (simp add: g_def bar_run_append) (simp add: bar_run_def)
  have "display (bar_run (new_YBarGraphMultiUpdate g) ops) = display g" if "End_update \<notin> set ops"
    using bar_run_postponed[OF _ that, of "new_YBarGraphMultiUpdate g"] by (simp add: new_YBarGraphMultiUpdate_def)
  moreover have "up_to_date (bar_run (delete_YBarGraphMultiUpdate g) ops)" if "Begin_update \<notin> set ops"
  proof -
    have "bar_shown new_YBarGraph" by (simp add: bar_shown_def new_YBarGraph_def)
    then have sh: "bar_shown (bar_run new_YBarGraph (before @ End_update # ops))" by (rule bar_run_shown)
    have "\<not> postponeUpdates (delete_YBarGraphMultiUpdate g)"
      by (simp add: delete_YBarGraphMultiUpdate_def updateDisplay_def Let_def)
    from bar_run_direct[OF this that] sh[unfolded run] show ?thesis by (auto simp: bar_shown_def up_to_date_def)
  qed
  moreover have "segments (delete_YBarGraphMultiUpdate g) = segments g"
    by (simp add: delete_YBarGraphMultiUpdate_def updateDisplay_def Let_def)
  ultimately show ?thesis by (simp add: run g_def[symmetric]) (simp add: bar_run_def)
qed

theorem bar_graph_updates_witness:
  "let s = \<lparr>seg_value = 3, seg_label = ''x'', segmentColor = undefined_YColor,
            textColor = undefined_YColor\<rparr>;
       g1 = bar_run new_YBarGraph [Begin_update, Begin_update, Add_segment s, Set_value 0 7, Set_value 1 9];
       g2 = bar_run new_YBarGraph ([Begin_update, Begin_update, Add_segment s, Set_value 0 7, Set_value 1 9] @ [End_update])
   in display g1 = None \<and> segments g1 = [s\<lparr>seg_value := 7\<rparr>] \<and> display g2 = Some [s\<lparr>seg_value := 7\<rparr>]"
proof -
  let ?s = "\<lparr>seg_value = 3, seg_label = ''x'', segmentColor = undefined_YColor,
             textColor = undefined_YColor\<rparr>"
  let ?ops = "[Begin_update, Begin_update, Add_segment ?s, Set_value 0 7, Set_value 1 9]"
  have g: "segments (bar_run new_YBarGraph ?ops) = [?s\<lparr>seg_value := 7\<rparr>]" by code_simp
  have "display (bar_run new_YBarGraph ?ops) = None"
    using bar_graph_updates[of "tl ?ops" "[]"] by (simp add: bar_run_def new_YBarGraph_def)
  moreover have "up_to_date (bar_run new_YBarGraph (?ops @ [End_update]))"
    and "segments (bar_run new_YBarGraph (?ops @ [End_update])) = segments (bar_run new_YBarGraph ?ops)"
    using bar_graph_updates[of "[]" ?ops] by simp_all
  ultimately show ?thesis using g by (simp only: Let_def up_to_date_def) simp
qed

section \<open>YCommandLine\<close>

text \<open>The arguments the constructor reads from \<^verbatim>\<open>/proc\<close> are a parameter: the list a program starts with.\<close>

type_synonym YCommandLine = "string list"

definition cl_argc :: "YCommandLine \<Rightarrow> int" where
  "cl_argc args = int (length args)"

definition cl_add :: "YCommandLine \<Rightarrow> string \<Rightarrow> YCommandLine" where
  "cl_add args a = args @ [a]"

definition cl_arg :: "YCommandLine \<Rightarrow> int \<Rightarrow> string result" where
  "cl_arg args i =
     bind_result (YUI_CHECK_INDEX i 0 (int (length args) - 1)) (\<lambda>_. return (args ! nat i))"

definition cl_remove :: "YCommandLine \<Rightarrow> int \<Rightarrow> YCommandLine result" where
  "cl_remove args i =
     bind_result (YUI_CHECK_INDEX i 0 (int (length args) - 1)) (\<lambda>_.
     return (take (nat i) args @ drop (Suc (nat i)) args))"

definition cl_replace :: "YCommandLine \<Rightarrow> int \<Rightarrow> string \<Rightarrow> YCommandLine result" where
  "cl_replace args i a =
     bind_result (YUI_CHECK_INDEX i 0 (int (length args) - 1)) (\<lambda>_. return (args[nat i := a]))"

fun cl_find_from :: "int \<Rightarrow> YCommandLine \<Rightarrow> string \<Rightarrow> int" where
  "cl_find_from i [] a = -1"
| "cl_find_from i (b # args) a = (if b = a then i else cl_find_from (i + 1) args a)"

definition cl_find :: "YCommandLine \<Rightarrow> string \<Rightarrow> int" where
  "cl_find args a = cl_find_from 0 args a"

lemma cl_find_from_spec:
  assumes "0 \<le> i"
  shows "cl_find_from i args a =
    (if a \<in> set args then i + int (length (takeWhile (\<lambda>b. b \<noteq> a) args)) else -1)"
  using assms by (induction args arbitrary: i) auto

text \<open>
  Searching an argument and removing it with the index found takes out its first occurrence and nothing
  else; an argument that is not there gives an index that every other operation refuses.
\<close>

lemma cl_find_remove:
  "cl_remove args (cl_find args a) =
     (if a \<in> set args then return (remove1 a args)
      else throw (YUIIndexOutOfRangeException (-1) 0 (int (length args) - 1)))"
proof (cases "a \<in> set args")
  case True
  define xs where "xs = takeWhile (\<lambda>b. b \<noteq> a) args"
  obtain ys where args: "args = xs @ a # ys"
    using split_list_first[OF True] by (auto simp: xs_def takeWhile_append)
  have "a \<notin> set xs" by (auto simp: xs_def dest: set_takeWhileD)
  then have "remove1 a args = xs @ ys" by (simp add: args remove1_append)
  then show ?thesis
    using True cl_find_from_spec[of 0 args a]
    by (simp add: cl_find_def cl_remove_def xs_def[symmetric]) (simp add: args YUI_CHECK_INDEX_def)
qed (simp add: cl_find_def cl_find_from_spec cl_remove_def YUI_CHECK_INDEX_def)

end
