(* ===== verification/Spec2Isabelle.thy ===== *)
theory Spec2Isabelle
  imports Yui_Prelude Yui_Shortcut Yui_Item Yui_Selection Yui_Widget Yui_ShortcutManager Yui_LayoutBox
    Yui_Alignment Yui_ButtonBox Yui_Heap Yui_Event
    Yui_Dialog Yui_DialogEvents Yui_DialogLife Yui_LogView Yui_Property Yui_PropertyWidgets
    Yui_Menu Yui_StringTree Yui_LayoutTree Yui_Radio Yui_Table Yui_PushButton Yui_ItemSelector Yui_Values
begin

text \<open>
  \<^bold>\<open>Verification of libyui\<close>, the widget abstraction library of YaST, with a Qt and a text mode (curses)
  toolkit below it. The development models the toolkit independent core in \<^verbatim>\<open>src/libyui/src\<close>, and the
  radio buttons of both toolkits.

  \<^bold>\<open>The program.\<close> An application builds a tree of widgets below a dialog, opens it and waits for
  events. The dialog resolves conflicts between keyboard shortcuts (\<^verbatim>\<open>YShortcutManager\<close>), asks the
  containers for preferred sizes and lays the tree out (\<^verbatim>\<open>YLayoutBox\<close>, \<^verbatim>\<open>YAlignment\<close>, \<^verbatim>\<open>YButtonBox\<close>), and
  filters the events that the toolkit queues (\<^verbatim>\<open>YSimpleEventHandler\<close>, \<^verbatim>\<open>YEventFilter\<close>). Dialogs form a
  stack. Selection widgets, menus and tables own trees of items. Every widget answers to properties by
  name (\<^verbatim>\<open>YProperty\<close>), and a set of classes keeps plain values.

  \<^bold>\<open>Conventions.\<close> A class is a record (a subclass extends it or contains it), an enum or a class hierarchy
  is a datatype, a method is a function of the same name that returns the new state. Exceptions are the
  left values of \<open>result\<close>; an access that C++ gives no meaning, such as a dangling or null pointer or a
  vector index out of range, is the exception \<open>undefined_behaviour\<close>, so that every theorem about a
  normal result excludes it. Objects whose life time or sharing matters (widgets, dialogs, filters,
  events, tree items, table cells) live in maps from addresses. Where a loop follows pointers it is a
  \<open>partial_function\<close> whose value \<open>None\<close> means that it does not end; the theorems show that it does.
  Integers are unbounded: the models describe the code as long as no value leaves the range of a C++
  \<open>int\<close>.

  \<^bold>\<open>Theories, and the code they model.\<close>

  \<^item> \<^verbatim>\<open>Yui_Prelude\<close>: \<^verbatim>\<open>YTypes.h\<close>, the exceptions and index checks of \<^verbatim>\<open>YUIException.h\<close>, truncating division, and
    the lemmas on lists and positions that the components share.
  \<^item> \<^verbatim>\<open>Yui_Shortcut\<close> (\<^verbatim>\<open>YShortcut.cc\<close>): marked and clean labels, characters, the caches of a shortcut object.
    Removing the markers agrees with a reference definition, setting a shortcut and reading it back
    agree. The locale \<open>label_owner\<close> holds for everything that owns a label with a shortcut.
  \<^item> \<^verbatim>\<open>Yui_ShortcutManager\<close> (\<^verbatim>\<open>YShortcutManager.cc\<close>): collection and resolution for the widget tree of a
    dialog. A check changes the markers of labels only, and leaves labels without a conflict as they
    are. When at least half of the labels have a usable character, a check that resolves conflicts ends
    with no two labels that share a shortcut, and a label has none only if others use up its characters.
  \<^item> \<^verbatim>\<open>Yui_Item\<close>, \<^verbatim>\<open>Yui_Selection\<close> (\<^verbatim>\<open>YItem.h\<close>, \<^verbatim>\<open>YTreeItem.cc\<close>, \<^verbatim>\<open>YSelectionWidget.cc\<close>): item trees and the
    selection. At most one item is selected in a single selection over all histories, provided the
    first item added brings no selected descendant; if it does, two items are selected.
  \<^item> \<^verbatim>\<open>Yui_Menu\<close> (\<^verbatim>\<open>YMenuWidget.cc\<close>, \<^verbatim>\<open>YMenuItem.cc\<close>, \<^verbatim>\<open>YTree.cc\<close>): serial numbers lead back to the items
    that were added through the widget, and items added to an item of the widget get none; on every menu
    level below items with a label shortcuts become unique; items are found by their path if labels are
    unique on each level, and wrong ones or none if the first item on the path is not the right one.
  \<^item> \<^verbatim>\<open>Yui_ItemSelector\<close> (\<^verbatim>\<open>YItemSelector.cc\<close>): custom states and their cycle.
  \<^item> \<^verbatim>\<open>Yui_Table\<close> (\<^verbatim>\<open>YTableItem.cc\<close>): every cell belongs to one item and is deleted once; which cell texts
    come back.
  \<^item> \<^verbatim>\<open>Yui_StringTree\<close> (\<^verbatim>\<open>YStringTree.cc\<close>, \<^verbatim>\<open>TreeItem.h\<close>, \<^verbatim>\<open>YTransText.h\<close>): linked lists of sorted siblings.
    Every history of insertions ends, keeps siblings sorted by their translation, and the path of an
    inserted branch is the text inserted.
  \<^item> \<^verbatim>\<open>Yui_Widget\<close>, \<^verbatim>\<open>Yui_Heap\<close> (\<^verbatim>\<open>YWidget.cc\<close>, \<^verbatim>\<open>YChildrenManager.h\<close>): children managers (locale
    \<open>children_store\<close>), search and attributes on widget trees; construction and destruction on a heap.
    Parents and children stay consistent, and deleting a widget frees exactly its subtree.
  \<^item> \<^verbatim>\<open>Yui_LayoutBox\<close>, \<^verbatim>\<open>Yui_Alignment\<close>, \<^verbatim>\<open>Yui_ButtonBox\<close>, \<^verbatim>\<open>Yui_LayoutTree\<close>: the layout engine. Boxes with
    weights, rubber bands and too little space, alignments with margins, button boxes with their order
    and policy, and the recursion over a whole tree with \<^verbatim>\<open>YSpacing\<close>, \<^verbatim>\<open>YSquash\<close> and \<^verbatim>\<open>YEmpty\<close>. Children lie
    inside their parents, no two leaves overlap at any depth and size, and with the preferred size
    every widget of a tree without weights gets at least its own preferred size.
  \<^item> \<^verbatim>\<open>Yui_Event\<close> (\<^verbatim>\<open>YEvent.cc\<close>, \<^verbatim>\<open>YSimpleEventHandler.cc\<close>): who owns an event; no event is freed twice (locale
    \<open>event_memory\<close>).
  \<^item> \<^verbatim>\<open>Yui_Dialog\<close>, \<^verbatim>\<open>Yui_DialogEvents\<close>, \<^verbatim>\<open>Yui_DialogLife\<close> (\<^verbatim>\<open>YDialog.cc\<close>, \<^verbatim>\<open>YEventFilter.cc\<close>): dialogs, filters,
    opening, waiting, polling and destruction on a common state. All histories keep it consistent, the
    dialog stack refines an abstract stack (locale \<open>simulation\<close>) when it is called with dialogs that
    are on it, waiting delivers the first event that gets through, or what a filter makes of it, and
    returns when there is one. The validity checks of the code on deleted objects are not defined: they
    read a mark in freed memory.
  \<^item> \<^verbatim>\<open>Yui_Radio\<close> (\<^verbatim>\<open>YRadioButtonGroup.cc\<close>, \<^verbatim>\<open>YQRadioButton.cc\<close>, \<^verbatim>\<open>NCRadioButton.cc\<close>): the contract of a toolkit's
    radio buttons as the locale \<open>radio_toolkit\<close>, interpreted for both toolkits; which buttons can be
    checked together.
  \<^item> \<^verbatim>\<open>Yui_PushButton\<close> (\<^verbatim>\<open>YPushButton.cc\<close>): roles, function keys and the default button of a dialog.
  \<^item> \<^verbatim>\<open>Yui_LogView\<close> (\<^verbatim>\<open>YLogView.cc\<close>): the queue of log lines and its limit, which a log that was longer when the
    limit was set keeps exceeding.
  \<^item> \<^verbatim>\<open>Yui_Property\<close>, \<^verbatim>\<open>Yui_PropertyWidgets\<close> (\<^verbatim>\<open>YProperty.cc\<close> and the properties of 32 widget classes): the
    contract of \<^verbatim>\<open>setProperty\<close> and \<^verbatim>\<open>getProperty\<close> as the locales \<open>property_owner\<close> and \<open>property_class\<close>,
    interpreted for each class: values have the declared type, errors throw, and what was set is read,
    except where the class or its toolkit changes or ignores it. The virtual functions that a toolkit
    overrides without calling the base class are carried by the object.
  \<^item> \<^verbatim>\<open>Yui_Values\<close> (\<^verbatim>\<open>FSize.cc\<close>, \<^verbatim>\<open>YMultiProgressMeter.cc\<close>, \<^verbatim>\<open>YBarGraph.cc\<close>, \<^verbatim>\<open>YCommandLine.cc\<close>): rounding of sizes,
    clamped progress values, display updates that are postponed until an update object is destroyed, and
    not lost.

  \<^bold>\<open>Parameters.\<close> Code outside the repository is an argument of the definitions: the values the toolkit
  holds, the events it delivers, the sizes of leaf widgets, \<^verbatim>\<open>gettext\<close>, the function key table and
  layout units of the application object, and the filters of the application. What the theorems assume
  of them is a named hypothesis, and a witness instantiates it. \<open>documented\<close>: an application filter
  consumes an event, passes it on, or returns an event it has newly created, as \<^verbatim>\<open>YEventFilter.h\<close> has it;
  a new event does not refer to a widget that is not in memory, and what a filter does besides, to
  widgets or dialogs, is not modelled. \<open>arriving\<close>: the toolkit delivers events that are in memory, owned
  by nobody, and not of a deleted widget; \<^verbatim>\<open>YSimpleEventHandler::deletePendingEventsFor\<close> is how the event
  handler takes care of that.

  \<^bold>\<open>Bounds.\<close> Nested destructors are counted by a fuel argument; the theorems hold for every fuel that is
  at least the number of widgets in memory, and a subtree is never deeper than that. The events a
  waiting dialog receives are a finite list, the end of which stands for waiting on; that it returns
  is proved when the list has an event that passes the filters. All other loops are total functions,
  or are proved to end.

  \<^bold>\<open>Not modelled.\<close> Toolkit code besides radio buttons, because it consists of calls into Qt and curses; the
  package selectors (views on libzypp), the REST interface (HTTP and JSON libraries) and the graph
  widget (graphviz); threads, plugins, files, environment and log output (\<^verbatim>\<open>YUI.cc\<close>, \<^verbatim>\<open>YUILoader.cc\<close>,
  \<^verbatim>\<open>YSettings.cc\<close>, \<^verbatim>\<open>YPath.cc\<close>, \<^verbatim>\<open>YUILog.cc\<close>); the debugging dialogs \<^verbatim>\<open>YDialogSpy.cc\<close> and \<^verbatim>\<open>YPropertyEditor.cc\<close>;
  the factories and the widget classes that only store their arguments. Out of the modelled classes:
  the text of log messages, printing of sizes with decimals (done by boost), the destructor of the
  string tree, and the popups of \<^verbatim>\<open>YDialogHelpers.cc\<close>.
\<close>

end
